(* ===== verification/Prelude.thy ===== *)
theory Prelude
  imports Main "HOL-Library.Word"
begin

unbundle bit_operations_syntax

text \<open>
  Shared vocabulary of the development: the machine integer types of
  \<^verbatim>\<open>include/common/defs.h\<close>, the outcome type of code that can panic or run
  into undefined behaviour, and the lemmas on outcomes, wrap-around subtraction
  and words that the component theories use.
\<close>

section \<open>Machine integers\<close>

type_synonym u8 = "8 word"
type_synonym u16 = "16 word"
type_synonym u32 = "32 word"
type_synonym u64 = "64 word"

text \<open>
  Counters and sizes that the code keeps in a \<^verbatim>\<open>u64\<close> are natural numbers where
  no operation on them can leave the range; the one operation that can, the
  subtraction, is written with its wrap-around.
\<close>

definition sub64 :: "nat \<Rightarrow> nat \<Rightarrow> nat" where
  "sub64 a b = (a + 2 ^ 64 - b) mod 2 ^ 64"

lemma sub64_le [simp]: "b \<le> a \<Longrightarrow> a < 2 ^ 64 \<Longrightarrow> sub64 a b = a - b"
proof -
  assume le: "b \<le> a" and lt: "a < 2 ^ 64"
  have "a + 2 ^ 64 - b = (a - b) + 2 ^ 64" using le by simp
  then have "sub64 a b = (a - b) mod 2 ^ 64"
    unfolding sub64_def by (metis mod_add_self2)
  also have "\<dots> = a - b" using lt by (simp add: less_imp_diff_less)
  finally show ?thesis .
qed

lemma sub64_underflow: "a < b \<Longrightarrow> b \<le> 2 ^ 64 \<Longrightarrow> sub64 a b = 2 ^ 64 - (b - a)"
  unfolding sub64_def by (subst mod_less) auto

text \<open>Byte \<open>i\<close> of a word, least significant first: the order in which x86 stores it.\<close>

definition byte_of :: "'a::len word \<Rightarrow> nat \<Rightarrow> u8" where
  "byte_of v i = ucast (drop_bit (8 * i) v)"

lemma byte_of_inject:
  assumes "\<And>i. 8 * i < LENGTH('a) \<Longrightarrow> byte_of v i = byte_of w i"
  shows "v = (w :: 'a::len word)"
proof (rule bit_word_eqI)
  fix n assume n: "n < LENGTH('a)"
  then have "8 * (n div 8) < LENGTH('a)" by (meson le_less_trans times_div_less_eq_dividend)
  with assms have "bit (byte_of v (n div 8)) (n mod 8) = bit (byte_of w (n div 8)) (n mod 8)" by simp
  then show "bit v n = bit w n" using n by (simp add: byte_of_def bit_simps)
qed

text \<open>Memory: every address of the 64-bit space holds a byte.\<close>

type_synonym mem = "u64 \<Rightarrow> u8"

lemma of_nat_u64_inject:
  "i < 2 ^ 64 \<Longrightarrow> j < 2 ^ 64 \<Longrightarrow> (of_nat i :: u64) = of_nat j \<longleftrightarrow> i = j"
  by (auto simp: unat_of_nat dest!: arg_cong [where f = unat])

text \<open>Widening a word keeps its value.\<close>

lemma unat_ucast_up: "LENGTH('a) \<le> LENGTH('b) \<Longrightarrow> unat (ucast (w :: 'a::len word) :: 'b::len word) = unat w"
proof -
  assume "LENGTH('a) \<le> LENGTH('b)"
  moreover have "unat w < 2 ^ LENGTH('a)" by (rule unsigned_less)
  ultimately have "unat w < 2 ^ LENGTH('b)" by (meson less_le_trans one_le_numeral power_increasing)
  then show ?thesis by (simp add: unsigned_ucast_eq take_bit_nat_eq_self)
qed

lemma unat_offset: "unat (p :: u64) + k < 2 ^ 64 \<Longrightarrow> unat (p + of_nat k) = unat p + k"
  by (simp add: unat_word_ariths unat_of_nat)

section \<open>Arrays\<close>

text \<open>The loop \<^verbatim>\<open>for (i = 0; i < n; i++) a[i] = f(i, a[i])\<close> over an array.\<close>

primrec for_upd :: "nat \<Rightarrow> (nat \<Rightarrow> 'a \<Rightarrow> 'a) \<Rightarrow> (nat \<Rightarrow> 'a) \<Rightarrow> nat \<Rightarrow> 'a" where
  "for_upd 0 f a = a"
| "for_upd (Suc n) f a = (let a' = for_upd n f a in a'(n := f n (a' n)))"

lemma for_upd_apply: "for_upd n f a i = (if i < n then f i (a i) else a i)"
  by (induction n) (auto simp: Let_def less_Suc_eq)

section \<open>Outcomes\<close>

text \<open>
  The kernel has no exceptions. An operation either returns, or stops the machine in
  \<^verbatim>\<open>Kernel::panic\<close> (also through \<^verbatim>\<open>do_assert\<close>), or does something the C++ language
  leaves undefined: an access outside an array, or through a null pointer.
\<close>

datatype fault = Panic string | Undefined string

type_synonym 'a res = "fault + 'a"

definition bindR :: "'a res \<Rightarrow> ('a \<Rightarrow> 'b res) \<Rightarrow> 'b res" where
  "bindR m f = (case m of Inl e \<Rightarrow> Inl e | Inr x \<Rightarrow> f x)"

definition assertR :: "bool \<Rightarrow> string \<Rightarrow> unit res" where
  "assertR b msg = (if b then Inr () else Inl (Panic msg))"

definition guardR :: "bool \<Rightarrow> string \<Rightarrow> unit res" where
  "guardR b msg = (if b then Inr () else Inl (Undefined msg))"

lemma bindR_simps [simp]: "bindR (Inl e) f = Inl e" "bindR (Inr x) f = f x"
  by (simp_all add: bindR_def)

lemma bindR_cong [fundef_cong]:
  "m = m' \<Longrightarrow> (\<And>x. m' = Inr x \<Longrightarrow> f x = f' x) \<Longrightarrow> bindR m f = bindR m' f'"
  by (cases m') auto

lemma bindR_eq_Inr: "bindR m f = Inr y \<longleftrightarrow> (\<exists>x. m = Inr x \<and> f x = Inr y)"
  by (cases m) auto

lemma bindR_eq_Inl: "bindR m f = Inl e \<longleftrightarrow> m = Inl e \<or> (\<exists>x. m = Inr x \<and> f x = Inl e)"
  by (cases m) auto

lemma assertR_simps [simp]:
  "b \<Longrightarrow> assertR b msg = Inr ()" "\<not> b \<Longrightarrow> assertR b msg = Inl (Panic msg)"
  by (simp_all add: assertR_def)

lemma guardR_simps [simp]:
  "b \<Longrightarrow> guardR b msg = Inr ()" "\<not> b \<Longrightarrow> guardR b msg = Inl (Undefined msg)"
  by (simp_all add: guardR_def)

lemma assertR_eq_Inr: "assertR b msg = Inr u \<longleftrightarrow> b"
  by (simp add: assertR_def)

lemma guardR_eq_Inr: "guardR b msg = Inr u \<longleftrightarrow> b"
  by (simp add: guardR_def)

named_theorems outcome "equations that take an outcome apart"

declare bindR_eq_Inr [outcome] bindR_eq_Inl [outcome]
  assertR_eq_Inr [outcome] guardR_eq_Inr [outcome]

section \<open>Waiting\<close>

text \<open>A loop that polls the hardware: the time of the first success, or \<^const>\<open>None\<close> if there is none.\<close>

partial_function (option) wait_until :: "(nat \<Rightarrow> bool) \<Rightarrow> nat \<Rightarrow> nat option" where
  "wait_until p t = (if p t then Some t else wait_until p (t + 1))"

lemma wait_until_returns: "p (t + k) \<Longrightarrow> \<exists>t'. wait_until p t = Some t'"
proof (induction k arbitrary: t)
  case (Suc k)
  then show ?case by (cases "p t") (auto simp: wait_until.simps [of p t])
qed (simp add: wait_until.simps)

end
