(* ===== verification/Lib.thy ===== *)
theory Lib
  imports Prelude
begin

text \<open>
  The freestanding support library: \<^verbatim>\<open>include/lib/utils.h\<close> (binary logarithms),
  \<^verbatim>\<open>lib/string.cpp\<close> (memory and string primitives) and \<^verbatim>\<open>common/endian.cpp\<close>
  (byte order).  Memory is a total map from 64-bit addresses to bytes, pointer
  arithmetic wraps at 2^64, and every loop is a recursive function over the loop
  variable of the source.
\<close>

section \<open>Binary logarithms\<close>

lemma unat_half: "unat (drop_bit (Suc 0) (n :: u64)) = unat n div 2"
  by (subst unat_drop_bit_eq) (simp add: drop_bit_eq_div)

lemma half_decreases: "0 < drop_bit (Suc 0) (n :: u64) \<Longrightarrow> unat (drop_bit (Suc 0) n) < unat n"
proof -
  assume "0 < drop_bit (Suc 0) n"
  then have "0 < unat (drop_bit (Suc 0) n)" by (simp only: unat_gt_0 word_gt_0)
  then show ?thesis by (simp only: unat_half)
qed

text \<open>\<^verbatim>\<open>do { n >>= 1; ret++; } while (n > 0); return ret - 1;\<close>\<close>

function log2_loop :: "u64 \<Rightarrow> u64 \<Rightarrow> u64" where
  "log2_loop n ret =
     (let n' = drop_bit (Suc 0) n; ret' = ret + 1
      in if n' > 0 then log2_loop n' ret' else ret')"
  by pat_completeness auto
termination
  by (relation "measure (\<lambda>(n, ret). unat n)") (auto simp: half_decreases)

declare log2_loop.simps [simp del]

definition log2 :: "u64 \<Rightarrow> u64" where
  "log2 n = log2_loop n 0 - 1"

function log2_ceil_loop :: "u64 \<Rightarrow> u64 \<Rightarrow> u64 \<Rightarrow> u64 \<times> u64" where
  "log2_ceil_loop n ones ret =
     (let ones' = (if n AND 1 \<noteq> 0 then ones + 1 else ones);
          n' = drop_bit (Suc 0) n; ret' = ret + 1
      in if n' > 0 then log2_ceil_loop n' ones' ret' else (ones', ret'))"
  by pat_completeness auto
termination
  by (relation "measure (\<lambda>(n, ones, ret). unat n)") (auto simp: half_decreases)

declare log2_ceil_loop.simps [simp del]

definition log2_ceil :: "u64 \<Rightarrow> u64" where
  "log2_ceil n = (let (ones, ret) = log2_ceil_loop n 0 0 in if ones > 1 then ret else ret - 1)"

section \<open>What the logarithms compute\<close>

fun nlog :: "nat \<Rightarrow> nat" where
  "nlog n = (if n < 2 then 0 else Suc (nlog (n div 2)))"

declare nlog.simps [simp del]

lemma nlog_bounds: "0 < n \<Longrightarrow> 2 ^ nlog n \<le> n \<and> n < 2 ^ Suc (nlog n)"
proof (induction n rule: nlog.induct)
  case (1 n)
  show ?case
  proof (cases "n < 2")
    case True
    with "1.prems" show ?thesis by (simp add: nlog.simps [of n])
  next
    case False
    with "1.IH" have "2 ^ nlog (n div 2) \<le> n div 2 \<and> n div 2 < 2 ^ Suc (nlog (n div 2))" by simp
    then have "2 ^ Suc (nlog (n div 2)) \<le> n" "n < 2 ^ Suc (Suc (nlog (n div 2)))" by auto
    with False show ?thesis by (simp add: nlog.simps [of n])
  qed
qed

lemma nlog_unique: "2 ^ k \<le> n \<Longrightarrow> n < 2 ^ Suc k \<Longrightarrow> nlog n = k"
proof -
  assume k: "2 ^ k \<le> n" "n < 2 ^ Suc k"
  then have "0 < n" by (metis less_le_trans zero_less_numeral zero_less_power)
  then have b: "2 ^ nlog n \<le> n" "n < 2 ^ Suc (nlog n)" using nlog_bounds by auto
  have "(2::nat) ^ k < 2 ^ Suc (nlog n)" "(2::nat) ^ nlog n < 2 ^ Suc k"
    using k b by (meson le_less_trans)+
  then have "k < Suc (nlog n)" "nlog n < Suc k"
    by (meson one_less_numeral_iff power_less_imp_less_exp semiring_norm(76))+
  then show ?thesis by simp
qed

lemma nlog_less_64: "nlog (unat (n :: u64)) < 64"
proof (cases "unat n = 0")
  case False
  then have "2 ^ nlog (unat n) \<le> unat n" using nlog_bounds by blast
  also have "unat n < 2 ^ 64" using unsigned_less [of n] by simp
  finally show ?thesis by (rule power_less_imp_less_exp [rotated]) simp
qed (simp add: nlog.simps)

lemma log2_loop_nlog: "log2_loop n ret = ret + of_nat (Suc (nlog (unat n)))"
proof (induction n ret rule: log2_loop.induct)
  case (1 n ret)
  have pos: "0 < drop_bit (Suc 0) n \<longleftrightarrow> \<not> unat n < 2"
    by (metis unat_half div_greater_zero_iff not_less unat_gt_0 word_gt_0 zero_less_numeral)
  show ?case
    using "1.IH" [OF refl refl]
    by (simp add: log2_loop.simps [of n] nlog.simps [of "unat n"] Let_def pos unat_half)
qed

lemma unat_log2: "unat (log2 n) = nlog (unat n)"
  using nlog_less_64 [of n]
  by (simp add: log2_def log2_loop_nlog unat_of_nat)

fun nbits :: "nat \<Rightarrow> nat" where
  "nbits n = (if n = 0 then 0 else n mod 2 + nbits (n div 2))"

declare nbits.simps [simp del]

lemma nbits_0 [simp]: "nbits 0 = 0"
  by (simp add: nbits.simps)

lemma nbits_le: "nbits n \<le> Suc (nlog n)"
proof (induction n rule: nbits.induct)
  case (1 n)
  show ?case
  proof (cases "n < 2")
    case True
    then have "n = 0 \<or> n = 1" by auto
    then show ?thesis by (auto simp: nbits.simps [of "Suc 0"] nlog.simps [of "Suc 0"])
  next
    case False
    with "1.IH" have "nbits (n div 2) \<le> Suc (nlog (n div 2))" by simp
    moreover have "n mod 2 \<le> 1" by simp
    ultimately show ?thesis
      using False by (simp add: nbits.simps [of n] nlog.simps [of n])
  qed
qed

lemma nbits_pos: "0 < n \<Longrightarrow> 0 < nbits n"
proof (induction n rule: nbits.induct)
  case (1 n)
  then show ?case
  proof (cases "n < 2")
    case True
    with "1.prems" have "n = 1" by auto
    then show ?thesis by (simp add: nbits.simps [of "Suc 0"])
  next
    case False
    with "1.IH" have "0 < nbits (n div 2)" by simp
    then show ?thesis using "1.prems" by (simp add: nbits.simps [of n])
  qed
qed

lemma nbits_power2: "0 < n \<Longrightarrow> nbits n = 1 \<longleftrightarrow> n = 2 ^ nlog n"
proof (induction n rule: nbits.induct)
  case (1 n)
  show ?case
  proof (cases "n < 2")
    case True
    with "1.prems" have "n = 1" by auto
    then show ?thesis by (simp add: nbits.simps [of "Suc 0"] nlog.simps [of "Suc 0"])
  next
    case False
    then have IH: "nbits (n div 2) = 1 \<longleftrightarrow> n div 2 = 2 ^ nlog (n div 2)" using "1.IH" by simp
    have pos: "0 < nbits (n div 2)" using False by (intro nbits_pos) simp
    have "nbits n = 1 \<longleftrightarrow> even n \<and> nbits (n div 2) = 1"
      using False pos by (auto simp: nbits.simps [of n] even_iff_mod_2_eq_zero)
    also have "\<dots> \<longleftrightarrow> even n \<and> n div 2 = 2 ^ nlog (n div 2)" by (simp only: IH)
    also have "\<dots> \<longleftrightarrow> n = 2 ^ nlog n"
      using False by (auto simp: nlog.simps [of n] dest: arg_cong [where f = even])
    finally show ?thesis .
  qed
qed

lemma log2_ceil_loop_nbits:
  "log2_ceil_loop n ones ret =
     (ones + of_nat (nbits (unat n)), ret + of_nat (Suc (nlog (unat n))))"
proof (induction n ones ret rule: log2_ceil_loop.induct)
  case (1 n ones ret)
  have pos: "0 < drop_bit (Suc 0) n \<longleftrightarrow> \<not> unat n < 2"
    by (metis unat_half div_greater_zero_iff not_less unat_gt_0 word_gt_0 zero_less_numeral)
  have odd: "n AND 1 \<noteq> 0 \<longleftrightarrow> odd (unat n)"
    by (simp add: and_one_eq unat_mod_distrib odd_iff_mod_2_eq_one flip: unat_eq_0)
  have bits: "nbits (unat n) = of_bool (odd (unat n)) + nbits (unat n div 2)"
    by (cases "unat n = 0") (simp_all add: nbits.simps [of "unat n"] mod_2_eq_odd)
  show ?case
  proof (cases "unat n < 2")
    case True
    then have "unat n div 2 = 0" by simp
    with True show ?thesis
      by (simp add: log2_ceil_loop.simps [of n] nlog.simps [of "unat n"] bits Let_def pos odd)
  next
    case False
    with "1.IH" [OF refl refl refl] show ?thesis
      by (simp add: log2_ceil_loop.simps [of n] nlog.simps [of "unat n"] bits Let_def pos odd unat_half)
  qed
qed

lemma unat_log2_ceil:
  "0 < unat n \<Longrightarrow>
   unat (log2_ceil n) = (if unat n = 2 ^ nlog (unat n) then nlog (unat n) else Suc (nlog (unat n)))"
proof -
  assume pos: "0 < unat n"
  have lt: "nlog (unat n) < 64" by (rule nlog_less_64)
  have "nbits (unat n) < 2 ^ 64" using nbits_le [of "unat n"] lt by simp
  then have "1 < (of_nat (nbits (unat n)) :: u64) \<longleftrightarrow> 1 < nbits (unat n)"
    by (simp add: word_less_nat_alt unat_of_nat)
  also have "\<dots> \<longleftrightarrow> unat n \<noteq> 2 ^ nlog (unat n)"
    using nbits_power2 [OF pos] nbits_pos [OF pos] by linarith
  finally have ones: "1 < (of_nat (nbits (unat n)) :: u64) \<longleftrightarrow> unat n \<noteq> 2 ^ nlog (unat n)" .
  have "unat (of_nat (Suc (nlog (unat n))) :: u64) = Suc (nlog (unat n))"
    "unat (of_nat (nlog (unat n)) :: u64) = nlog (unat n)"
    using lt by (simp_all only: unat_of_nat) simp_all
  then show ?thesis
    by (simp add: log2_ceil_def log2_ceil_loop_nbits Let_def ones)
qed

lemma log2_ceil_least:
  assumes pos: "0 < unat n" and k: "unat n \<le> 2 ^ k"
  shows "unat (log2_ceil n) \<le> k"
proof -
  have "(2::nat) ^ nlog (unat n) \<le> 2 ^ k" using nlog_bounds [OF pos] k by (meson le_trans)
  then have le: "nlog (unat n) \<le> k" by simp
  show ?thesis
  proof (cases "nlog (unat n) = k")
    case True
    with k nlog_bounds [OF pos] show ?thesis by (simp add: unat_log2_ceil [OF pos])
  qed (use le in \<open>simp add: unat_log2_ceil [OF pos]\<close>)
qed

section \<open>Byte order\<close>

definition swap_endian32 :: "u32 \<Rightarrow> u32" where
  "swap_endian32 v =
     push_bit 24 (drop_bit 0 v AND 0xff) OR push_bit 16 (drop_bit 8 v AND 0xff) OR
     push_bit 8 (drop_bit 16 v AND 0xff) OR push_bit 0 (drop_bit 24 v AND 0xff)"

definition swap_endian16 :: "u16 \<Rightarrow> u16" where
  "swap_endian16 v = push_bit 8 (drop_bit 0 v AND 0xff) OR push_bit 0 (drop_bit 8 v AND 0xff)"

definition swap_endian8 :: "u8 \<Rightarrow> u8" where
  "swap_endian8 v = v"

lemma ff_mask: "(0xff :: 'a::len word) = mask 8"
  by (simp add: mask_eq_exp_minus_1)

lemma swap_endian32_bytes:
  "byte_of (swap_endian32 v) 0 = byte_of v 3" "byte_of (swap_endian32 v) 1 = byte_of v 2"
  "byte_of (swap_endian32 v) 2 = byte_of v 1" "byte_of (swap_endian32 v) 3 = byte_of v 0"
  by (rule bit_word_eqI; auto simp: byte_of_def swap_endian32_def ff_mask bit_simps)+

lemma swap_endian16_bytes:
  "byte_of (swap_endian16 v) 0 = byte_of v 1" "byte_of (swap_endian16 v) 1 = byte_of v 0"
  by (rule bit_word_eqI; auto simp: byte_of_def swap_endian16_def ff_mask bit_simps)+

lemma swap_endian32_invol [simp]: "swap_endian32 (swap_endian32 v) = v"
proof (rule byte_of_inject)
  fix i :: nat assume "8 * i < LENGTH(32)"
  then have "i = 0 \<or> i = 1 \<or> i = 2 \<or> i = 3" by auto
  then show "byte_of (swap_endian32 (swap_endian32 v)) i = byte_of v i"
    by (elim disjE) (simp_all only: swap_endian32_bytes)
qed

lemma swap_endian16_invol [simp]: "swap_endian16 (swap_endian16 v) = v"
proof (rule byte_of_inject)
  fix i :: nat assume "8 * i < LENGTH(16)"
  then have "i = 0 \<or> i = 1" by auto
  then show "byte_of (swap_endian16 (swap_endian16 v)) i = byte_of v i"
    by (elim disjE) (simp_all only: swap_endian16_bytes)
qed

section \<open>Memory primitives\<close>

function memset_loop :: "mem \<Rightarrow> u64 \<Rightarrow> u8 \<Rightarrow> nat \<Rightarrow> nat \<Rightarrow> mem" where
  "memset_loop m data v sz i =
     (if i < sz then memset_loop (m(data + of_nat i := v)) data v sz (Suc i) else m)"
  by pat_completeness auto
termination
  by (relation "measure (\<lambda>(m, data, v, sz, i). sz - i)") auto

definition memset :: "mem \<Rightarrow> u64 \<Rightarrow> u32 \<Rightarrow> u64 \<Rightarrow> mem" where
  "memset m data value sz = memset_loop m data (ucast value) (unat sz) 0"

function memcpy_loop :: "mem \<Rightarrow> u64 \<Rightarrow> u64 \<Rightarrow> nat \<Rightarrow> nat \<Rightarrow> mem" where
  "memcpy_loop m dst src sz i =
     (if i < sz
      then memcpy_loop (m(dst + of_nat i := m (src + of_nat i))) dst src sz (Suc i)
      else m)"
  by pat_completeness auto
termination
  by (relation "measure (\<lambda>(m, dst, src, sz, i). sz - i)") auto

definition memcpy :: "mem \<Rightarrow> u64 \<Rightarrow> u64 \<Rightarrow> u64 \<Rightarrow> mem" where
  "memcpy m dst src sz = memcpy_loop m dst src (unat sz) 0"

text \<open>The second loop of \<^verbatim>\<open>memmove\<close> copies from the last byte to the first.\<close>

function memmove_down :: "mem \<Rightarrow> u64 \<Rightarrow> u64 \<Rightarrow> nat \<Rightarrow> nat \<Rightarrow> mem" where
  "memmove_down m dst src sz i =
     (if i < sz
      then memmove_down (m(dst + of_nat (sz - i - 1) := m (src + of_nat (sz - i - 1))))
             dst src sz (Suc i)
      else m)"
  by pat_completeness auto
termination
  by (relation "measure (\<lambda>(m, dst, src, sz, i). sz - i)") auto

definition memmove :: "mem \<Rightarrow> u64 \<Rightarrow> u64 \<Rightarrow> u64 \<Rightarrow> mem" where
  "memmove m dest src sz =
     (if src > dest then memcpy_loop m dest src (unat sz) 0
      else memmove_down m dest src (unat sz) 0)"

text \<open>
  \<^verbatim>\<open>memcmp\<close> and \<^verbatim>\<open>strcmp\<close> count in an \<^verbatim>\<open>int\<close>; incrementing it past 2^31 - 1 is
  undefined.
\<close>

function memcmp_loop :: "mem \<Rightarrow> u64 \<Rightarrow> u64 \<Rightarrow> nat \<Rightarrow> nat \<Rightarrow> int res" where
  "memcmp_loop m a b sz i =
     (if i < sz then
        let lhs = m (a + of_nat i); rhs = m (b + of_nat i) in
        if lhs < rhs then Inr (-1)
        else if lhs > rhs then Inr 1
        else if i = 2 ^ 31 - 1 then Inl (Undefined ''signed overflow'')
        else memcmp_loop m a b sz (Suc i)
      else Inr 0)"
  by pat_completeness auto
termination
  by (relation "measure (\<lambda>(m, a, b, sz, i). sz - i)") auto

definition memcmp :: "mem \<Rightarrow> u64 \<Rightarrow> u64 \<Rightarrow> u64 \<Rightarrow> int res" where
  "memcmp m a b sz = memcmp_loop m a b (unat sz) 0"

function strcmp_loop :: "mem \<Rightarrow> u64 \<Rightarrow> u64 \<Rightarrow> nat \<Rightarrow> int res" where
  "strcmp_loop m a b i =
     (if m (a + of_nat i) = 0 \<or> m (b + of_nat i) = 0 then
        let lhs = m (a + of_nat i); rhs = m (b + of_nat i) in
        if lhs < rhs then Inr (-1)
        else if lhs > rhs then Inr 1
        else if i \<ge> 2 ^ 31 - 1 then Inl (Undefined ''signed overflow'')
        else strcmp_loop m a b (Suc i)
      else Inr 0)"
  by pat_completeness auto
termination
  by (relation "measure (\<lambda>(m, a, b, i). 2 ^ 31 - i)") auto

definition strcmp :: "mem \<Rightarrow> u64 \<Rightarrow> u64 \<Rightarrow> int res" where
  "strcmp m a b = strcmp_loop m a b 0"

text \<open>A string with no terminator anywhere keeps \<^verbatim>\<open>strlen\<close> running: \<^const>\<open>None\<close>.\<close>

partial_function (option) strlen_loop :: "mem \<Rightarrow> u64 \<Rightarrow> nat \<Rightarrow> nat option" where
  "strlen_loop m s sz =
     (if m (s + of_nat sz) \<noteq> 0 then strlen_loop m s (Suc sz) else Some sz)"

definition strlen :: "mem \<Rightarrow> u64 \<Rightarrow> nat option" where
  "strlen m s = strlen_loop m s 0"

declare memset_loop.simps [simp del] memcpy_loop.simps [simp del] memmove_down.simps [simp del]
  memcmp_loop.simps [simp del] strcmp_loop.simps [simp del]

section \<open>What the memory primitives compute\<close>

lemma memset_loop_spec:
  "memset_loop m data v sz i x =
     (if \<exists>k. i \<le> k \<and> k < sz \<and> x = data + of_nat k then v else m x)"
proof (induction m data v sz i rule: memset_loop.induct)
  case (1 m data v sz i)
  show ?case
  proof (cases "i < sz")
    case True
    have "(\<exists>k. i \<le> k \<and> k < sz \<and> x = data + of_nat k) \<longleftrightarrow>
        x = data + of_nat i \<or> (\<exists>k. Suc i \<le> k \<and> k < sz \<and> x = data + of_nat k)"
      using True by (metis Suc_leD Suc_leI le_neq_implies_less le_refl)
    moreover have "memset_loop m data v sz i x = memset_loop (m(data + of_nat i := v)) data v sz (Suc i) x"
      using True by (simp add: memset_loop.simps [of m])
    ultimately show ?thesis unfolding "1.IH" [OF True] by (auto simp: fun_upd_def)
  qed (auto simp: memset_loop.simps [of m])
qed

lemma memcpy_loop_spec:
  assumes "sz \<le> 2 ^ 64"
    and "\<And>j k. i \<le> j \<Longrightarrow> j < k \<Longrightarrow> k < sz \<Longrightarrow> dst + of_nat j \<noteq> src + of_nat k"
  shows "i \<le> k \<Longrightarrow> k < sz \<Longrightarrow> memcpy_loop m dst src sz i (dst + of_nat k) = m (src + of_nat k)"
    and "(\<And>k. i \<le> k \<Longrightarrow> k < sz \<Longrightarrow> x \<noteq> dst + of_nat k) \<Longrightarrow> memcpy_loop m dst src sz i x = m x"
  using assms
proof (induction m dst src sz i arbitrary: x k rule: memcpy_loop.induct)
  case (1 m dst src sz i)
  let ?m = "m(dst + of_nat i := m (src + of_nat i))"
  {
    case 1
    have later: "j \<noteq> i \<Longrightarrow> i \<le> j \<Longrightarrow> j < sz \<Longrightarrow> dst + of_nat i \<noteq> dst + (of_nat j :: u64)" for j
      using "1"(2,3) by (simp add: of_nat_u64_inject)
    show ?case
    proof (cases "k = i")
      case True
      have "memcpy_loop ?m dst src sz (Suc i) (dst + of_nat i) = ?m (dst + of_nat i)"
        using "1" later by (intro "1.IH"(2)) auto
      with True "1" show ?thesis by (simp add: memcpy_loop.simps [of m])
    next
      case False
      with "1" have "memcpy_loop ?m dst src sz (Suc i) (dst + of_nat k) = ?m (src + of_nat k)"
        by (intro "1.IH"(1)) auto
      moreover have "dst + of_nat i \<noteq> src + of_nat k" using "1" False by auto
      ultimately show ?thesis using "1" by (simp add: memcpy_loop.simps [of m])
    qed
  next
    case 2
    then show ?case
    proof (cases "i < sz")
      case True
      then have "memcpy_loop ?m dst src sz (Suc i) x = ?m x" using 2 by (intro "1.IH"(2)) auto
      with True 2 show ?thesis by (simp add: memcpy_loop.simps [of m])
    qed (simp add: memcpy_loop.simps [of m])
  }
qed

lemma memmove_down_spec:
  assumes "sz \<le> 2 ^ 64"
    and "\<And>j k. k < j \<Longrightarrow> j < sz - i \<Longrightarrow> dst + of_nat j \<noteq> src + of_nat k"
  shows "k < sz - i \<Longrightarrow> memmove_down m dst src sz i (dst + of_nat k) = m (src + of_nat k)"
    and "(\<And>k. k < sz - i \<Longrightarrow> x \<noteq> dst + of_nat k) \<Longrightarrow> memmove_down m dst src sz i x = m x"
  using assms
proof (induction m dst src sz i arbitrary: x k rule: memmove_down.induct)
  case (1 m dst src sz i)
  let ?t = "sz - i - 1"
  let ?m = "m(dst + of_nat ?t := m (src + of_nat ?t))"
  {
    case 1
    have earlier: "j < ?t \<Longrightarrow> dst + of_nat ?t \<noteq> dst + (of_nat j :: u64)" for j
      using "1"(1,2) of_nat_u64_inject [of ?t j] by auto
    show ?case
    proof (cases "k = ?t")
      case True
      have "memmove_down ?m dst src sz (Suc i) (dst + of_nat ?t) = ?m (dst + of_nat ?t)"
        using "1" earlier by (intro "1.IH"(2)) auto
      moreover have "i < sz" using "1" by simp
      ultimately show ?thesis using True by (simp add: memmove_down.simps [of m])
    next
      case False
      with "1" have "memmove_down ?m dst src sz (Suc i) (dst + of_nat k) = ?m (src + of_nat k)"
        by (intro "1.IH"(1)) auto
      moreover have "dst + of_nat ?t \<noteq> src + of_nat k" using "1"(1) False by (intro "1"(3)) auto
      moreover have "i < sz" using "1" by simp
      ultimately show ?thesis by (simp add: memmove_down.simps [of m])
    qed
  next
    case 2
    then show ?case
    proof (cases "i < sz")
      case True
      then have "memmove_down ?m dst src sz (Suc i) x = ?m x" using 2 by (intro "1.IH"(2)) auto
      moreover have "x \<noteq> dst + of_nat ?t" using True by (intro 2(1)) simp
      ultimately show ?thesis using True by (simp add: memmove_down.simps [of m])
    qed (simp add: memmove_down.simps [of m])
  }
qed

text \<open>Two addresses in ranges that do not run past the end of the address space.\<close>

lemma offset_eq_iff:
  assumes "unat (a :: u64) + sz \<le> 2 ^ 64" "unat b + sz \<le> 2 ^ 64" "j < sz" "k < sz"
  shows "a + of_nat j = b + of_nat k \<longleftrightarrow> unat a + j = unat b + k"
proof -
  have off: "unat (c + of_nat n) = unat c + n" if "unat (c :: u64) + n < 2 ^ 64" for c n
    using that by (simp add: unat_word_ariths unat_of_nat)
  have "unat (a + of_nat j) = unat a + j" "unat (b + of_nat k) = unat b + k"
    using assms by (auto intro!: off)
  then show ?thesis by (metis word_unat_eq_iff)
qed

lemma memmove_copies:
  assumes "unat src + unat sz \<le> 2 ^ 64" "unat dest + unat sz \<le> 2 ^ 64"
  shows "k < unat sz \<Longrightarrow> memmove m dest src sz (dest + of_nat k) = m (src + of_nat k)"
    and "(\<And>k. k < unat sz \<Longrightarrow> x \<noteq> dest + of_nat k) \<Longrightarrow> memmove m dest src sz x = m x"
proof -
  have le: "unat sz \<le> 2 ^ 64" using assms by simp
  have up: "dest + of_nat j \<noteq> src + of_nat k" if "src > dest" "j < k" "k < unat sz" for j k
    using that assms by (subst offset_eq_iff [of dest "unat sz"]) (auto simp: word_less_nat_alt)
  have down: "dest + of_nat j \<noteq> src + of_nat k" if "\<not> src > dest" "k < j" "j < unat sz" for j k
    using that assms by (subst offset_eq_iff [of dest "unat sz"]) (auto simp: word_less_nat_alt)
  show "k < unat sz \<Longrightarrow> memmove m dest src sz (dest + of_nat k) = m (src + of_nat k)"
    unfolding memmove_def using le up down
    by (auto intro: memcpy_loop_spec(1) memmove_down_spec(1))
  show "memmove m dest src sz x = m x" if out: "\<And>k. k < unat sz \<Longrightarrow> x \<noteq> dest + of_nat k"
    unfolding memmove_def using le up down out
    by (simp add: memcpy_loop_spec(2) memmove_down_spec(2))
qed

lemma memcpy_copies:
  assumes "unat src + unat sz \<le> 2 ^ 64" "unat dst + unat sz \<le> 2 ^ 64"
    and "dst \<le> src \<or> unat src + unat sz \<le> unat dst"
  shows "k < unat sz \<Longrightarrow> memcpy m dst src sz (dst + of_nat k) = m (src + of_nat k)"
    and "(\<And>k. k < unat sz \<Longrightarrow> x \<noteq> dst + of_nat k) \<Longrightarrow> memcpy m dst src sz x = m x"
proof -
  have le: "unat sz \<le> 2 ^ 64" using assms by simp
  have up: "dst + of_nat j \<noteq> src + of_nat k" if "j < k" "k < unat sz" for j k
    using that assms by (subst offset_eq_iff [of dst "unat sz"]) (auto simp: word_le_nat_alt)
  show "k < unat sz \<Longrightarrow> memcpy m dst src sz (dst + of_nat k) = m (src + of_nat k)"
    unfolding memcpy_def using le up by (auto intro: memcpy_loop_spec(1))
  show "memcpy m dst src sz x = m x" if out: "\<And>k. k < unat sz \<Longrightarrow> x \<noteq> dst + of_nat k"
    unfolding memcpy_def using le up out by (simp add: memcpy_loop_spec(2))
qed

text \<open>The comparison of two equally long byte strings that \<^const>\<open>memcmp\<close> computes.\<close>

fun cmp_bytes :: "u8 list \<Rightarrow> u8 list \<Rightarrow> int" where
  "cmp_bytes (x # xs) (y # ys) = (if x < y then -1 else if x > y then 1 else cmp_bytes xs ys)"
| "cmp_bytes _ _ = 0"

definition bytes_at :: "mem \<Rightarrow> u64 \<Rightarrow> nat \<Rightarrow> nat \<Rightarrow> u8 list" where
  "bytes_at m p i j = map (\<lambda>k. m (p + of_nat k)) [i..<j]"

lemma bytes_at_Cons: "i < j \<Longrightarrow> bytes_at m p i j = m (p + of_nat i) # bytes_at m p (Suc i) j"
  by (simp add: bytes_at_def upt_conv_Cons)

lemma bytes_at_empty: "\<not> i < j \<Longrightarrow> bytes_at m p i j = []"
  by (simp add: bytes_at_def)

lemma memcmp_loop_cmp_bytes:
  "sz < 2 ^ 31 \<Longrightarrow> memcmp_loop m a b sz i = Inr (cmp_bytes (bytes_at m a i sz) (bytes_at m b i sz))"
proof (induction m a b sz i rule: memcmp_loop.induct)
  case (1 m a b sz i)
  show ?case
  proof (cases "i < sz")
    case True
    with 1 show ?thesis
      by (auto simp: memcmp_loop.simps [of m a b sz i] bytes_at_Cons Let_def)
  qed (simp add: memcmp_loop.simps [of m a b sz i] bytes_at_empty)
qed

lemma cmp_bytes_refl [simp]: "cmp_bytes xs xs = 0"
  by (induction xs) auto

lemma cmp_bytes_eq_0: "length xs = length ys \<Longrightarrow> cmp_bytes xs ys = 0 \<longleftrightarrow> xs = ys"
  by (induction xs ys rule: list_induct2) auto

lemma cmp_bytes_anti: "length xs = length ys \<Longrightarrow> cmp_bytes ys xs = - cmp_bytes xs ys"
  by (induction xs ys rule: list_induct2) auto

lemma cmp_bytes_trans:
  "length xs = length ys \<Longrightarrow> length ys = length zs \<Longrightarrow>
   cmp_bytes xs ys < 0 \<Longrightarrow> cmp_bytes ys zs < 0 \<Longrightarrow> cmp_bytes xs zs < 0"
  by (induction xs ys zs rule: list_induct3) (auto split: if_splits)

lemma strlen_loop_finds:
  "m (s + of_nat n) = 0 \<Longrightarrow> (\<And>k. i \<le> k \<Longrightarrow> k < n \<Longrightarrow> m (s + of_nat k) \<noteq> 0) \<Longrightarrow> i \<le> n \<Longrightarrow>
   strlen_loop m s i = Some n"
proof (induction "n - i" arbitrary: i)
  case 0
  then show ?case by (simp add: strlen_loop.simps)
next
  case (Suc d)
  then have "m (s + of_nat i) \<noteq> 0" by simp
  moreover have "strlen_loop m s (Suc i) = Some n" using Suc by (intro Suc.hyps(1)) auto
  ultimately show ?case by (simp add: strlen_loop.simps [of m s i])
qed

section \<open>Properties\<close>

text \<open>\<^verbatim>\<open>log2\<close> is the floor of the binary logarithm of every nonzero argument and 0 at 0, and
  \<^verbatim>\<open>log2_ceil\<close> is the least exponent whose power of two reaches the argument.\<close>

theorem log2_correct:
  "log2 0 = 0 \<and>
   (0 < n \<longrightarrow> 2 ^ unat (log2 n) \<le> unat n \<and> unat n < 2 ^ Suc (unat (log2 n)) \<and>
     unat n \<le> 2 ^ unat (log2_ceil n) \<and> (\<forall>k. unat n \<le> 2 ^ k \<longrightarrow> unat (log2_ceil n) \<le> k))"
proof (intro conjI impI)
  show "log2 0 = 0" by (rule word_unat_eq_iff [THEN iffD2]) (simp add: unat_log2 nlog.simps)
  assume "0 < n"
  then have pos: "0 < unat n" by (simp add: unat_gt_0 word_gt_0)
  show b1: "2 ^ unat (log2 n) \<le> unat n" and b2: "unat n < 2 ^ Suc (unat (log2 n))"
    using nlog_bounds [OF pos] by (simp_all add: unat_log2)
  show "unat n \<le> 2 ^ unat (log2_ceil n)"
    using nlog_bounds [OF pos] by (auto simp: unat_log2_ceil [OF pos])
  show "\<forall>k. unat n \<le> 2 ^ k \<longrightarrow> unat (log2_ceil n) \<le> k" using log2_ceil_least [OF pos] by blast
qed

theorem log2_correct_witness:
  "2 ^ unat (log2 70000) \<le> unat (70000 :: u64) \<and> unat (70000 :: u64) \<le> 2 ^ unat (log2_ceil 70000)"
  using log2_correct [of 70000] by simp

text \<open>\<^verbatim>\<open>memmove\<close> moves the source range as it was before the call, however the two ranges
  overlap, and changes nothing outside the destination range.\<close>

theorem memmove_correct:
  assumes "unat src + unat sz \<le> 2 ^ 64" and "unat dest + unat sz \<le> 2 ^ 64"
  shows "memmove m dest src sz x =
    (if \<exists>k < unat sz. x = dest + of_nat k then m (src + (x - dest)) else m x)"
  using memmove_copies [OF assms] by auto

theorem memmove_correct_witness:
  "map (memmove (\<lambda>x. ucast x) 2 1 3) [0, 1, 2, 3, 4, 5] = [0, 1, 1, 2, 3, 5]"
proof -
  have le: "unat (1 :: u64) + unat (3 :: u64) \<le> 2 ^ 64" "unat (2 :: u64) + unat (3 :: u64) \<le> 2 ^ 64"
    by simp_all
  have three: "(\<exists>k < 3. P k) \<longleftrightarrow> P 0 \<or> P 1 \<or> P (2 :: nat)" for P
    by (auto simp: less_Suc_eq numeral_3_eq_3 numeral_2_eq_2)
  show ?thesis by (simp add: memmove_correct [OF le] three)
qed

text \<open>The loop of \<^verbatim>\<open>strcmp\<close> runs only while one of the strings has ended, so any two
  nonempty strings compare equal.\<close>

theorem strcmp_nonempty_equal:
  assumes "m a \<noteq> 0" and "m b \<noteq> 0"
  shows "strcmp m a b = Inr 0"
  using assms by (simp add: strcmp_def strcmp_loop.simps)

theorem strcmp_nonempty_equal_witness:
  "strcmp (\<lambda>x. if x = 0 then 97 else if x = 2 then 98 else 0) 0 2 = Inr 0"
  by (rule strcmp_nonempty_equal) simp_all

end
