(* ===== verification/Small_Vec.thy ===== *)
theory Small_Vec
  imports Prelude
begin

text \<open>
  \<^verbatim>\<open>include/common/small_vec.hpp\<close>: a vector in a fixed array of \<open>N\<close> slots.  The raw
  array is a total map from slot numbers to values; touching a slot at or beyond \<open>N\<close>
  leaves the object and is undefined.  The code never compares the size with \<open>N\<close>.
\<close>

section \<open>Operations\<close>

record 'a SmallVec =
  vec_buf :: "nat \<Rightarrow> 'a"
  vec_size :: nat
  slots_N :: nat

definition sv_new :: "nat \<Rightarrow> (nat \<Rightarrow> 'a) \<Rightarrow> 'a SmallVec" where
  "sv_new n raw = \<lparr>vec_buf = raw, vec_size = 0, slots_N = n\<rparr>"

definition sv_size :: "'a SmallVec \<Rightarrow> nat" where
  "sv_size v = vec_size v"

definition sv_empty :: "'a SmallVec \<Rightarrow> bool" where
  "sv_empty v = (sv_size v = 0)"

definition get_buf :: "'a SmallVec \<Rightarrow> nat \<Rightarrow> 'a res" where
  "get_buf v offset = bindR (guardR (offset < slots_N v) ''SmallVec slot'') (\<lambda>_. Inr (vec_buf v offset))"

definition put_buf :: "'a SmallVec \<Rightarrow> nat \<Rightarrow> 'a \<Rightarrow> 'a SmallVec res" where
  "put_buf v offset x =
     bindR (guardR (offset < slots_N v) ''SmallVec slot'')
       (\<lambda>_. Inr (v\<lparr>vec_buf := (vec_buf v)(offset := x)\<rparr>))"

text \<open>Growing constructs the new slots but leaves \<^verbatim>\<open>size_\<close> as it was.\<close>

function construct_slots :: "'a \<Rightarrow> 'a SmallVec \<Rightarrow> nat \<Rightarrow> nat \<Rightarrow> 'a SmallVec res" where
  "construct_slots dflt v new_size i =
     (if i < new_size
      then bindR (put_buf v i dflt) (\<lambda>v'. construct_slots dflt v' new_size (Suc i))
      else Inr v)"
  by pat_completeness auto
termination
  by (relation "measure (\<lambda>(dflt, v, new_size, i). new_size - i)") auto

declare construct_slots.simps [simp del]

definition sv_resize :: "'a \<Rightarrow> 'a SmallVec \<Rightarrow> nat \<Rightarrow> 'a SmallVec res" where
  "sv_resize dflt v new_size =
     (if new_size < vec_size v then Inr (v\<lparr>vec_size := new_size\<rparr>)
      else if new_size > vec_size v then construct_slots dflt v new_size (vec_size v)
      else Inr v)"

definition sv_emplace_back :: "'a SmallVec \<Rightarrow> 'a \<Rightarrow> 'a SmallVec res" where
  "sv_emplace_back v x =
     bindR (put_buf v (vec_size v) x) (\<lambda>v'. Inr (v'\<lparr>vec_size := vec_size v' + 1\<rparr>))"

definition sv_pop_back :: "'a SmallVec \<Rightarrow> 'a SmallVec res" where
  "sv_pop_back v =
     bindR (assertR (vec_size v \<noteq> 0) ''cannot pop empty vec'')
       (\<lambda>_. let v' = v\<lparr>vec_size := vec_size v - 1\<rparr> in bindR (get_buf v' (vec_size v')) (\<lambda>_. Inr v'))"

definition sv_push_back :: "'a SmallVec \<Rightarrow> 'a \<Rightarrow> 'a SmallVec res" where
  "sv_push_back v obj =
     bindR (put_buf v (vec_size v) obj) (\<lambda>v'. Inr (v'\<lparr>vec_size := vec_size v' + 1\<rparr>))"

definition sv_back :: "'a SmallVec \<Rightarrow> 'a res" where
  "sv_back v =
     bindR (assertR (vec_size v \<noteq> 0) ''SmallVec is empty'') (\<lambda>_. get_buf v (vec_size v - 1))"

text \<open>
  The two subscript operators: the one for a mutable vector passes \<^verbatim>\<open>size_\<close> where the
  other passes the subscript.
\<close>

definition sv_index :: "'a SmallVec \<Rightarrow> nat \<Rightarrow> 'a res" where
  "sv_index v offset = get_buf v (vec_size v)"

definition sv_index_const :: "'a SmallVec \<Rightarrow> nat \<Rightarrow> 'a res" where
  "sv_index_const v offset = get_buf v offset"

text \<open>What a range-for from \<^verbatim>\<open>begin()\<close> to \<^verbatim>\<open>end()\<close> visits.\<close>

definition sv_list :: "'a SmallVec \<Rightarrow> 'a list" where
  "sv_list v = map (vec_buf v) [0..<vec_size v]"

definition sv_ok :: "'a SmallVec \<Rightarrow> bool" where
  "sv_ok v \<longleftrightarrow> vec_size v \<le> slots_N v"

section \<open>Behaviour\<close>

lemmas sv_defs = get_buf_def put_buf_def sv_emplace_back_def sv_push_back_def sv_pop_back_def
  sv_back_def sv_index_def sv_index_const_def

lemma sv_list_new [simp]: "sv_list (sv_new n raw) = []"
  by (simp add: sv_list_def sv_new_def)

lemma length_sv_list [simp]: "length (sv_list v) = vec_size v"
  by (simp add: sv_list_def)

lemma nth_sv_list [simp]: "i < vec_size v \<Longrightarrow> sv_list v ! i = vec_buf v i"
  by (simp add: sv_list_def)

lemma sv_list_snoc:
  "sv_list (v\<lparr>vec_buf := (vec_buf v)(vec_size v := x), vec_size := Suc (vec_size v)\<rparr>) = sv_list v @ [x]"
  by (simp add: sv_list_def)

lemma sv_emplace_back_ok:
  "vec_size v < slots_N v \<Longrightarrow>
   \<exists>v'. sv_emplace_back v x = Inr v' \<and> sv_list v' = sv_list v @ [x] \<and> slots_N v' = slots_N v"
  by (simp add: sv_defs sv_list_def)

lemma sv_emplace_back_full:
  "slots_N v \<le> vec_size v \<Longrightarrow> sv_emplace_back v x = Inl (Undefined ''SmallVec slot'')"
  by (simp add: sv_defs)

lemma sv_push_eq_emplace: "sv_push_back v x = sv_emplace_back v x"
  by (simp add: sv_defs)

lemma sv_pop_back_ok:
  "sv_ok v \<Longrightarrow> vec_size v \<noteq> 0 \<Longrightarrow>
   \<exists>v'. sv_pop_back v = Inr v' \<and> sv_list v' = butlast (sv_list v) \<and> slots_N v' = slots_N v"
  by (cases "vec_size v") (auto simp: sv_defs sv_ok_def Let_def sv_list_def)

lemma sv_back_ok: "sv_ok v \<Longrightarrow> vec_size v \<noteq> 0 \<Longrightarrow> sv_back v = Inr (last (sv_list v))"
  by (cases "vec_size v") (auto simp: sv_defs sv_ok_def sv_list_def)

lemma sv_index_const_ok: "sv_ok v \<Longrightarrow> i < vec_size v \<Longrightarrow> sv_index_const v i = Inr (sv_list v ! i)"
  by (simp add: sv_defs sv_ok_def)

lemma construct_slots_size:
  "construct_slots dflt v n i = Inr v' \<Longrightarrow> vec_size v' = vec_size v \<and> slots_N v' = slots_N v \<and>
     (\<forall>k < i. vec_buf v' k = vec_buf v k)"
proof (induction dflt v n i rule: construct_slots.induct)
  case (1 dflt v n i)
  show ?case
  proof (cases "i < n")
    case True
    with "1.prems" obtain v1 where v1: "put_buf v i dflt = Inr v1"
      and rest: "construct_slots dflt v1 n (Suc i) = Inr v'"
      by (auto simp: construct_slots.simps [of dflt v n i] bindR_eq_Inr)
    have "vec_size v' = vec_size v1 \<and> slots_N v' = slots_N v1 \<and> (\<forall>k < Suc i. vec_buf v' k = vec_buf v1 k)"
      using "1.IH" [OF True v1 rest] .
    with v1 show ?thesis by (auto simp: put_buf_def outcome)
  next
    case False
    with "1.prems" show ?thesis by (simp add: construct_slots.simps [of dflt v n i])
  qed
qed

section \<open>The interface its clients use\<close>

text \<open>A sequence that grows at the end and has a fixed capacity it does not defend.\<close>

locale growable =
  fixes push :: "'v \<Rightarrow> 'a \<Rightarrow> 'v res"
    and items :: "'v \<Rightarrow> 'a list"
    and room :: "'v \<Rightarrow> nat"
  assumes push_room:
      "length (items v) < room v \<Longrightarrow>
       \<exists>v'. push v x = Inr v' \<and> items v' = items v @ [x] \<and> room v' = room v"
    and push_full: "room v \<le> length (items v) \<Longrightarrow> \<exists>msg. push v x = Inl (Undefined msg)"
begin

primrec push_all :: "'v \<Rightarrow> 'a list \<Rightarrow> 'v res" where
  "push_all v [] = Inr v"
| "push_all v (x # xs) = bindR (push v x) (\<lambda>v'. push_all v' xs)"

lemma push_all_room:
  "length (items v) + length xs \<le> room v \<Longrightarrow>
   \<exists>v'. push_all v xs = Inr v' \<and> items v' = items v @ xs \<and> room v' = room v"
proof (induction xs arbitrary: v)
  case Nil
  then show ?case by simp
next
  case (Cons x xs)
  then obtain v1 where v1: "push v x = Inr v1" "items v1 = items v @ [x]" "room v1 = room v"
    using push_room [of v x] by auto
  with Cons.prems have "length (items v1) + length xs \<le> room v1" by simp
  from Cons.IH [OF this] v1 show ?case by auto
qed

lemma push_all_overflow:
  "length (items v) \<le> room v \<Longrightarrow> room v < length (items v) + length xs \<Longrightarrow>
   \<exists>msg. push_all v xs = Inl (Undefined msg)"
proof (induction xs arbitrary: v)
  case Nil
  then show ?case by simp
next
  case (Cons x xs)
  show ?case
  proof (cases "length (items v) < room v")
    case True
    then obtain v1 where v1: "push v x = Inr v1" "items v1 = items v @ [x]" "room v1 = room v"
      using push_room [of v x] by auto
    with Cons.prems True have "\<exists>msg. push_all v1 xs = Inl (Undefined msg)" by (intro Cons.IH) auto
    with v1 show ?thesis by auto
  next
    case False
    with push_full [of v x] show ?thesis by auto
  qed
qed

end

interpretation sv: growable sv_emplace_back sv_list slots_N
  by unfold_locales (auto simp: sv_emplace_back_ok sv_emplace_back_full)

section \<open>Properties\<close>

text \<open>On a vector within its capacity the operations are those of a list: appending at the
  end while a slot is free, dropping and reading the last element, and reading by the
  const subscript.\<close>

theorem smallvec_refines_list:
  assumes "sv_ok v"
  shows "(vec_size v < slots_N v \<longrightarrow>
      (\<exists>v'. sv_push_back v x = Inr v' \<and> sv_ok v' \<and> sv_list v' = sv_list v @ [x]))
    \<and> (vec_size v \<noteq> 0 \<longrightarrow>
      (\<exists>v'. sv_pop_back v = Inr v' \<and> sv_ok v' \<and> sv_list v' = butlast (sv_list v)) \<and>
      sv_back v = Inr (last (sv_list v)))
    \<and> (vec_size v = 0 \<longrightarrow> sv_pop_back v = Inl (Panic ''cannot pop empty vec'') \<and>
      sv_back v = Inl (Panic ''SmallVec is empty''))
    \<and> (i < vec_size v \<longrightarrow> sv_index_const v i = Inr (sv_list v ! i))"
proof (intro conjI impI)
  assume "vec_size v < slots_N v"
  then show "\<exists>v'. sv_push_back v x = Inr v' \<and> sv_ok v' \<and> sv_list v' = sv_list v @ [x]"
    by (simp add: sv_defs sv_ok_def sv_list_def)
next
  assume "vec_size v \<noteq> 0"
  with assms show "\<exists>v'. sv_pop_back v = Inr v' \<and> sv_ok v' \<and> sv_list v' = butlast (sv_list v)"
    by (cases "vec_size v") (auto simp: sv_defs sv_ok_def Let_def sv_list_def)
  show "sv_back v = Inr (last (sv_list v))" using assms \<open>vec_size v \<noteq> 0\<close> by (rule sv_back_ok)
qed (use assms in \<open>auto simp: sv_defs sv_ok_def\<close>)

theorem smallvec_refines_list_witness:
  "\<exists>v'. sv_push_back (sv_new 4 (\<lambda>_. 0 :: nat)) 7 = Inr v' \<and> sv_ok v' \<and> sv_list v' = [7]"
  using smallvec_refines_list [of "sv_new 4 (\<lambda>_. 0 :: nat)" 7]
  by (simp add: sv_ok_def sv_new_def sv_list_def)

end
