(* ===== verification/Ss_Queue.thy ===== *)
theory Ss_Queue
  imports Prelude "HOL-Library.Multiset"
begin

text \<open>
  \<^verbatim>\<open>include/common/kssq.hpp\<close>: the single-producer single-consumer ring of packet
  pointers between an interrupt handler and a kernel thread.  The first part is the
  queue as its two operations run alone; the second part runs a producer and a
  consumer against each other, one memory access at a time.
\<close>

section \<open>The two operations\<close>

record 'p SSQueue =
  rx_queue :: "'p list"
  rx_start :: nat
  rx_end :: nat

definition ssq_new :: "'p list \<Rightarrow> 'p SSQueue" where
  "ssq_new vec = \<lparr>rx_queue = vec, rx_start = 0, rx_end = 0\<rparr>"

text \<open>
  Both operations take the packet pointer by reference and swap it with a slot; the
  model returns the success flag, the pointer afterwards and the queue.
\<close>

definition deq :: "'p SSQueue \<Rightarrow> 'p \<Rightarrow> (bool \<times> 'p \<times> 'p SSQueue) res" where
  "deq q packet =
     (if rx_start q = rx_end q then Inr (False, packet, q)
      else bindR (guardR (rx_start q < length (rx_queue q)) ''vector subscript'') (\<lambda>_.
        let packet' = rx_queue q ! rx_start q;
            q1 = q\<lparr>rx_queue := (rx_queue q)[rx_start q := packet]\<rparr>
        in Inr (True, packet', q1\<lparr>rx_start := (rx_start q1 + 1) mod length (rx_queue q1)\<rparr>)))"

definition enq :: "'p SSQueue \<Rightarrow> 'p \<Rightarrow> (bool \<times> 'p \<times> 'p SSQueue) res" where
  "enq q packet =
     bindR (guardR (length (rx_queue q) \<noteq> 0) ''modulo zero'') (\<lambda>_.
       let nxt = (rx_end q + 1) mod length (rx_queue q) in
       if nxt = rx_start q then Inr (False, packet, q)
       else bindR (guardR (rx_end q < length (rx_queue q)) ''vector subscript'') (\<lambda>_.
         let packet' = rx_queue q ! rx_end q;
             q1 = q\<lparr>rx_queue := (rx_queue q)[rx_end q := packet]\<rparr>
         in Inr (True, packet', q1\<lparr>rx_end := nxt\<rparr>)))"

section \<open>The queue it represents\<close>

definition ssq_ok :: "'p SSQueue \<Rightarrow> bool" where
  "ssq_ok q \<longleftrightarrow> rx_start q < length (rx_queue q) \<and> rx_end q < length (rx_queue q)"

definition ssq_count :: "'p SSQueue \<Rightarrow> nat" where
  "ssq_count q = (rx_end q + length (rx_queue q) - rx_start q) mod length (rx_queue q)"

definition ssq_items :: "'p SSQueue \<Rightarrow> 'p list" where
  "ssq_items q =
     map (\<lambda>k. rx_queue q ! ((rx_start q + k) mod length (rx_queue q))) [0..<ssq_count q]"

lemma length_ssq_items [simp]: "length (ssq_items q) = ssq_count q"
  by (simp add: ssq_items_def)

lemma mod_add_lt:
  assumes "a < n" "b < (n :: nat)"
  shows "(a + b) mod n = (if a + b < n then a + b else a + b - n)"
proof (cases "a + b < n")
  case False
  then have "(a + b) mod n = (a + b - n) mod n" by (simp add: le_mod_geq)
  with False assms show ?thesis by simp
qed simp

lemma suc_mod: "a < n \<Longrightarrow> (a + 1) mod n = (if Suc a = n then 0 else Suc a)"
  by auto

lemma ssq_count_eq:
  "ssq_ok q \<Longrightarrow> ssq_count q =
     (if rx_start q \<le> rx_end q then rx_end q - rx_start q
      else rx_end q + length (rx_queue q) - rx_start q)"
proof -
  assume ok: "ssq_ok q"
  show ?thesis
  proof (cases "rx_start q \<le> rx_end q")
    case True
    then have "rx_end q + length (rx_queue q) - rx_start q = (rx_end q - rx_start q) + length (rx_queue q)"
      by simp
    then have "ssq_count q = (rx_end q - rx_start q) mod length (rx_queue q)"
      unfolding ssq_count_def by (metis mod_add_self2)
    with True ok show ?thesis by (simp add: ssq_ok_def less_imp_diff_less)
  next
    case False
    with ok have "rx_end q + length (rx_queue q) - rx_start q < length (rx_queue q)"
      by (auto simp: ssq_ok_def)
    with False show ?thesis by (simp add: ssq_count_def)
  qed
qed

lemma ssq_count_less: "ssq_ok q \<Longrightarrow> ssq_count q < length (rx_queue q)"
  by (auto simp: ssq_ok_def ssq_count_eq)

text \<open>The slots at distinct distances from the start differ.\<close>

lemma slot_inject:
  assumes "s < n" "j < n" "k < n"
  shows "(s + j) mod n = (s + k) mod n \<longleftrightarrow> j = (k :: nat)"
  using assms by (auto simp: mod_add_lt split: if_splits)

lemma ssq_end_slot: "ssq_ok q \<Longrightarrow> (rx_start q + ssq_count q) mod length (rx_queue q) = rx_end q"
  using ssq_count_less [of q] mod_add_lt [of "rx_start q" "length (rx_queue q)" "ssq_count q"]
  by (auto simp: ssq_ok_def ssq_count_eq split: if_splits)

lemma ssq_empty_iff: "ssq_ok q \<Longrightarrow> rx_start q = rx_end q \<longleftrightarrow> ssq_count q = 0"
  by (auto simp: ssq_ok_def ssq_count_eq)

lemma ssq_full_iff:
  "ssq_ok q \<Longrightarrow> (rx_end q + 1) mod length (rx_queue q) = rx_start q \<longleftrightarrow>
     Suc (ssq_count q) = length (rx_queue q)"
  using suc_mod [of "rx_end q" "length (rx_queue q)"]
  by (auto simp: ssq_ok_def ssq_count_eq split: if_splits)

lemma ssq_items_nth:
  "k < ssq_count q \<Longrightarrow> ssq_items q ! k = rx_queue q ! ((rx_start q + k) mod length (rx_queue q))"
  by (simp add: ssq_items_def)

text \<open>Writing the slot behind the last item and advancing the end appends.\<close>

lemma ssq_items_append:
  fixes p :: 'p
  assumes ok: "ssq_ok q" and room: "Suc (ssq_count q) < length (rx_queue q)"
  defines "q' \<equiv> q\<lparr>rx_queue := (rx_queue q)[rx_end q := p],
                   rx_end := (rx_end q + 1) mod length (rx_queue q)\<rparr>"
  shows "ssq_items q' = ssq_items q @ [p]" and "ssq_ok q'"
proof -
  let ?n = "length (rx_queue q)"
  have n: "0 < ?n" using ok by (auto simp: ssq_ok_def)
  show ok': "ssq_ok q'" using ok n by (simp add: ssq_ok_def q'_def)
  have cnt: "ssq_count q' = Suc (ssq_count q)"
    using ok ok' room suc_mod [of "rx_end q" ?n]
    by (auto simp: ssq_count_eq ssq_ok_def q'_def split: if_splits)
  have "rx_queue q' ! ((rx_start q + k) mod ?n) = (ssq_items q @ [p]) ! k" if k: "k \<le> ssq_count q" for k
  proof (cases "k = ssq_count q")
    case True
    then show ?thesis using ok by (simp add: ssq_end_slot q'_def ssq_ok_def nth_append)
  next
    case False
    with k ok room have "(rx_start q + k) mod ?n \<noteq> (rx_start q + ssq_count q) mod ?n"
      by (subst slot_inject) (auto simp: ssq_ok_def)
    with False k ok show ?thesis by (simp add: ssq_end_slot q'_def nth_append ssq_items_nth)
  qed
  moreover have "length (rx_queue q') = ?n" "rx_start q' = rx_start q" by (simp_all add: q'_def)
  ultimately show "ssq_items q' = ssq_items q @ [p]"
    by (intro nth_equalityI) (simp_all add: cnt ssq_items_nth)
qed

text \<open>Writing the first slot and advancing the start drops the first item.\<close>

lemma ssq_items_drop:
  fixes p :: 'p
  assumes ok: "ssq_ok q" and ne: "0 < ssq_count q"
  defines "q' \<equiv> q\<lparr>rx_queue := (rx_queue q)[rx_start q := p],
                   rx_start := (rx_start q + 1) mod length (rx_queue q)\<rparr>"
  shows "ssq_items q = rx_queue q ! rx_start q # ssq_items q'" and "ssq_ok q'"
proof -
  let ?n = "length (rx_queue q)"
  have n: "0 < ?n" using ok by (auto simp: ssq_ok_def)
  show ok': "ssq_ok q'" using ok n by (simp add: ssq_ok_def q'_def)
  have cnt: "ssq_count q = Suc (ssq_count q')"
    using ok ok' ne suc_mod [of "rx_start q" ?n]
    by (auto simp: ssq_count_eq ssq_ok_def q'_def split: if_splits)
  have "ssq_items q ! k = (rx_queue q ! rx_start q # ssq_items q') ! k" if k: "k < ssq_count q" for k
  proof (cases k)
    case 0
    then show ?thesis using ok ne by (simp add: ssq_items_nth ssq_ok_def)
  next
    case (Suc j)
    have lt: "ssq_count q < ?n" using ok by (rule ssq_count_less)
    have "(rx_start q + Suc j) mod ?n \<noteq> (rx_start q + 0) mod ?n"
      using ok k Suc lt by (subst slot_inject) (auto simp: ssq_ok_def)
    moreover have "((rx_start q + 1) mod ?n + j) mod ?n = (rx_start q + Suc j) mod ?n"
      by (simp add: mod_simps)
    moreover have "rx_start q mod ?n = rx_start q" using ok by (simp add: ssq_ok_def)
    ultimately show ?thesis using Suc k cnt by (simp add: ssq_items_nth q'_def)
  qed
  then show "ssq_items q = rx_queue q ! rx_start q # ssq_items q'"
    by (intro nth_equalityI) (simp_all add: cnt)
qed

lemma mset_swap: "i < length xs \<Longrightarrow> add_mset (xs ! i) (mset (xs[i := p])) = add_mset p (mset xs)"
  by (simp add: mset_update)

section \<open>The interface its clients use\<close>

text \<open>
  A bounded first-in first-out queue that exchanges pointers: every operation gives one
  pointer and gets one back, so none is lost or duplicated.
\<close>

locale bounded_fifo =
  fixes put :: "'q \<Rightarrow> 'p \<Rightarrow> (bool \<times> 'p \<times> 'q) res"
    and get :: "'q \<Rightarrow> 'p \<Rightarrow> (bool \<times> 'p \<times> 'q) res"
    and items :: "'q \<Rightarrow> 'p list"
    and pool :: "'q \<Rightarrow> 'p multiset"
    and room :: "'q \<Rightarrow> nat"
    and ok :: "'q \<Rightarrow> bool"
  assumes put_room: "ok q \<Longrightarrow> length (items q) < room q \<Longrightarrow>
      \<exists>p' q'. put q p = Inr (True, p', q') \<and> ok q' \<and> room q' = room q \<and>
        items q' = items q @ [p] \<and> add_mset p' (pool q') = add_mset p (pool q)"
    and put_full: "ok q \<Longrightarrow> \<not> length (items q) < room q \<Longrightarrow> put q p = Inr (False, p, q)"
    and get_some: "ok q \<Longrightarrow> items q \<noteq> [] \<Longrightarrow>
      \<exists>q'. get q p = Inr (True, hd (items q), q') \<and> ok q' \<and> room q' = room q \<and>
        items q' = tl (items q) \<and> add_mset (hd (items q)) (pool q') = add_mset p (pool q)"
    and get_none: "ok q \<Longrightarrow> items q = [] \<Longrightarrow> get q p = Inr (False, p, q)"
begin

lemma put_keeps: "ok q \<Longrightarrow> put q p = Inr (b, p', q') \<Longrightarrow> ok q'"
  using put_room [of q p] put_full [of q p] by (cases "length (items q) < room q") auto

lemma get_keeps: "ok q \<Longrightarrow> get q p = Inr (b, p', q') \<Longrightarrow> ok q'"
  using get_some [of q p] get_none [of q p] by (cases "items q = []") auto

text \<open>Any sequence of operations: the producer's and the consumer's pointers, what was
  accepted and what was handed out.\<close>

fun run :: "bool list \<Rightarrow> 'q \<Rightarrow> 'p \<Rightarrow> 'p \<Rightarrow> ('p list \<times> 'p list \<times> 'q \<times> 'p \<times> 'p) res" where
  "run [] q pp cp = Inr ([], [], q, pp, cp)"
| "run (True # ops) q pp cp =
     bindR (put q pp) (\<lambda>(b, pp', q'). bindR (run ops q' pp' cp) (\<lambda>(sent, got, r).
       Inr (if b then pp # sent else sent, got, r)))"
| "run (False # ops) q pp cp =
     bindR (get q cp) (\<lambda>(b, cp', q'). bindR (run ops q' pp cp') (\<lambda>(sent, got, r).
       Inr (sent, if b then cp' # got else got, r)))"

lemma run_fifo:
  "ok q \<Longrightarrow> \<exists>sent got q' pp' cp'. run ops q pp cp = Inr (sent, got, q', pp', cp') \<and> ok q' \<and>
     items q @ sent = got @ items q' \<and>
     add_mset pp' (add_mset cp' (pool q')) = add_mset pp (add_mset cp (pool q))"
proof (induction ops arbitrary: q pp cp)
  case Nil
  then show ?case by simp
next
  case (Cons op ops)
  show ?case
  proof (cases op)
    case True
    show ?thesis
    proof (cases "length (items q) < room q")
      case room: True
      with put_room [OF Cons.prems room, of pp] obtain p1 q1 where q1: "put q pp = Inr (True, p1, q1)"
        "ok q1" "items q1 = items q @ [pp]" "add_mset p1 (pool q1) = add_mset pp (pool q)" by auto
      from Cons.IH [OF q1(2), of p1 cp] obtain sent got q' pp' cp' where
        "run ops q1 p1 cp = Inr (sent, got, q', pp', cp')" "ok q'" "items q1 @ sent = got @ items q'"
        "add_mset pp' (add_mset cp' (pool q')) = add_mset p1 (add_mset cp (pool q1))" by auto
      with True q1 show ?thesis by (auto simp: add_mset_commute)
    next
      case False
      with put_full Cons.prems have "put q pp = Inr (False, pp, q)" by simp
      with True Cons.IH [OF Cons.prems, of pp cp] show ?thesis by auto
    qed
  next
    case False
    show ?thesis
    proof (cases "items q = []")
      case empty: True
      with get_none Cons.prems have "get q cp = Inr (False, cp, q)" by simp
      with False empty Cons.IH [OF Cons.prems, of pp cp] show ?thesis by auto
    next
      case ne: False
      with get_some [OF Cons.prems ne, of cp] obtain q1 where q1: "get q cp = Inr (True, hd (items q), q1)"
        "ok q1" "items q1 = tl (items q)" "add_mset (hd (items q)) (pool q1) = add_mset cp (pool q)" by auto
      from Cons.IH [OF q1(2), of pp "hd (items q)"] obtain sent got q' pp' cp' where r:
        "run ops q1 pp (hd (items q)) = Inr (sent, got, q', pp', cp')" "ok q'"
        "items q1 @ sent = got @ items q'"
        "add_mset pp' (add_mset cp' (pool q')) = add_mset pp (add_mset (hd (items q)) (pool q1))" by auto
      have "items q @ sent = (hd (items q) # got) @ items q'"
        using r(3) q1(3) ne by (metis append_Cons list.collapse)
      with False q1 r show ?thesis by simp
    qed
  qed
qed

end

definition ssq_pool :: "'p SSQueue \<Rightarrow> 'p multiset" where
  "ssq_pool q = mset (rx_queue q)"

definition ssq_room :: "'p SSQueue \<Rightarrow> nat" where
  "ssq_room q = length (rx_queue q) - 1"

lemma enq_room:
  assumes ok: "ssq_ok q" and room: "Suc (ssq_count q) < length (rx_queue q)"
  shows "enq q p = Inr (True, rx_queue q ! rx_end q,
    q\<lparr>rx_queue := (rx_queue q)[rx_end q := p], rx_end := (rx_end q + 1) mod length (rx_queue q)\<rparr>)"
proof -
  have "(rx_end q + 1) mod length (rx_queue q) \<noteq> rx_start q" using ssq_full_iff [OF ok] room by simp
  moreover have "length (rx_queue q) \<noteq> 0" "rx_end q < length (rx_queue q)"
    using ok by (auto simp: ssq_ok_def)
  ultimately show ?thesis by (simp add: enq_def Let_def)
qed

lemma enq_full:
  assumes ok: "ssq_ok q" and full: "\<not> Suc (ssq_count q) < length (rx_queue q)"
  shows "enq q p = Inr (False, p, q)"
proof -
  have "Suc (ssq_count q) = length (rx_queue q)" using full ssq_count_less [OF ok] by simp
  then have "(rx_end q + 1) mod length (rx_queue q) = rx_start q" using ssq_full_iff [OF ok] by simp
  moreover have "length (rx_queue q) \<noteq> 0" using ok by (auto simp: ssq_ok_def)
  ultimately show ?thesis by (simp add: enq_def Let_def)
qed

lemma deq_some:
  assumes ok: "ssq_ok q" and ne: "0 < ssq_count q"
  shows "deq q p = Inr (True, rx_queue q ! rx_start q,
    q\<lparr>rx_queue := (rx_queue q)[rx_start q := p], rx_start := (rx_start q + 1) mod length (rx_queue q)\<rparr>)"
  using assms ssq_empty_iff [OF ok] by (simp add: deq_def Let_def ssq_ok_def)

lemma deq_none: "ssq_ok q \<Longrightarrow> ssq_count q = 0 \<Longrightarrow> deq q p = Inr (False, p, q)"
  using ssq_empty_iff [of q] by (simp add: deq_def)

interpretation ssq: bounded_fifo enq deq ssq_items ssq_pool ssq_room ssq_ok
proof (unfold_locales, goal_cases)
  case (1 q p)
  then have room: "Suc (ssq_count q) < length (rx_queue q)" by (simp add: ssq_room_def)
  then show ?case
    using 1 enq_room [OF 1(1) room, of p] ssq_items_append [OF 1(1) room, of p]
    by (auto simp: ssq_pool_def ssq_room_def ssq_ok_def intro!: mset_swap)
next
  case (2 q p)
  then show ?case by (intro enq_full) (auto simp: ssq_room_def)
next
  case (3 q p)
  then have ne: "0 < ssq_count q" by (metis length_greater_0_conv length_ssq_items)
  then show ?case
    using 3 deq_some [OF 3(1) ne, of p] ssq_items_drop [OF 3(1) ne, of p]
    by (auto simp: ssq_pool_def ssq_room_def ssq_ok_def intro!: mset_swap)
next
  case (4 q p)
  then show ?case by (metis deq_none length_0_conv length_ssq_items)
qed

section \<open>Producer and consumer in parallel\<close>

text \<open>
  The owner of \<open>enq\<close> and the owner of \<open>deq\<close> interleave at the granularity of the accesses
  to the shared members: the read of the other side's index, the swap with a slot, the
  store of the own index.  \<open>store\<close> is what the packet pointers point to; each side may
  rewrite the packet it holds between two calls.  \<open>sent\<close> and \<open>got\<close> record the packet
  contents that entered and left the queue.
\<close>

datatype producer_pc = EnqIdle | EnqNext nat | EnqRoom nat | EnqSwapped nat

datatype consumer_pc = DeqIdle | DeqSome | DeqSwapped

record ('p, 'd) ssq_threads =
  queue :: "'p SSQueue"
  store :: "'p \<Rightarrow> 'd"
  prod_packet :: 'p
  cons_packet :: 'p
  prod_pc :: producer_pc
  cons_pc :: consumer_pc
  sent :: "'d list"
  got :: "'d list"

inductive ssq_step :: "('p, 'd) ssq_threads \<Rightarrow> ('p, 'd) ssq_threads \<Rightarrow> bool" where
  produce: "prod_pc s = EnqIdle \<Longrightarrow>
    ssq_step s (s\<lparr>store := (store s)(prod_packet s := d)\<rparr>)"
| enq_next: "prod_pc s = EnqIdle \<Longrightarrow> nxt = (rx_end (queue s) + 1) mod length (rx_queue (queue s)) \<Longrightarrow>
    ssq_step s (s\<lparr>prod_pc := EnqNext nxt\<rparr>)"
| enq_drop: "prod_pc s = EnqNext nxt \<Longrightarrow> nxt = rx_start (queue s) \<Longrightarrow>
    ssq_step s (s\<lparr>prod_pc := EnqIdle\<rparr>)"
| enq_check: "prod_pc s = EnqNext nxt \<Longrightarrow> nxt \<noteq> rx_start (queue s) \<Longrightarrow>
    ssq_step s (s\<lparr>prod_pc := EnqRoom nxt\<rparr>)"
| enq_swap: "prod_pc s = EnqRoom nxt \<Longrightarrow> q = queue s \<Longrightarrow>
    ssq_step s (s\<lparr>queue := q\<lparr>rx_queue := (rx_queue q)[rx_end q := prod_packet s]\<rparr>,
      prod_packet := rx_queue q ! rx_end q, prod_pc := EnqSwapped nxt\<rparr>)"
| enq_commit: "prod_pc s = EnqSwapped nxt \<Longrightarrow> q = queue s \<Longrightarrow>
    ssq_step s (s\<lparr>queue := q\<lparr>rx_end := nxt\<rparr>, prod_pc := EnqIdle,
      sent := sent s @ [store s (rx_queue q ! rx_end q)]\<rparr>)"
| consume: "cons_pc s = DeqIdle \<Longrightarrow>
    ssq_step s (s\<lparr>store := (store s)(cons_packet s := d)\<rparr>)"
| deq_check: "cons_pc s = DeqIdle \<Longrightarrow> rx_start (queue s) \<noteq> rx_end (queue s) \<Longrightarrow>
    ssq_step s (s\<lparr>cons_pc := DeqSome\<rparr>)"
| deq_swap: "cons_pc s = DeqSome \<Longrightarrow> q = queue s \<Longrightarrow>
    ssq_step s (s\<lparr>queue := q\<lparr>rx_queue := (rx_queue q)[rx_start q := cons_packet s]\<rparr>,
      cons_packet := rx_queue q ! rx_start q, cons_pc := DeqSwapped\<rparr>)"
| deq_commit: "cons_pc s = DeqSwapped \<Longrightarrow> q = queue s \<Longrightarrow>
    ssq_step s (s\<lparr>queue := q\<lparr>rx_start := (rx_start q + 1) mod length (rx_queue q)\<rparr>,
      cons_pc := DeqIdle, got := got s @ [store s (cons_packet s)]\<rparr>)"

definition ssq_init :: "'p list \<Rightarrow> 'p \<Rightarrow> 'p \<Rightarrow> ('p \<Rightarrow> 'd) \<Rightarrow> ('p, 'd) ssq_threads" where
  "ssq_init vec pp cp st =
     \<lparr>queue = ssq_new vec, store = st, prod_packet = pp, cons_packet = cp,
      prod_pc = EnqIdle, cons_pc = DeqIdle, sent = [], got = []\<rparr>"

inductive ssq_reachable :: "('p, 'd) ssq_threads \<Rightarrow> bool" where
  init: "vec \<noteq> [] \<Longrightarrow> distinct (pp # cp # vec) \<Longrightarrow> ssq_reachable (ssq_init vec pp cp st)"
| step: "ssq_reachable s \<Longrightarrow> ssq_step s t \<Longrightarrow> ssq_reachable t"

text \<open>The packets between the two sides; after the consumer's swap the first of them is
  already in its hands.\<close>

definition in_flight :: "('p, 'd) ssq_threads \<Rightarrow> 'p list" where
  "in_flight s = (if cons_pc s = DeqSwapped then cons_packet s # tl (ssq_items (queue s))
                  else ssq_items (queue s))"

definition threads_ok :: "('p, 'd) ssq_threads \<Rightarrow> bool" where
  "threads_ok s \<longleftrightarrow>
     ssq_ok (queue s) \<and> distinct (prod_packet s # cons_packet s # rx_queue (queue s)) \<and>
     (case prod_pc s of EnqIdle \<Rightarrow> True
      | EnqNext nxt \<Rightarrow> nxt = (rx_end (queue s) + 1) mod length (rx_queue (queue s))
      | EnqRoom nxt \<Rightarrow> nxt = (rx_end (queue s) + 1) mod length (rx_queue (queue s)) \<and>
          Suc (ssq_count (queue s)) < length (rx_queue (queue s))
      | EnqSwapped nxt \<Rightarrow> nxt = (rx_end (queue s) + 1) mod length (rx_queue (queue s)) \<and>
          Suc (ssq_count (queue s)) < length (rx_queue (queue s))) \<and>
     (cons_pc s \<noteq> DeqIdle \<longrightarrow> 0 < ssq_count (queue s)) \<and>
     sent s = got s @ map (store s) (in_flight s)"

lemma ssq_slots_write [simp]:
  "ssq_count (q\<lparr>rx_queue := (rx_queue q)[i := p]\<rparr>) = ssq_count q"
  "ssq_ok (q\<lparr>rx_queue := (rx_queue q)[i := p]\<rparr>) \<longleftrightarrow> ssq_ok q"
  by (simp_all add: ssq_count_def ssq_ok_def)

lemma ssq_items_write_end:
  assumes ok: "ssq_ok q"
  shows "ssq_items (q\<lparr>rx_queue := (rx_queue q)[rx_end q := p]\<rparr>) = ssq_items q"
proof (rule nth_equalityI)
  fix k assume "k < length (ssq_items (q\<lparr>rx_queue := (rx_queue q)[rx_end q := p]\<rparr>))"
  then have k: "k < ssq_count q" by simp
  have "(rx_start q + k) mod length (rx_queue q) \<noteq> (rx_start q + ssq_count q) mod length (rx_queue q)"
    using k ok ssq_count_less [OF ok] by (subst slot_inject) (auto simp: ssq_ok_def)
  with k ok show "ssq_items (q\<lparr>rx_queue := (rx_queue q)[rx_end q := p]\<rparr>) ! k = ssq_items q ! k"
    by (simp add: ssq_items_nth ssq_end_slot)
qed simp

lemma ssq_items_write_start:
  assumes ok: "ssq_ok q" and ne: "0 < ssq_count q"
  shows "ssq_items (q\<lparr>rx_queue := (rx_queue q)[rx_start q := p]\<rparr>) = p # tl (ssq_items q)"
proof (rule nth_equalityI)
  fix k assume "k < length (ssq_items (q\<lparr>rx_queue := (rx_queue q)[rx_start q := p]\<rparr>))"
  then have k: "k < ssq_count q" by simp
  have "k \<noteq> 0 \<Longrightarrow> (rx_start q + k) mod length (rx_queue q) \<noteq> (rx_start q + 0) mod length (rx_queue q)"
    using k ok ssq_count_less [OF ok] by (subst slot_inject) (auto simp: ssq_ok_def)
  with k ok show "ssq_items (q\<lparr>rx_queue := (rx_queue q)[rx_start q := p]\<rparr>) ! k = (p # tl (ssq_items q)) ! k"
    by (cases k) (auto simp: ssq_items_nth ssq_ok_def nth_tl)
qed (use ne in simp)

lemma ssq_items_commit_enq:
  assumes "ssq_ok q" "Suc (ssq_count q) < length (rx_queue q)"
  shows "ssq_items (q\<lparr>rx_end := (rx_end q + 1) mod length (rx_queue q)\<rparr>) =
      ssq_items q @ [rx_queue q ! rx_end q]"
    and "ssq_ok (q\<lparr>rx_end := (rx_end q + 1) mod length (rx_queue q)\<rparr>)"
  using ssq_items_append [OF assms, of "rx_queue q ! rx_end q"] by simp_all

lemma ssq_items_commit_deq:
  assumes "ssq_ok q" "0 < ssq_count q"
  shows "ssq_items q = rx_queue q ! rx_start q # ssq_items (q\<lparr>rx_start := (rx_start q + 1) mod length (rx_queue q)\<rparr>)"
    and "ssq_ok (q\<lparr>rx_start := (rx_start q + 1) mod length (rx_queue q)\<rparr>)"
  using ssq_items_drop [OF assms, of "rx_queue q ! rx_start q"] by simp_all

lemma set_ssq_items: "ssq_ok q \<Longrightarrow> set (ssq_items q) \<subseteq> set (rx_queue q)"
  by (auto simp: ssq_items_def ssq_ok_def intro!: nth_mem mod_less_divisor)

lemma in_flight_owned:
  "threads_ok s \<Longrightarrow> prod_packet s \<notin> set (in_flight s) \<and>
     (cons_pc s = DeqIdle \<longrightarrow> cons_packet s \<notin> set (in_flight s))"
  using set_ssq_items [of "queue s"]
  by (cases "ssq_items (queue s)") (auto simp: threads_ok_def in_flight_def)

lemma distinct_swap:
  "i < length xs \<Longrightarrow> distinct (xs ! i # c # xs[i := p]) \<longleftrightarrow> distinct (p # c # xs)"
  "i < length xs \<Longrightarrow> distinct (c # xs ! i # xs[i := p]) \<longleftrightarrow> distinct (c # p # xs)"
proof -
  assume i: "i < length xs"
  have "mset (xs ! i # c # xs[i := p]) = mset (p # c # xs)"
    "mset (c # xs ! i # xs[i := p]) = mset (c # p # xs)"
    using mset_swap [OF i, of p] by (simp_all add: add_mset_commute)
  then show "distinct (xs ! i # c # xs[i := p]) \<longleftrightarrow> distinct (p # c # xs)"
    "distinct (c # xs ! i # xs[i := p]) \<longleftrightarrow> distinct (c # p # xs)"
    by (metis mset_eq_imp_distinct_iff)+
qed

lemma map_store_upd: "x \<notin> set xs \<Longrightarrow> map (f(x := d)) xs = map f xs"
  by auto

lemma threads_ok_step:
  assumes step: "ssq_step s t" and inv: "threads_ok s"
  shows "threads_ok t"
  using step
proof cases
  case (produce d)
  with in_flight_owned [OF inv] inv show ?thesis
    by (auto simp: threads_ok_def in_flight_def map_store_upd split: producer_pc.splits if_splits)
next
  case (enq_next nxt)
  with inv show ?thesis by (simp add: threads_ok_def in_flight_def)
next
  case (enq_drop nxt)
  with inv show ?thesis by (simp add: threads_ok_def in_flight_def)
next
  case (enq_check nxt)
  then have "ssq_ok (queue s)" "nxt = (rx_end (queue s) + 1) mod length (rx_queue (queue s))"
    using inv by (simp_all add: threads_ok_def)
  with ssq_full_iff [of "queue s"] ssq_count_less [of "queue s"] enq_check inv show ?thesis
    by (simp add: threads_ok_def in_flight_def)
next
  case (enq_swap nxt q)
  then have q: "ssq_ok q" "rx_end q < length (rx_queue q)" using inv by (simp_all add: threads_ok_def ssq_ok_def)
  have "distinct (rx_queue q ! rx_end q # cons_packet s # (rx_queue q)[rx_end q := prod_packet s])"
    using inv enq_swap q by (subst distinct_swap) (simp_all add: threads_ok_def)
  then show ?thesis using inv enq_swap q
    by (simp add: threads_ok_def in_flight_def ssq_items_write_end)
next
  case (enq_commit nxt q)
  then have q: "ssq_ok q" "Suc (ssq_count q) < length (rx_queue q)"
    and nxt: "nxt = (rx_end q + 1) mod length (rx_queue q)" using inv by (simp_all add: threads_ok_def)
  let ?q = "q\<lparr>rx_end := nxt\<rparr>"
  have items: "ssq_items ?q = ssq_items q @ [rx_queue q ! rx_end q]" and ok: "ssq_ok ?q"
    using ssq_items_commit_enq [OF q] nxt by simp_all
  then have cnt: "ssq_count ?q = Suc (ssq_count q)"
    using length_ssq_items [of ?q] by (simp del: length_ssq_items) simp
  have "cons_pc s = DeqSwapped \<Longrightarrow> 0 < ssq_count q" using inv enq_commit by (simp add: threads_ok_def)
  then have "cons_pc s = DeqSwapped \<Longrightarrow> ssq_items q \<noteq> []"
    by (metis length_greater_0_conv length_ssq_items)
  then show ?thesis using inv enq_commit items ok cnt
    by (auto simp: threads_ok_def in_flight_def)
next
  case (consume d)
  with in_flight_owned [OF inv] inv show ?thesis
    by (simp add: threads_ok_def in_flight_def map_store_upd split: producer_pc.splits)
next
  case deq_check
  with inv ssq_empty_iff [of "queue s"] show ?thesis
    by (simp add: threads_ok_def in_flight_def split: producer_pc.splits)
next
  case (deq_swap q)
  then have q: "ssq_ok q" "0 < ssq_count q" "rx_start q < length (rx_queue q)"
    using inv by (simp_all add: threads_ok_def ssq_ok_def)
  have "distinct (prod_packet s # rx_queue q ! rx_start q # (rx_queue q)[rx_start q := cons_packet s])"
    using inv deq_swap q by (subst distinct_swap) (simp_all add: threads_ok_def)
  moreover have "rx_queue q ! rx_start q # tl (ssq_items q) = ssq_items q"
    using ssq_items_commit_deq(1) [OF q(1,2)] by (metis list.sel(3))
  ultimately show ?thesis using inv deq_swap q
    by (simp add: threads_ok_def in_flight_def ssq_items_write_start split: producer_pc.splits)
next
  case (deq_commit q)
  then have q: "ssq_ok q" "0 < ssq_count q" using inv by (simp_all add: threads_ok_def)
  let ?q = "q\<lparr>rx_start := (rx_start q + 1) mod length (rx_queue q)\<rparr>"
  have items: "ssq_items q = rx_queue q ! rx_start q # ssq_items ?q" and ok: "ssq_ok ?q"
    using ssq_items_commit_deq [OF q] by simp_all
  then have cnt: "ssq_count q = Suc (ssq_count ?q)"
    using length_ssq_items [of q] by (simp del: length_ssq_items) simp
  then show ?thesis using inv deq_commit items ok
    by (simp add: threads_ok_def in_flight_def split: producer_pc.splits)
qed

lemma threads_ok_reachable: "ssq_reachable s \<Longrightarrow> threads_ok s"
proof (induction rule: ssq_reachable.induct)
  case (init vec pp cp st)
  then show ?case
    by (auto simp: threads_ok_def ssq_init_def ssq_new_def ssq_ok_def in_flight_def ssq_items_def
        ssq_count_def)
next
  case (step s t)
  then show ?case by (blast intro: threads_ok_step)
qed

section \<open>Properties\<close>

text \<open>A sequence of calls by one owner at a time: \<^const>\<open>True\<close> is an \<^verbatim>\<open>enq\<close> of the producer's
  packet, \<^const>\<open>False\<close> a \<^verbatim>\<open>deq\<close> into the consumer's.\<close>

fun ssq_run :: "bool list \<Rightarrow> 'p SSQueue \<Rightarrow> 'p \<Rightarrow> 'p \<Rightarrow>
    ('p list \<times> 'p list \<times> 'p SSQueue \<times> 'p \<times> 'p) res" where
  "ssq_run [] q pp cp = Inr ([], [], q, pp, cp)"
| "ssq_run (True # ops) q pp cp =
     bindR (enq q pp) (\<lambda>(b, pp', q'). bindR (ssq_run ops q' pp' cp) (\<lambda>(sent, got, r).
       Inr (if b then pp # sent else sent, got, r)))"
| "ssq_run (False # ops) q pp cp =
     bindR (deq q cp) (\<lambda>(b, cp', q'). bindR (ssq_run ops q' pp cp') (\<lambda>(sent, got, r).
       Inr (sent, if b then cp' # got else got, r)))"

lemma ssq_run_eq: "ssq_run ops q pp cp = ssq.run ops q pp cp"
proof (induction ops arbitrary: q pp cp)
  case (Cons op ops)
  then show ?case by (cases op) (simp_all cong: bindR_cong)
qed simp

text \<open>Run alone, any sequence of \<^verbatim>\<open>enq\<close> and \<^verbatim>\<open>deq\<close> calls succeeds, hands the accepted
  packets out in the order they came, and keeps the set of packet pointers: what the
  two callers and the slots hold afterwards is what they held before.\<close>

theorem ssq_run_fifo:
  assumes "ssq_ok q"
  shows "\<exists>sent got q' pp' cp'. ssq_run ops q pp cp = Inr (sent, got, q', pp', cp') \<and> ssq_ok q' \<and>
    ssq_items q @ sent = got @ ssq_items q' \<and>
    add_mset pp' (add_mset cp' (mset (rx_queue q'))) = add_mset pp (add_mset cp (mset (rx_queue q)))"
  using ssq.run_fifo [OF assms] by (simp add: ssq_pool_def ssq_run_eq)

theorem ssq_run_fifo_witness:
  "\<exists>sent got q' pp' cp'.
    ssq_run [True, True, False] (ssq_new [1, 2, 3 :: nat]) 10 20 = Inr (sent, got, q', pp', cp') \<and>
    sent = got @ ssq_items q'"
  using ssq_run_fifo [of "ssq_new [1, 2, 3 :: nat]" "[True, True, False]" 10 20]
  by (auto simp: ssq_ok_def ssq_new_def ssq_items_def ssq_count_def)



end
