(* ===== verification/Cpu_Defs.thy ===== *)
theory Cpu_Defs
  imports Prelude
begin

text \<open>
  Constants of \<^verbatim>\<open>include/cpu_defs.h\<close>: page size, the kernel's part of the address space and the part
  of it that maps physical memory one to one.
\<close>

section \<open>Address space\<close>

definition PAGE_SIZE :: nat where "PAGE_SIZE = 4096"

definition KERNEL_SPACE_PAGES :: nat where "KERNEL_SPACE_PAGES = 4 * 512 * 512"

definition KERNEL_IMAGE_PAGES :: nat where "KERNEL_IMAGE_PAGES = 32 * 512"

definition PAGES_PER_TABLE :: nat where "PAGES_PER_TABLE = 512"

definition KERNEL_START :: u64 where "KERNEL_START = 0xffff800000000000"

definition IDENTITY_MAP_SIZE :: u64 where
  "IDENTITY_MAP_SIZE = of_nat (KERNEL_SPACE_PAGES * PAGE_SIZE - KERNEL_IMAGE_PAGES * PAGE_SIZE)"

definition IDENTITY_MAP_PHY_START :: u64 where
  "IDENTITY_MAP_PHY_START = of_nat (KERNEL_IMAGE_PAGES * PAGE_SIZE)"

definition IDENTITY_MAP_PHY_END :: u64 where
  "IDENTITY_MAP_PHY_END = of_nat (KERNEL_IMAGE_PAGES * PAGE_SIZE) + IDENTITY_MAP_SIZE"

lemma map_consts [simp]:
  "IDENTITY_MAP_PHY_START = 0x4000000" "IDENTITY_MAP_PHY_END = 0x100000000" "KERNEL_SPACE_PAGES = 1048576"
  "KERNEL_IMAGE_PAGES = 16384" "PAGES_PER_TABLE = 512" "PAGE_SIZE = 4096"
  by (simp_all add: IDENTITY_MAP_PHY_START_def IDENTITY_MAP_PHY_END_def IDENTITY_MAP_SIZE_def
      KERNEL_SPACE_PAGES_def KERNEL_IMAGE_PAGES_def PAGES_PER_TABLE_def PAGE_SIZE_def)

end
