(* ===== verification/Buddy.thy ===== *)
theory Buddy
  imports Lib Cpu_Defs
begin

text \<open>
  The buddy page allocator of \<^verbatim>\<open>mm/page_alloc.cpp\<close>, operation by operation.  The array
  \<^verbatim>\<open>blocks\<close> is a heap-ordered binary tree: block 0 is the whole region, the children of
  block \<open>i\<close> are \<open>2 i + 1\<close> and \<open>2 i + 2\<close>.  The blocks of one size that can be handed out
  are linked into a circular doubly linked list hanging off the bucket of that size.

  A \<^verbatim>\<open>Block *\<close> is the index of the block in the array, null is \<^const>\<open>None\<close>; using a block at
  or beyond \<^verbatim>\<open>max_blocks\<close>, a bucket outside the array, or a null pointer is undefined.  The
  two usage counters of a bucket are kept at their 64-bit width because they wrap.
\<close>

section \<open>Data\<close>

definition BlockSize :: u64 where "BlockSize = 16 * of_nat PAGE_SIZE"

definition Log2MinSize :: nat where "Log2MinSize = 16"

definition Log2MaxSize :: nat where "Log2MaxSize = 32"

definition MaxBlocks :: nat where "MaxBlocks = 4 * 1024 * 1024 * 1024 div unat BlockSize"

record Block =
  valid :: bool
  available :: bool
  blk_prev :: "nat option"
  blk_next :: "nat option"

definition block_new :: "bool \<Rightarrow> Block" where
  "block_new avail = \<lparr>valid = False, available = avail, blk_prev = None, blk_next = None\<rparr>"

text \<open>The static array: default-initialised blocks are available and not valid.\<close>

definition preallocated_blocks :: "nat \<Rightarrow> Block" where
  "preallocated_blocks i = block_new True"

record Bucket =
  bkt_log2size :: nat
  allocated_blocks :: u64
  available_blocks :: u64
  first_block :: "nat option"

record BuddyAllocator =
  phy_start :: u64
  root_log2size :: nat
  blocks :: "nat \<Rightarrow> Block"
  max_blocks :: nat
  buckets :: "nat \<Rightarrow> Bucket"

section \<open>Access to blocks and buckets\<close>

definition blk :: "BuddyAllocator \<Rightarrow> nat \<Rightarrow> Block res" where
  "blk a i = bindR (guardR (i < max_blocks a) ''block'') (\<lambda>_. Inr (blocks a i))"

definition upd_blk :: "BuddyAllocator \<Rightarrow> nat \<Rightarrow> (Block \<Rightarrow> Block) \<Rightarrow> BuddyAllocator res" where
  "upd_blk a i f =
     bindR (guardR (i < max_blocks a) ''block'')
       (\<lambda>_. Inr (a\<lparr>blocks := (blocks a)(i := f (blocks a i))\<rparr>))"

definition upd_bucket :: "BuddyAllocator \<Rightarrow> nat \<Rightarrow> (Bucket \<Rightarrow> Bucket) \<Rightarrow> BuddyAllocator" where
  "upd_bucket a b f = a\<lparr>buckets := (buckets a)(b := f (buckets a b))\<rparr>"

text \<open>\<^verbatim>\<open>buckets[log2size - Log2MinSize]\<close>: the subscript, if it is one.\<close>

definition get_bucket :: "nat \<Rightarrow> nat res" where
  "get_bucket log2size =
     (let i = sub64 log2size Log2MinSize
      in bindR (guardR (i < Log2MaxSize - Log2MinSize + 1) ''bucket'') (\<lambda>_. Inr i))"

definition new_buckets :: "nat \<Rightarrow> Bucket" where
  "new_buckets i =
     \<lparr>bkt_log2size = Log2MinSize + i, allocated_blocks = 0, available_blocks = 0, first_block = None\<rparr>"

definition buddy_new :: "u64 \<Rightarrow> nat \<Rightarrow> (nat \<Rightarrow> Block) \<Rightarrow> nat \<Rightarrow> BuddyAllocator res" where
  "buddy_new addr log2size base max_blks =
     (let a = \<lparr>phy_start = addr, root_log2size = log2size, blocks = base, max_blocks = max_blks,
               buckets = new_buckets\<rparr>
      in bindR (upd_blk a 0 (\<lambda>_. (block_new True)\<lparr>valid := True, blk_next := Some 0, blk_prev := Some 0\<rparr>)) (\<lambda>a1.
         bindR (get_bucket log2size) (\<lambda>b.
         Inr (upd_bucket a1 b (\<lambda>k. k\<lparr>first_block := Some 0\<rparr>)))))"

section \<open>The tree\<close>

definition block_log2size :: "BuddyAllocator \<Rightarrow> nat \<Rightarrow> nat" where
  "block_log2size a block = sub64 (root_log2size a) (unat (log2 (of_nat block + 1)))"

definition get_left :: "BuddyAllocator \<Rightarrow> nat \<Rightarrow> nat option" where
  "get_left a offset = (if 2 * offset + 1 \<ge> max_blocks a then None else Some (2 * offset + 1))"

definition get_right :: "BuddyAllocator \<Rightarrow> nat \<Rightarrow> nat option" where
  "get_right a offset = (if 2 * offset + 2 \<ge> max_blocks a then None else Some (2 * offset + 2))"

definition get_parent :: "nat \<Rightarrow> nat option" where
  "get_parent offset = (if offset = 0 then None else Some ((offset - 1) div 2))"

definition get_buddy :: "nat \<Rightarrow> nat option" where
  "get_buddy offset =
     (if offset = 0 then None
      else if offset mod 2 = 0 then Some (offset - 1) else Some (offset + 1))"

definition get_block_phy_addr :: "BuddyAllocator \<Rightarrow> nat \<Rightarrow> u64" where
  "get_block_phy_addr a block = phy_start a + of_nat block * BlockSize"

section \<open>The free lists\<close>

definition remove_from_available_list :: "BuddyAllocator \<Rightarrow> nat \<Rightarrow> BuddyAllocator res" where
  "remove_from_available_list a block =
     bindR (get_bucket (block_log2size a block)) (\<lambda>b.
     bindR (blk a block) (\<lambda>B.
     let a1 = (if first_block (buckets a b) = Some block
               then upd_bucket a b (\<lambda>k. k\<lparr>first_block :=
                      (if blk_next B = Some block then None else blk_next B)\<rparr>)
               else a) in
     bindR (case blk_prev B of None \<Rightarrow> Inr a1
            | Some p \<Rightarrow> upd_blk a1 p (\<lambda>x. x\<lparr>blk_next := blk_next B\<rparr>)) (\<lambda>a2.
     bindR (case blk_next B of None \<Rightarrow> Inr a2
            | Some n \<Rightarrow> upd_blk a2 n (\<lambda>x. x\<lparr>blk_prev := blk_prev B\<rparr>)) (\<lambda>a3.
     Inr (upd_bucket a3 b (\<lambda>k. k\<lparr>available_blocks := available_blocks k - 1\<rparr>))))))"

definition add_to_available_list :: "BuddyAllocator \<Rightarrow> nat \<Rightarrow> BuddyAllocator res" where
  "add_to_available_list a block =
     bindR (get_bucket (block_log2size a block)) (\<lambda>b.
     bindR (case first_block (buckets a b) of
        None \<Rightarrow>
          bindR (upd_blk a block (\<lambda>x. x\<lparr>blk_next := Some block, blk_prev := Some block\<rparr>)) (\<lambda>a1.
          Inr (upd_bucket a1 b (\<lambda>k. k\<lparr>first_block := Some block\<rparr>)))
      | Some first \<Rightarrow>
          bindR (blk a first) (\<lambda>F.
          case blk_prev F of
            None \<Rightarrow> Inl (Undefined ''null pointer'')
          | Some lst \<Rightarrow>
              bindR (upd_blk a first (\<lambda>x. x\<lparr>blk_prev := Some block\<rparr>)) (\<lambda>a1.
              bindR (upd_blk a1 lst (\<lambda>x. x\<lparr>blk_next := Some block\<rparr>)) (\<lambda>a2.
              upd_blk a2 block (\<lambda>x. x\<lparr>blk_next := Some first, blk_prev := Some lst\<rparr>))))) (\<lambda>a'.
     Inr (upd_bucket a' b (\<lambda>k. k\<lparr>available_blocks := available_blocks k + 1\<rparr>))))"

section \<open>Allocation\<close>

text \<open>Take the first free block of the size, or split a block of the next larger size: the
  left half is the result, the right half becomes free.\<close>

function alloc_block_size :: "BuddyAllocator \<Rightarrow> nat \<Rightarrow> (nat option \<times> BuddyAllocator) res" where
  "alloc_block_size a log2size =
     (if log2size > root_log2size a then Inr (None, a)
      else bindR (get_bucket log2size) (\<lambda>b.
        case first_block (buckets a b) of
          None \<Rightarrow>
            bindR (alloc_block_size a (log2size + 1)) (\<lambda>(parent, a1).
              case parent of
                None \<Rightarrow> Inr (None, a1)
              | Some p \<Rightarrow>
                  (case (get_left a1 p, get_right a1 p) of
                     (Some left, Some right) \<Rightarrow>
                       bindR (upd_blk a1 left (\<lambda>x. x\<lparr>available := False, valid := True\<rparr>)) (\<lambda>a2.
                       bindR (upd_blk a2 right (\<lambda>x. x\<lparr>available := True, valid := True\<rparr>)) (\<lambda>a3.
                       bindR (add_to_available_list a3 right) (\<lambda>a4.
                       Inr (Some left, a4))))
                   | _ \<Rightarrow> Inl (Undefined ''null pointer'')))
        | Some first \<Rightarrow>
            bindR (upd_blk a first (\<lambda>x. x\<lparr>available := False\<rparr>)) (\<lambda>a1.
            bindR (remove_from_available_list a1 first) (\<lambda>a2.
            Inr (Some first, a2)))))"
  by pat_completeness auto
termination
  by (relation "measure (\<lambda>(a, log2size). Suc (root_log2size a) - log2size)") auto

declare alloc_block_size.simps [simp del]

definition allocate_pages :: "BuddyAllocator \<Rightarrow> nat \<Rightarrow> (u64 \<times> BuddyAllocator) res" where
  "allocate_pages a log2size =
     (if log2size < Log2MinSize
      then Inl (Panic ''Failed to allocate pages, log2size < Log2MinSize'')
      else bindR (alloc_block_size a log2size) (\<lambda>(block, a1).
        case block of
          None \<Rightarrow> Inr (0, a1)
        | Some i \<Rightarrow>
            bindR (get_bucket log2size) (\<lambda>b.
            let a2 = upd_bucket a1 b (\<lambda>k. k\<lparr>allocated_blocks := allocated_blocks k + 1\<rparr>)
            in Inr (get_block_phy_addr a2 i, a2))))"

section \<open>Release\<close>

function try_merge_with_buddy :: "BuddyAllocator \<Rightarrow> nat \<Rightarrow> (nat \<times> BuddyAllocator) res" where
  "try_merge_with_buddy a block =
     (case get_parent block of
        None \<Rightarrow> Inr (block, a)
      | Some parent \<Rightarrow>
          (case get_buddy block of
             None \<Rightarrow> Inr (block, a)
           | Some buddy \<Rightarrow>
               bindR (blk a buddy) (\<lambda>B.
               if \<not> available B then Inr (block, a)
               else
                 bindR (remove_from_available_list a buddy) (\<lambda>a1.
                 bindR (upd_blk a1 buddy (\<lambda>x. x\<lparr>valid := False\<rparr>)) (\<lambda>a2.
                 bindR (blk a2 parent) (\<lambda>P.
                 bindR (assertR (\<not> available P)
                   ''inconsistent data structure, parent should not be available'') (\<lambda>_.
                 bindR (assertR (valid P)
                   ''inconsistent data structure, parent should be valid'') (\<lambda>_.
                 bindR (upd_blk a2 parent (\<lambda>x. x\<lparr>available := True\<rparr>)) (\<lambda>a3.
                 bindR (upd_blk a3 block (\<lambda>x. x\<lparr>valid := False\<rparr>)) (\<lambda>a4.
                 try_merge_with_buddy a4 parent))))))))))"
  by pat_completeness auto
termination
proof (relation "measure snd", goal_cases)
  case 1
  show ?case by simp
next
  case (2 a block parent)
  then show ?case by (auto simp: get_parent_def split: if_splits)
qed

declare try_merge_with_buddy.simps [simp del]

definition free_pages :: "BuddyAllocator \<Rightarrow> u64 \<Rightarrow> BuddyAllocator res" where
  "free_pages a addr =
     (let block_offset = unat ((addr - phy_start a) div BlockSize) in
      bindR (assertR ((addr - phy_start a) mod BlockSize = 0)
        ''Failed to free pages, addr is not aligned'') (\<lambda>_.
      bindR (blk a block_offset) (\<lambda>B.
      bindR (assertR (\<not> available B) ''Cannot free available pages'') (\<lambda>_.
      bindR (try_merge_with_buddy a block_offset) (\<lambda>(merged_block, a1).
      bindR (upd_blk a1 merged_block (\<lambda>x. x\<lparr>available := True\<rparr>)) (\<lambda>a2.
      bindR (add_to_available_list a2 merged_block) (\<lambda>a3.
      bindR (get_bucket (block_log2size a3 block_offset)) (\<lambda>b.
      Inr (upd_bucket a3 b (\<lambda>k. k\<lparr>allocated_blocks := allocated_blocks k - 1\<rparr>))))))))))"

end
