(* ===== verification/Ring.thy ===== *)
theory Ring
  imports Main
begin

text \<open>
  Circular doubly linked lists over a pair of pointer maps, as the list they represent:
  what inserting before the first element and unlinking an element do to it.
\<close>

section \<open>Chains and rings\<close>

fun chain :: "('a \<Rightarrow> 'a option) \<Rightarrow> ('a \<Rightarrow> 'a option) \<Rightarrow> 'a list \<Rightarrow> bool" where
  "chain nxt prv (x # y # zs) \<longleftrightarrow> nxt x = Some y \<and> prv y = Some x \<and> chain nxt prv (y # zs)"
| "chain nxt prv _ \<longleftrightarrow> True"

definition ring :: "('a \<Rightarrow> 'a option) \<Rightarrow> ('a \<Rightarrow> 'a option) \<Rightarrow> 'a list \<Rightarrow> bool" where
  "ring nxt prv xs \<longleftrightarrow> distinct xs \<and>
     (xs \<noteq> [] \<longrightarrow> chain nxt prv xs \<and> nxt (last xs) = Some (hd xs) \<and> prv (hd xs) = Some (last xs))"

definition ring_head :: "'a list \<Rightarrow> 'a option" where
  "ring_head xs = (case xs of [] \<Rightarrow> None | x # _ \<Rightarrow> Some x)"

lemma ring_head_simps [simp]: "ring_head [] = None" "ring_head (x # xs) = Some x"
  by (simp_all add: ring_head_def)

lemma ring_head_eq_None [simp]: "ring_head xs = None \<longleftrightarrow> xs = []"
  by (cases xs) auto

lemma ring_head_append: "xs \<noteq> [] \<Longrightarrow> ring_head (xs @ ys) = ring_head xs"
  by (cases xs) auto

lemma chain_append:
  "chain nxt prv (xs @ ys) \<longleftrightarrow> chain nxt prv xs \<and> chain nxt prv ys \<and>
     (xs \<noteq> [] \<longrightarrow> ys \<noteq> [] \<longrightarrow> nxt (last xs) = Some (hd ys) \<and> prv (hd ys) = Some (last xs))"
proof (induction xs)
  case Nil
  then show ?case by simp
next
  case (Cons x xs)
  then show ?case by (cases xs; cases ys) auto
qed

lemma chain_cong:
  "(\<And>x. x \<in> set xs \<Longrightarrow> nxt x = nxt' x \<and> prv x = prv' x) \<Longrightarrow> chain nxt prv xs = chain nxt' prv' xs"
proof (induction xs)
  case (Cons x xs)
  then show ?case by (cases xs) auto
qed simp

lemma ring_cong:
  assumes "\<And>x. x \<in> set xs \<Longrightarrow> nxt x = nxt' x \<and> prv x = prv' x"
  shows "ring nxt prv xs = ring nxt' prv' xs"
  using chain_cong [OF assms] assms by (cases "xs = []") (auto simp: ring_def)

lemma ring_Nil [simp]: "ring nxt prv []"
  by (simp add: ring_def)

lemma ring_rotate: "ring nxt prv (xs @ ys) \<longleftrightarrow> ring nxt prv (ys @ xs)"
  by (cases "xs = []"; cases "ys = []") (auto simp: ring_def chain_append)

section \<open>Unlinking\<close>

lemma ring_single [simp]: "ring nxt prv [x] \<longleftrightarrow> nxt x = Some x \<and> prv x = Some x"
  by (auto simp: ring_def)

lemma ring_Cons:
  "ys \<noteq> [] \<Longrightarrow> ring nxt prv (x # ys) \<longleftrightarrow> x \<notin> set ys \<and> distinct ys \<and> chain nxt prv ys \<and>
     nxt x = Some (hd ys) \<and> prv (hd ys) = Some x \<and> nxt (last ys) = Some x \<and> prv x = Some (last ys)"
  by (cases ys) (auto simp: ring_def)

lemma chain_upd_last:
  "distinct ys \<Longrightarrow> ys \<noteq> [] \<Longrightarrow> chain (nxt(last ys := v)) prv ys \<longleftrightarrow> chain nxt prv ys"
proof (induction ys)
  case (Cons y ys)
  then show ?case by (cases ys) auto
qed simp

lemma chain_upd_hd:
  assumes "distinct ys" "ys \<noteq> []"
  shows "chain nxt (prv(hd ys := v)) ys \<longleftrightarrow> chain nxt prv ys"
proof -
  obtain y zs where ys: "ys = y # zs" using assms(2) by (cases ys) auto
  with assms(1) have "chain nxt (prv(y := v)) zs = chain nxt prv zs"
    by (intro chain_cong) auto
  with assms(1) ys show ?thesis by (cases zs) auto
qed

lemma ring_unlink_hd:
  assumes "ring nxt prv (x # ys)" "ys \<noteq> []"
  shows "ring (nxt(last ys := Some (hd ys))) (prv(hd ys := Some (last ys))) ys"
proof -
  have "x \<notin> set ys" "distinct ys" "chain nxt prv ys" using assms by (simp_all add: ring_Cons)
  then show ?thesis using assms(2) by (simp add: ring_def chain_upd_last chain_upd_hd)
qed

text \<open>The two neighbours of an element are given by its own pointers.\<close>

lemma ring_remove:
  assumes ring: "ring nxt prv (ps @ x # qs)" and "nxt x = Some n" "prv x = Some p"
  shows "ring (nxt(p := Some n)) (prv(n := Some p)) (ps @ qs)"
proof (cases "qs @ ps = []")
  case False
  have rot: "ring nxt prv (x # qs @ ps)" using ring ring_rotate [of nxt prv ps "x # qs"] by simp
  then have "n = hd (qs @ ps)" "p = last (qs @ ps)" using assms(2,3) False by (auto simp: ring_Cons)
  with ring_unlink_hd [OF rot False] have "ring (nxt(p := Some n)) (prv(n := Some p)) (qs @ ps)" by simp
  then show ?thesis using ring_rotate by blast
qed simp

lemma ring_neighbours:
  assumes "ring nxt prv xs" "x \<in> set xs"
  obtains n p where "nxt x = Some n" "prv x = Some p" "n \<in> set xs" "p \<in> set xs"
proof -
  from assms(2) obtain ps qs where xs: "xs = ps @ x # qs" by (auto simp: in_set_conv_decomp)
  have rot: "ring nxt prv (x # qs @ ps)" using assms(1) xs ring_rotate [of nxt prv ps "x # qs"] by simp
  show ?thesis
  proof (cases "qs @ ps = []")
    case True
    with rot xs that show ?thesis by auto
  next
    case False
    with rot have "nxt x = Some (hd (qs @ ps))" "prv x = Some (last (qs @ ps))" by (auto simp: ring_Cons)
    moreover have "hd (qs @ ps) \<in> set xs" "last (qs @ ps) \<in> set xs"
      using False xs hd_in_set [OF False] last_in_set [OF False] by auto
    ultimately show ?thesis using that by blast
  qed
qed

lemma ring_next_self: "ring nxt prv (x # xs) \<Longrightarrow> nxt x = Some x \<longleftrightarrow> xs = []"
  by (cases "xs = []") (auto simp: ring_Cons)

lemma ring_next_hd: "ring nxt prv (x # xs) \<Longrightarrow> xs \<noteq> [] \<Longrightarrow> nxt x = ring_head xs"
  by (cases xs) (auto simp: ring_Cons)

section \<open>Linking in at the end\<close>

lemma ring_append:
  assumes ring: "ring nxt prv xs" and "xs \<noteq> []" "x \<notin> set xs"
    and f: "f = hd xs" and l: "l = last xs"
  shows "ring ((nxt(l := Some x))(x := Some f)) ((prv(f := Some x))(x := Some l)) (xs @ [x])"
proof -
  have d: "distinct xs" "chain nxt prv xs" using assms by (auto simp: ring_def)
  have "x \<noteq> l" "x \<noteq> f" using assms by auto
  have "chain ((nxt(l := Some x))(x := Some f)) ((prv(f := Some x))(x := Some l)) xs \<longleftrightarrow>
      chain (nxt(l := Some x)) (prv(f := Some x)) xs"
    using assms(3) by (intro chain_cong) auto
  also have "\<dots> \<longleftrightarrow> chain nxt prv xs"
    using d assms(2) f l by (simp add: chain_upd_last chain_upd_hd)
  finally show ?thesis
    using d assms \<open>x \<noteq> l\<close> \<open>x \<noteq> f\<close> by (auto simp: ring_def chain_append)
qed

end
