(* ===== verification/Buddy_Lists.thy ===== *)
theory Buddy_Lists
  imports Buddy Ring
begin

text \<open>
  The free lists of the buddy allocator as lists: \<open>lists_ok a fl\<close> says that the pointers of
  the blocks and the buckets represent, for every size, the list \<open>fl\<close> of free blocks of
  that size.  Linking a block in appends to that list and unlinking it removes it, and
  neither touches a flag, another list or the counts of allocated blocks.
\<close>

section \<open>Depth and size of a block\<close>

fun depth :: "nat \<Rightarrow> nat" where
  "depth i = (if i = 0 then 0 else Suc (depth ((i - 1) div 2)))"

declare depth.simps [simp del]

lemma depth_0 [simp]: "depth 0 = 0"
  by (simp add: depth.simps)

lemma depth_left [simp]: "depth (Suc (2 * i)) = Suc (depth i)"
  by (simp add: depth.simps [of "Suc (2 * i)"])

lemma depth_right [simp]: "depth (Suc (Suc (2 * i))) = Suc (depth i)"
  by (simp add: depth.simps [of "Suc (Suc (2 * i))"])

lemma depth_parent: "i \<noteq> 0 \<Longrightarrow> depth i = Suc (depth ((i - 1) div 2))"
  by (simp add: depth.simps [of i])

lemma depth_bounds: "2 ^ depth i \<le> Suc i \<and> Suc i < 2 ^ Suc (depth i)"
proof (induction i rule: depth.induct)
  case (1 i)
  show ?case
  proof (cases "i = 0")
    case False
    let ?p = "(i - 1) div 2"
    from 1 [OF False] have "2 ^ depth ?p \<le> Suc ?p" "Suc ?p < 2 ^ Suc (depth ?p)" by auto
    moreover have "2 * Suc ?p \<le> Suc i" "Suc i \<le> 2 * Suc ?p + 1" using False by auto
    ultimately show ?thesis using False by (simp add: depth.simps [of i])
  qed simp
qed

lemma log2_depth:
  assumes "i + 1 < 2 ^ 64"
  shows "unat (log2 (of_nat i + 1)) = depth i"
proof -
  have "of_nat i + 1 = (of_nat (Suc i) :: u64)" by simp
  moreover have "unat (of_nat (Suc i) :: u64) = Suc i"
    using assms by (simp only: unat_of_nat) simp
  ultimately have "unat (of_nat i + 1 :: u64) = Suc i" by (simp only:)
  moreover have "nlog (Suc i) = depth i" using depth_bounds [of i] by (intro nlog_unique) auto
  ultimately show ?thesis by (simp only: unat_log2)
qed

text \<open>The allocator's dimensions: the array has room for every block of at least 64 KiB.\<close>

definition geom :: "BuddyAllocator \<Rightarrow> bool" where
  "geom a \<longleftrightarrow> 16 \<le> root_log2size a \<and> root_log2size a \<le> 32 \<and>
     2 ^ (root_log2size a - 15) \<le> Suc (max_blocks a) \<and> max_blocks a < 2 ^ 48"

definition lev :: "BuddyAllocator \<Rightarrow> nat \<Rightarrow> nat" where
  "lev a i = root_log2size a - depth i"

definition in_tree :: "BuddyAllocator \<Rightarrow> nat \<Rightarrow> bool" where
  "in_tree a i \<longleftrightarrow> 16 + depth i \<le> root_log2size a"

lemma in_tree_bound: "geom a \<Longrightarrow> in_tree a i \<Longrightarrow> i < max_blocks a"
proof -
  assume g: "geom a" and t: "in_tree a i"
  have "Suc i < 2 ^ Suc (depth i)" using depth_bounds by blast
  also have "(2::nat) ^ Suc (depth i) \<le> 2 ^ (root_log2size a - 15)"
    using t by (intro power_increasing) (auto simp: in_tree_def)
  also have "\<dots> \<le> Suc (max_blocks a)" using g by (simp add: geom_def)
  finally show ?thesis by simp
qed

lemma block_log2size_lev: "geom a \<Longrightarrow> in_tree a i \<Longrightarrow> block_log2size a i = lev a i"
proof -
  assume g: "geom a" and t: "in_tree a i"
  have "i < 2 ^ 48" using in_tree_bound [OF g t] g by (simp add: geom_def)
  then have "i + 1 < 2 ^ 64" by simp
  then show ?thesis
    using g t by (simp add: block_log2size_def log2_depth lev_def geom_def in_tree_def)
qed

lemma lev_bounds: "in_tree a i \<Longrightarrow> 16 \<le> lev a i \<and> lev a i \<le> root_log2size a"
  by (auto simp: in_tree_def lev_def)

lemma get_bucket_ok: "16 \<le> l \<Longrightarrow> l \<le> 32 \<Longrightarrow> get_bucket l = Inr (l - 16)"
  by (simp add: get_bucket_def Log2MinSize_def Log2MaxSize_def)

lemma get_bucket_lev: "geom a \<Longrightarrow> in_tree a i \<Longrightarrow> get_bucket (block_log2size a i) = Inr (lev a i - 16)"
  using lev_bounds [of a i] by (simp add: block_log2size_lev get_bucket_ok geom_def)

section \<open>Representation of the free lists\<close>

abbreviation nxt :: "BuddyAllocator \<Rightarrow> nat \<Rightarrow> nat option" where
  "nxt a \<equiv> \<lambda>i. blk_next (blocks a i)"

abbreviation prv :: "BuddyAllocator \<Rightarrow> nat \<Rightarrow> nat option" where
  "prv a \<equiv> \<lambda>i. blk_prev (blocks a i)"

definition list_ok :: "BuddyAllocator \<Rightarrow> nat \<Rightarrow> nat list \<Rightarrow> bool" where
  "list_ok a l xs \<longleftrightarrow>
     ring (nxt a) (prv a) xs \<and> first_block (buckets a (l - 16)) = ring_head xs \<and>
     available_blocks (buckets a (l - 16)) = of_nat (length xs) - of_bool (l = root_log2size a) \<and>
     (\<forall>x \<in> set xs. in_tree a x \<and> lev a x = l)"

definition lists_ok :: "BuddyAllocator \<Rightarrow> (nat \<Rightarrow> nat list) \<Rightarrow> bool" where
  "lists_ok a fl \<longleftrightarrow> (\<forall>l. 16 \<le> l \<longrightarrow> l \<le> root_log2size a \<longrightarrow> list_ok a l (fl l)) \<and>
     (\<forall>b. root_log2size a < b + 16 \<longrightarrow> first_block (buckets a b) = None)"

text \<open>What the list operations leave alone.\<close>

definition rest :: "BuddyAllocator \<Rightarrow>
    u64 \<times> nat \<times> nat \<times> (nat \<Rightarrow> bool \<times> bool) \<times> (nat \<Rightarrow> nat \<times> u64)" where
  "rest a = (phy_start a, root_log2size a, max_blocks a,
     (\<lambda>i. (valid (blocks a i), available (blocks a i))),
     (\<lambda>b. (bkt_log2size (buckets a b), allocated_blocks (buckets a b))))"

lemma rest_eqD:
  assumes "rest a' = rest a"
  shows "phy_start a' = phy_start a" "root_log2size a' = root_log2size a" "max_blocks a' = max_blocks a"
    "valid (blocks a' i) = valid (blocks a i)" "available (blocks a' i) = available (blocks a i)"
    "allocated_blocks (buckets a' b) = allocated_blocks (buckets a b)"
    "geom a' = geom a" "lev a' = lev a" "in_tree a' = in_tree a"
  using assms by (auto simp: rest_def geom_def lev_def in_tree_def fun_eq_iff)

lemma list_ok_frame:
  assumes "list_ok a l xs" "root_log2size a' = root_log2size a" "buckets a' (l - 16) = buckets a (l - 16)"
    and "\<And>x. x \<in> set xs \<Longrightarrow> nxt a' x = nxt a x \<and> prv a' x = prv a x"
  shows "list_ok a' l xs"
proof -
  have "ring (nxt a') (prv a') xs = ring (nxt a) (prv a) xs" using assms(4) by (intro ring_cong) auto
  with assms show ?thesis by (simp add: list_ok_def in_tree_def lev_def)
qed

text \<open>Lists of different sizes have no block in common.\<close>

lemma list_ok_disjoint:
  "list_ok a l xs \<Longrightarrow> list_ok a k ys \<Longrightarrow> l \<noteq> k \<Longrightarrow> set xs \<inter> set ys = {}"
  by (auto simp: list_ok_def)

lemma lists_ok_upd:
  assumes ok: "lists_ok a fl" and root: "root_log2size a' = root_log2size a"
    and l: "16 \<le> l" "l \<le> root_log2size a" and new: "list_ok a' l xs"
    and bkt: "\<And>b. b \<noteq> l - 16 \<Longrightarrow> buckets a' b = buckets a b"
    and ptr: "\<And>x. x \<notin> set (fl l) \<Longrightarrow> x \<notin> set xs \<Longrightarrow> nxt a' x = nxt a x \<and> prv a' x = prv a x"
  shows "lists_ok a' (fl(l := xs))"
  unfolding lists_ok_def
proof (intro conjI allI impI)
  fix b assume b: "root_log2size a' < b + 16"
  then have "b \<noteq> l - 16" using l root by auto
  then show "first_block (buckets a' b) = None" using bkt b root ok by (simp add: lists_ok_def)
next
  fix k assume k: "16 \<le> k" "k \<le> root_log2size a'"
  show "list_ok a' k ((fl(l := xs)) k)"
  proof (cases "k = l")
    case False
    have old: "list_ok a k (fl k)" and oldl: "list_ok a l (fl l)"
      using ok k l root by (simp_all add: lists_ok_def)
    have "list_ok a' k (fl k)"
    proof (rule list_ok_frame [OF old root])
      show "buckets a' (k - 16) = buckets a (k - 16)" using k l False by (intro bkt) auto
      fix x assume x: "x \<in> set (fl k)"
      have "x \<notin> set (fl l)" using list_ok_disjoint [OF old oldl False] x by blast
      moreover have "x \<notin> set xs"
        using old new x False root by (auto simp: list_ok_def lev_def)
      ultimately show "nxt a' x = nxt a x \<and> prv a' x = prv a x" by (rule ptr)
    qed
    with False show ?thesis by simp
  qed (use new in simp)
qed

section \<open>Unlinking a block\<close>

text \<open>The state \<^const>\<open>remove_from_available_list\<close> leaves when the block has neighbours \<open>p\<close> and \<open>n\<close>.\<close>

definition unlinked :: "BuddyAllocator \<Rightarrow> nat \<Rightarrow> nat \<Rightarrow> nat \<Rightarrow> nat \<Rightarrow> BuddyAllocator" where
  "unlinked a b x p n =
     upd_bucket
       (a\<lparr>blocks := ((blocks a)(p := (blocks a p)\<lparr>blk_next := Some n\<rparr>))
          (n := (((blocks a)(p := (blocks a p)\<lparr>blk_next := Some n\<rparr>)) n)\<lparr>blk_prev := Some p\<rparr>)\<rparr>) b
       (\<lambda>k. k\<lparr>first_block := (if first_block k = Some x then (if n = x then None else Some n)
                            else first_block k),
             available_blocks := available_blocks k - 1\<rparr>)"

lemma remove_from_available_list_eq:
  assumes "get_bucket (block_log2size a x) = Inr b" "x < max_blocks a"
    "prv a x = Some p" "nxt a x = Some n" "p < max_blocks a" "n < max_blocks a"
  shows "remove_from_available_list a x = Inr (unlinked a b x p n)"
  using assms
  by (cases "first_block (buckets a b) = Some x")
    (simp_all add: remove_from_available_list_def blk_def upd_blk_def Let_def unlinked_def upd_bucket_def)

lemma unlinked_simps:
  "rest (unlinked a b x p n) = rest a"
  "nxt (unlinked a b x p n) = (nxt a)(p := Some n)" "prv (unlinked a b x p n) = (prv a)(n := Some p)"
  "first_block (buckets (unlinked a b x p n) b) =
     (if first_block (buckets a b) = Some x then (if n = x then None else Some n)
      else first_block (buckets a b))"
  "available_blocks (buckets (unlinked a b x p n) b) = available_blocks (buckets a b) - 1"
  "c \<noteq> b \<Longrightarrow> buckets (unlinked a b x p n) c = buckets a c"
  by (auto simp: rest_def unlinked_def upd_bucket_def fun_eq_iff)

lemma remove_ok:
  assumes g: "geom a" and ok: "lists_ok a fl" and x: "x \<in> set (fl l)"
    and l: "16 \<le> l" "l \<le> root_log2size a"
  shows "\<exists>a'. remove_from_available_list a x = Inr a' \<and> rest a' = rest a \<and>
    lists_ok a' (fl(l := remove1 x (fl l)))"
proof -
  have lo: "list_ok a l (fl l)" using ok l by (simp add: lists_ok_def)
  then have ring: "ring (nxt a) (prv a) (fl l)" and lev: "lev a x = l" "in_tree a x"
    and mem: "\<And>y. y \<in> set (fl l) \<Longrightarrow> y < max_blocks a"
    using x g by (auto simp: list_ok_def intro: in_tree_bound)
  obtain n p where np: "nxt a x = Some n" "prv a x = Some p" "n \<in> set (fl l)" "p \<in> set (fl l)"
    using ring_neighbours [OF ring x] by blast
  have bkt: "get_bucket (block_log2size a x) = Inr (l - 16)" using get_bucket_lev [OF g lev(2)] lev by simp
  let ?a = "unlinked a (l - 16) x p n"
  have a': "remove_from_available_list a x = Inr ?a"
    by (rule remove_from_available_list_eq [OF bkt mem [OF x] np(2,1) mem [OF np(4)] mem [OF np(3)]])
  note u = unlinked_simps [where a = a and b = "l - 16" and x = x and p = p and n = n]
  have root: "root_log2size ?a = root_log2size a" by (rule rest_eqD(2) [OF u(1)])
  obtain ps qs where fl: "fl l = ps @ x # qs" and ps: "x \<notin> set ps"
    using x by (metis split_list_first)
  then have rem: "remove1 x (fl l) = ps @ qs" by (simp add: remove1_append)
  have "list_ok ?a l (ps @ qs)"
    unfolding list_ok_def
  proof (intro conjI)
    show "ring (nxt ?a) (prv ?a) (ps @ qs)"
      using ring_remove [of "nxt a" "prv a" ps x qs n p] ring np fl by (simp add: u(2,3))
    show "first_block (buckets ?a (l - 16)) = ring_head (ps @ qs)"
    proof (cases ps)
      case Nil
      then have "first_block (buckets a (l - 16)) = Some x" and r: "ring (nxt a) (prv a) (x # qs)"
        using lo fl ring by (simp_all add: list_ok_def)
      with np(1) Nil ring_next_self [OF r] ring_next_hd [OF r] show ?thesis
        unfolding u(4) by (cases qs) auto
    next
      case (Cons y ys)
      with lo fl ps show ?thesis unfolding u(4) by (auto simp: list_ok_def)
    qed
    show "available_blocks (buckets ?a (l - 16)) = of_nat (length (ps @ qs)) - of_bool (l = root_log2size ?a)"
      using lo fl unfolding u(5) root by (simp add: list_ok_def)
    show "\<forall>x\<in>set (ps @ qs). in_tree ?a x \<and> lev ?a x = l"
      using lo fl by (auto simp: list_ok_def rest_eqD(8,9) [OF u(1)])
  qed
  moreover have "nxt ?a y = ((nxt a)(p := Some n)) y" "prv ?a y = ((prv a)(n := Some p)) y" for y
    using fun_cong [OF u(2)] fun_cong [OF u(3)] by auto
  ultimately have "lists_ok ?a (fl(l := ps @ qs))"
    using np(3,4) by (intro lists_ok_upd [OF ok root l]) (auto simp: u(6))
  with a' u(1) rem show ?thesis by auto
qed

section \<open>Linking a block in\<close>

definition linked :: "BuddyAllocator \<Rightarrow> nat \<Rightarrow> nat \<Rightarrow> nat \<Rightarrow> nat \<Rightarrow> BuddyAllocator" where
  "linked a b x f l =
     upd_bucket
       (a\<lparr>blocks := (\<lambda>i. (blocks a i)
            \<lparr>blk_next := ((((nxt a)(l := Some x))(x := Some f)) i),
             blk_prev := ((((prv a)(f := Some x))(x := Some l)) i)\<rparr>)\<rparr>) b
       (\<lambda>k. k\<lparr>first_block := (if first_block k = None then Some x else first_block k),
             available_blocks := available_blocks k + 1\<rparr>)"

lemma add_to_available_list_eq:
  assumes "get_bucket (block_log2size a x) = Inr b" "x < max_blocks a"
    "case first_block (buckets a b) of None \<Rightarrow> f = x \<and> l = x
     | Some g \<Rightarrow> f = g \<and> prv a f = Some l \<and> f < max_blocks a \<and> l < max_blocks a \<and> x \<noteq> f \<and> x \<noteq> l"
  shows "add_to_available_list a x = Inr (linked a b x f l)"
proof (cases "first_block (buckets a b)")
  case None
  with assms have "f = x" "l = x" by simp_all
  moreover have "(blocks a)(x := (blocks a x)\<lparr>blk_next := Some x, blk_prev := Some x\<rparr>) =
      (\<lambda>i. (blocks a i)\<lparr>blk_next := ((((nxt a)(x := Some x))(x := Some x)) i),
             blk_prev := ((((prv a)(x := Some x))(x := Some x)) i)\<rparr>)"
    by (auto simp: fun_eq_iff)
  ultimately show ?thesis
    using None assms by (simp add: add_to_available_list_def upd_blk_def linked_def upd_bucket_def)
next
  case (Some g)
  let ?b1 = "(blocks a)(f := (blocks a f)\<lparr>blk_prev := Some x\<rparr>)"
  let ?b2 = "?b1(l := (?b1 l)\<lparr>blk_next := Some x\<rparr>)"
  let ?b3 = "?b2(x := (?b2 x)\<lparr>blk_next := Some f, blk_prev := Some l\<rparr>)"
  have "?b3 = (\<lambda>i. (blocks a i)\<lparr>blk_next := ((((nxt a)(l := Some x))(x := Some f)) i),
             blk_prev := ((((prv a)(f := Some x))(x := Some l)) i)\<rparr>)"
    by (auto simp: fun_eq_iff)
  note b3 = this
  have p: "f = g" "prv a g = Some l" "g < max_blocks a" "l < max_blocks a" "x \<noteq> g" "x \<noteq> l"
    using Some assms(3) by auto
  have same: "k\<lparr>first_block := Some g, available_blocks := v\<rparr> = k\<lparr>available_blocks := v\<rparr>"
    if "first_block k = Some g" for k :: Bucket and v using that by (cases k) simp
  have "add_to_available_list a x =
      Inr (upd_bucket (a\<lparr>blocks := ?b3\<rparr>) b (\<lambda>k. k\<lparr>available_blocks := available_blocks k + 1\<rparr>))"
    using Some assms(1,2) p by (simp add: add_to_available_list_def upd_blk_def blk_def)
  also have "\<dots> = Inr (linked a b x f l)"
    unfolding b3 using Some by (simp add: linked_def upd_bucket_def same)
  finally show ?thesis .
qed

lemma linked_simps:
  "rest (linked a b x f l) = rest a"
  "nxt (linked a b x f l) = ((nxt a)(l := Some x))(x := Some f)"
  "prv (linked a b x f l) = ((prv a)(f := Some x))(x := Some l)"
  "first_block (buckets (linked a b x f l) b) =
     (if first_block (buckets a b) = None then Some x else first_block (buckets a b))"
  "available_blocks (buckets (linked a b x f l) b) = available_blocks (buckets a b) + 1"
  "c \<noteq> b \<Longrightarrow> buckets (linked a b x f l) c = buckets a c"
  by (auto simp: rest_def linked_def upd_bucket_def fun_eq_iff)

lemma add_ok:
  assumes g: "geom a" and ok: "lists_ok a fl" and x: "in_tree a x" "lev a x = l" "x \<notin> set (fl l)"
  shows "\<exists>a'. add_to_available_list a x = Inr a' \<and> rest a' = rest a \<and>
    lists_ok a' (fl(l := fl l @ [x]))"
proof -
  have l: "16 \<le> l" "l \<le> root_log2size a" using lev_bounds [OF x(1)] x(2) by simp_all
  have lo: "list_ok a l (fl l)" using ok l by (simp add: lists_ok_def)
  then have ring: "ring (nxt a) (prv a) (fl l)" and head: "first_block (buckets a (l - 16)) = ring_head (fl l)"
    and mem: "\<And>y. y \<in> set (fl l) \<Longrightarrow> y < max_blocks a"
    using g by (auto simp: list_ok_def intro: in_tree_bound)
  have bkt: "get_bucket (block_log2size a x) = Inr (l - 16)" using get_bucket_lev [OF g x(1)] x by simp
  define f where "f = (if fl l = [] then x else hd (fl l))"
  define t where "t = (if fl l = [] then x else last (fl l))"
  let ?a = "linked a (l - 16) x f t"
  have a': "add_to_available_list a x = Inr ?a"
  proof (rule add_to_available_list_eq [OF bkt in_tree_bound [OF g x(1)]])
    show "case first_block (buckets a (l - 16)) of None \<Rightarrow> f = x \<and> t = x
     | Some g \<Rightarrow> f = g \<and> prv a f = Some t \<and> f < max_blocks a \<and> t < max_blocks a \<and> x \<noteq> f \<and> x \<noteq> t"
      using ring x(3) mem by (cases "fl l") (auto simp: head f_def t_def ring_def)
  qed
  note u = linked_simps [where a = a and b = "l - 16" and x = x and f = f and l = t]
  have root: "root_log2size ?a = root_log2size a" by (rule rest_eqD(2) [OF u(1)])
  have new: "list_ok ?a l (fl l @ [x])"
    unfolding list_ok_def
  proof (intro conjI)
    show "ring (nxt ?a) (prv ?a) (fl l @ [x])"
    proof (cases "fl l = []")
      case True
      then show ?thesis using fun_cong [OF u(2), of x] fun_cong [OF u(3), of x] by (simp add: f_def t_def)
    next
      case False
      then show ?thesis unfolding u(2,3) using ring x(3) by (intro ring_append) (simp_all add: f_def t_def)
    qed
    show "first_block (buckets ?a (l - 16)) = ring_head (fl l @ [x])"
      unfolding u(4) head by (cases "fl l") simp_all
    show "available_blocks (buckets ?a (l - 16)) = of_nat (length (fl l @ [x])) - of_bool (l = root_log2size ?a)"
      using lo unfolding u(5) root by (simp add: list_ok_def)
    show "\<forall>y\<in>set (fl l @ [x]). in_tree ?a y \<and> lev ?a y = l"
      using lo x by (auto simp: list_ok_def rest_eqD(8,9) [OF u(1)])
  qed
  have "f \<in> set (fl l @ [x])" "t \<in> set (fl l @ [x])" by (auto simp: f_def t_def)
  moreover have "nxt ?a y = (((nxt a)(t := Some x))(x := Some f)) y"
    "prv ?a y = (((prv a)(f := Some x))(x := Some t)) y" for y
    using fun_cong [OF u(2)] fun_cong [OF u(3)] by auto
  ultimately have "lists_ok ?a (fl(l := fl l @ [x]))"
    by (intro lists_ok_upd [OF ok root l new]) (auto simp: u(6))
  with a' u(1) show ?thesis by auto
qed

section \<open>Changes of flags\<close>

text \<open>Updating the flags of a block or a count of allocated blocks does not touch the lists.\<close>

lemma lists_ok_frame:
  assumes "lists_ok a fl" "root_log2size a' = root_log2size a"
    and "\<And>i. nxt a' i = nxt a i" "\<And>i. prv a' i = prv a i"
    and "\<And>b. first_block (buckets a' b) = first_block (buckets a b) \<and>
           available_blocks (buckets a' b) = available_blocks (buckets a b)"
  shows "lists_ok a' fl"
proof -
  have "ring (nxt a') (prv a') xs = ring (nxt a) (prv a) xs" for xs using assms(3,4) by (intro ring_cong) auto
  with assms show ?thesis by (simp add: lists_ok_def list_ok_def in_tree_def lev_def)
qed

lemma upd_blk_eq: "i < max_blocks a \<Longrightarrow> upd_blk a i f = Inr (a\<lparr>blocks := (blocks a)(i := f (blocks a i))\<rparr>)"
  by (simp add: upd_blk_def)

lemma blk_eq: "i < max_blocks a \<Longrightarrow> blk a i = Inr (blocks a i)"
  by (simp add: blk_def)

end
