(* ===== verification/Buddy_Tree.thy ===== *)
theory Buddy_Tree
  imports Buddy_Lists
begin

text \<open>
  The blocks of the buddy allocator as a partition of the region.  \<open>shape\<close> is the abstract
  state: the sets of free, allocated and split blocks (and at most one block that is on
  its way back) form a binary tree whose leaves are the free and the allocated blocks.
  Allocation and release refine steps on these sets.
\<close>

section \<open>The abstract state\<close>

definition buddy_of :: "nat \<Rightarrow> nat" where
  "buddy_of i = (if even i then i - 1 else i + 1)"

definition shape :: "nat \<Rightarrow> nat set \<Rightarrow> nat set \<Rightarrow> nat set \<Rightarrow> nat set \<Rightarrow> bool" where
  "shape R F A S X \<longleftrightarrow>
     16 \<le> R \<and> finite (F \<union> A \<union> S \<union> X) \<and>
     F \<inter> A = {} \<and> F \<inter> S = {} \<and> A \<inter> S = {} \<and> X \<inter> (F \<union> A \<union> S) = {} \<and>
     0 \<in> F \<union> A \<union> S \<union> X \<and>
     (\<forall>i. i \<noteq> 0 \<longrightarrow> (i \<in> F \<union> A \<union> S \<union> X \<longleftrightarrow> (i - 1) div 2 \<in> S)) \<and>
     (\<forall>i \<in> S. 17 + depth i \<le> R) \<and>
     (\<forall>i \<in> F. i \<noteq> 0 \<longrightarrow> buddy_of i \<notin> F) \<and>
     (\<Sum>i \<in> F \<union> A \<union> X. 2 ^ (R - depth i)) = (2 :: nat) ^ R"

text \<open>The part of the state that does not depend on which leaf is in which set.\<close>

definition tree_core :: "nat \<Rightarrow> nat set \<Rightarrow> nat set \<Rightarrow> bool" where
  "tree_core R U S \<longleftrightarrow>
     16 \<le> R \<and> finite (U \<union> S) \<and> 0 \<in> U \<union> S \<and>
     (\<forall>i. i \<noteq> 0 \<longrightarrow> (i \<in> U \<union> S \<longleftrightarrow> (i - 1) div 2 \<in> S)) \<and>
     (\<forall>i \<in> S. 17 + depth i \<le> R) \<and>
     (\<Sum>i \<in> U. 2 ^ (R - depth i)) = (2 :: nat) ^ R"

lemma shape_core:
  "shape R F A S X \<longleftrightarrow> tree_core R (F \<union> A \<union> X) S \<and>
     F \<inter> A = {} \<and> F \<inter> S = {} \<and> A \<inter> S = {} \<and> X \<inter> (F \<union> A \<union> S) = {} \<and>
     (\<forall>i \<in> F. i \<noteq> 0 \<longrightarrow> buddy_of i \<notin> F)"
proof -
  have "F \<union> A \<union> S \<union> X = F \<union> A \<union> X \<union> S" by auto
  then show ?thesis unfolding shape_def tree_core_def by (simp only:) argo
qed

lemma child_cases: "i \<noteq> 0 \<Longrightarrow> (i - 1) div 2 = p \<longleftrightarrow> i = 2 * p + 1 \<or> i = 2 * p + 2" for i p :: nat
  by auto

lemma buddy_of_props:
  assumes "i \<noteq> 0"
  shows "buddy_of i \<noteq> i" "buddy_of i \<noteq> 0" "(buddy_of i - 1) div 2 = (i - 1) div 2"
    "buddy_of (buddy_of i) = i" "depth (buddy_of i) = depth i"
proof -
  show p: "(buddy_of i - 1) div 2 = (i - 1) div 2" and n: "buddy_of i \<noteq> 0" "buddy_of i \<noteq> i"
    "buddy_of (buddy_of i) = i"
    using assms unfolding buddy_of_def by (auto split: if_splits) presburger+
  show "depth (buddy_of i) = depth i" using depth_parent [OF assms] depth_parent [OF n(1)] p by simp
qed

lemma shape_in_tree: "shape R F A S X \<Longrightarrow> i \<in> F \<union> A \<union> S \<union> X \<Longrightarrow> 16 + depth i \<le> R"
  by (cases "i = 0") (auto simp: shape_def depth_parent)

text \<open>A block changes hands: free to allocated, allocated to held, held to free.\<close>

lemma shape_take: "shape R F A S X \<Longrightarrow> x \<in> F \<Longrightarrow> shape R (F - {x}) (insert x A) S X"
proof -
  assume s: "shape R F A S X" and x: "x \<in> F"
  have "F - {x} \<union> insert x A \<union> X = F \<union> A \<union> X" using x by auto
  then show ?thesis using s x unfolding shape_core by (simp only:) blast
qed

lemma shape_hold: "shape R F A S {} \<Longrightarrow> b \<in> A \<Longrightarrow> shape R F (A - {b}) S {b}"
proof -
  assume s: "shape R F A S {}" and b: "b \<in> A"
  have "F \<union> (A - {b}) \<union> {b} = F \<union> A \<union> {}" using b by auto
  then show ?thesis using s b unfolding shape_core by (simp only:) blast
qed

lemma shape_buddy: "shape R F A S X \<Longrightarrow> i \<in> F \<Longrightarrow> i \<noteq> 0 \<Longrightarrow> buddy_of i \<notin> F"
  unfolding shape_core by (elim conjE) (drule (1) bspec, simp)

lemma shape_disjoint:
  "shape R F A S X \<Longrightarrow> F \<inter> A = {} \<and> F \<inter> S = {} \<and> A \<inter> S = {} \<and> X \<inter> (F \<union> A \<union> S) = {}"
  unfolding shape_core by (elim conjE) (intro conjI)

lemma shape_tree_core: "shape R F A S X \<Longrightarrow> tree_core R (F \<union> A \<union> X) S"
  unfolding shape_core by (elim conjE)

lemma shapeI:
  assumes "tree_core R U S" "U = F \<union> A \<union> X"
    "F \<inter> A = {} \<and> F \<inter> S = {} \<and> A \<inter> S = {} \<and> X \<inter> (F \<union> A \<union> S) = {}"
    "\<And>i. i \<in> F \<Longrightarrow> i \<noteq> 0 \<Longrightarrow> buddy_of i \<notin> F"
  shows "shape R F A S X"
  unfolding shape_core using assms(1,3,4) by (simp only: assms(2)) blast

lemma shape_put:
  assumes s: "shape R F A S {b}" and b: "b \<noteq> 0 \<Longrightarrow> buddy_of b \<notin> F"
  shows "shape R (insert b F) A S {}"
proof (rule shapeI [OF shape_tree_core [OF s]])
  fix i
  assume i: "i \<in> insert b F" "i \<noteq> 0"
  show "buddy_of i \<notin> insert b F"
  proof
    assume c: "buddy_of i \<in> insert b F"
    show False
    proof (cases "i = b")
      case True
      then show ?thesis using c b i buddy_of_props(1) by blast
    next
      case False
      then have "buddy_of i = b" using c i shape_buddy [OF s] by blast
      then show ?thesis using b buddy_of_props(2,4) [OF i(2)] i(1) False by fastforce
    qed
  qed
qed (use shape_disjoint [OF s] in auto)

text \<open>An allocated block is split: its left half is allocated, its right half free.\<close>

lemma shape_split:
  assumes s: "shape R F A S {}" and p: "p \<in> A" "17 + depth p \<le> R"
  shows "shape R (insert (2 * p + 2) F) (insert (2 * p + 1) (A - {p})) (insert p S) {}"
    and "2 * p + 1 \<notin> F \<union> A \<union> S" and "2 * p + 2 \<notin> F \<union> A \<union> S"
proof -
  let ?l = "2 * p + 1" and ?r = "2 * p + 2"
  have pS: "p \<notin> S" "p \<notin> F" using s p by (auto simp: shape_def)
  have iff: "i \<noteq> 0 \<Longrightarrow> i \<in> F \<union> A \<union> S \<longleftrightarrow> (i - 1) div 2 \<in> S" for i using s by (simp add: shape_def)
  show l: "?l \<notin> F \<union> A \<union> S" and r: "?r \<notin> F \<union> A \<union> S" using iff [of ?l] iff [of ?r] pS by auto
  let ?L = "insert ?r F \<union> insert ?l (A - {p}) \<union> insert p S \<union> {}"
  have L: "?L = insert ?l (insert ?r (F \<union> A \<union> S))" using p by auto
  have iff': "i \<in> ?L \<longleftrightarrow> (i - 1) div 2 \<in> insert p S" if "i \<noteq> 0" for i
    unfolding L using iff [OF that] child_cases [OF that, of p] by auto
  have U: "insert ?r F \<union> insert ?l (A - {p}) \<union> {} = insert ?l (insert ?r ((F \<union> A) - {p}))"
    using pS l r by auto
  have fin: "finite (F \<union> A)" using s by (simp add: shape_def)
  have "R - depth p = Suc (R - Suc (depth p))" using p by simp
  then have half: "(2::nat) ^ (R - depth p) = 2 * 2 ^ (R - Suc (depth p))" by simp
  have "(\<Sum>i\<in>F \<union> A. (2::nat) ^ (R - depth i)) =
      2 ^ (R - depth p) + (\<Sum>i\<in>(F \<union> A) - {p}. 2 ^ (R - depth i))"
    using fin p by (subst sum.remove [of _ p]) auto
  then have sum: "(\<Sum>i\<in>insert ?l (insert ?r ((F \<union> A) - {p})). (2::nat) ^ (R - depth i)) =
      (\<Sum>i\<in>F \<union> A. 2 ^ (R - depth i))"
    using fin l r half by (simp add: sum.insert)
  have buddy: "buddy_of i \<notin> insert ?r F" if "i \<in> insert ?r F" "i \<noteq> 0" for i
  proof (cases "i = ?r")
    case True
    then show ?thesis using l by (auto simp: buddy_of_def)
  next
    case False
    then have "buddy_of i \<notin> F" using that s by (auto simp: shape_def)
    moreover have "buddy_of i \<noteq> ?r" using that False l buddy_of_props(4) [of i] by (auto simp: buddy_of_def)
    ultimately show ?thesis by simp
  qed
  have eq: "(\<Sum>i\<in>F \<union> A. (2::nat) ^ (R - depth i)) = 2 ^ R" and R: "16 \<le> R"
    and lim: "\<And>i. i \<in> S \<Longrightarrow> 17 + depth i \<le> R" and zero: "0 \<in> F \<union> A \<union> S"
    and fin': "finite (F \<union> A \<union> S)"
    using s by (simp_all add: shape_def)
  have "tree_core R (insert ?l (insert ?r ((F \<union> A) - {p}))) (insert p S)"
    unfolding tree_core_def sum eq
  proof (intro conjI)
    have "insert ?l (insert ?r (F \<union> A - {p})) \<union> insert p S = ?L" by auto
    then show "\<forall>i. i \<noteq> 0 \<longrightarrow> (i \<in> insert ?l (insert ?r (F \<union> A - {p})) \<union> insert p S) =
        ((i - 1) div 2 \<in> insert p S)" using iff' by (simp only:) blast
  qed (use R fin' zero lim p in auto)
  then show "shape R (insert ?r F) (insert ?l (A - {p})) (insert p S) {}"
    by (rule shapeI) (use shape_disjoint [OF s] l r pS buddy U in \<open>auto\<close>)
qed

text \<open>A held block and its free buddy become the held parent.\<close>

lemma shape_merge:
  assumes s: "shape R F A S {b}" and b: "b \<noteq> 0" "buddy_of b \<in> F"
  defines "p \<equiv> (b - 1) div 2"
  shows "shape R (F - {buddy_of b}) A (S - {p}) {p}" and "p \<in> S"
proof -
  let ?c = "buddy_of b"
  have iff: "i \<noteq> 0 \<Longrightarrow> i \<in> F \<union> A \<union> S \<union> {b} \<longleftrightarrow> (i - 1) div 2 \<in> S" for i using s by (simp add: shape_def)
  show p: "p \<in> S" using iff [OF b(1)] by (simp add: p_def)
  have c: "?c \<noteq> b" "(?c - 1) div 2 = p" "depth ?c = depth b" "?c \<noteq> 0"
    using buddy_of_props [OF b(1)] by (simp_all add: p_def)
  have pair: "i \<noteq> 0 \<Longrightarrow> (i - 1) div 2 = p \<longleftrightarrow> i = b \<or> i = ?c" for i
    using child_cases [of i p] child_cases [of b p] child_cases [of ?c p] b(1) c p_def by auto
  have disj: "b \<notin> F" "b \<notin> A" "b \<notin> S" "?c \<notin> A" "?c \<notin> S" "p \<notin> F" "p \<notin> A" "p \<noteq> b" "p \<noteq> ?c"
    using s b p by (auto simp: shape_def)
  let ?L = "F - {?c} \<union> A \<union> (S - {p}) \<union> {p}"
  have iff': "i \<in> ?L \<longleftrightarrow> (i - 1) div 2 \<in> S - {p}" if "i \<noteq> 0" for i
    using iff [OF that] pair [OF that] disj p by auto
  have fin: "finite (F \<union> A)" using s by (simp add: shape_def)
  have d: "depth b = Suc (depth p)" "17 + depth p \<le> R"
    using depth_parent [OF b(1)] p s by (auto simp: p_def shape_def)
  then have half: "(2::nat) ^ (R - depth p) = 2 ^ (R - depth b) + 2 ^ (R - depth ?c)"
    using c(3) Suc_diff_Suc [of "depth p" R] power_Suc [of "2::nat" "R - Suc (depth p)"] by simp
  have U: "F - {?c} \<union> A \<union> {p} = insert p ((F \<union> A) - {?c})" "F \<union> A \<union> {b} = insert b (F \<union> A)"
    using disj by auto
  have "(\<Sum>i\<in>F \<union> A. (2::nat) ^ (R - depth i)) =
      2 ^ (R - depth ?c) + (\<Sum>i\<in>(F \<union> A) - {?c}. 2 ^ (R - depth i))"
    using fin b by (subst sum.remove [of _ ?c]) auto
  then have sum: "(\<Sum>i\<in>insert p ((F \<union> A) - {?c}). (2::nat) ^ (R - depth i)) =
      (\<Sum>i\<in>insert b (F \<union> A). 2 ^ (R - depth i))"
    using fin disj half by (simp add: sum.insert)
  have eq: "(\<Sum>i\<in>insert b (F \<union> A). (2::nat) ^ (R - depth i)) = 2 ^ R" and R: "16 \<le> R"
    and lim: "\<And>i. i \<in> S \<Longrightarrow> 17 + depth i \<le> R" and zero: "0 \<in> F \<union> A \<union> S"
    and fin': "finite (F \<union> A \<union> S)"
    using s b by (simp_all add: shape_def)
  have "tree_core R (insert p ((F \<union> A) - {?c})) (S - {p})"
    unfolding tree_core_def sum eq
  proof (intro conjI)
    have "insert p (F \<union> A - {?c}) \<union> (S - {p}) = ?L" using disj by auto
    then show "\<forall>i. i \<noteq> 0 \<longrightarrow> (i \<in> insert p (F \<union> A - {?c}) \<union> (S - {p})) =
        ((i - 1) div 2 \<in> S - {p})" using iff' by (simp only:) blast
  qed (use R fin' zero lim c in auto)
  then show "shape R (F - {?c}) A (S - {p}) {p}"
    by (rule shapeI) (use shape_disjoint [OF s] disj shape_buddy [OF s] U in \<open>auto\<close>)
qed

text \<open>With nothing allocated the region is one free block again.\<close>

lemma shape_empty:
  assumes s: "shape R F {} S {}"
  shows "F = {0} \<and> S = {}"
proof -
  have iff: "i \<noteq> 0 \<Longrightarrow> i \<in> F \<union> S \<longleftrightarrow> (i - 1) div 2 \<in> S" for i using s by (simp add: shape_def)
  have "S = {}"
  proof (rule ccontr)
    assume "S \<noteq> {}"
    moreover have "finite S" using s by (simp add: shape_def)
    ultimately have m: "Max S \<in> S" "\<And>i. i \<in> S \<Longrightarrow> i \<le> Max S" by simp_all
    let ?m = "Max S"
    have "2 * ?m + 1 \<notin> S" "2 * ?m + 2 \<notin> S" using m(2) [of "2 * ?m + 1"] m(2) [of "2 * ?m + 2"] by auto
    with iff [of "2 * ?m + 1"] iff [of "2 * ?m + 2"] m(1)
    have "2 * ?m + 1 \<in> F" "2 * ?m + 2 \<in> F" by auto
    moreover have "buddy_of (2 * ?m + 1) = 2 * ?m + 2" by (simp add: buddy_of_def)
    ultimately show False using s by (auto simp: shape_def)
  qed
  moreover have "i \<in> F \<longleftrightarrow> i = 0" for i
    using iff [of i] s \<open>S = {}\<close> by (cases "i = 0") (auto simp: shape_def)
  ultimately show ?thesis by auto
qed

end
