(* ===== verification/Buddy_Correct.thy ===== *)
theory Buddy_Correct
  imports Buddy_Tree
begin

text \<open>
  Correctness of the buddy allocator's operations: the invariant that ties the block array, the
  flags, the free lists and the counters to the abstract state of \<open>Buddy_Tree\<close>, and that
  allocation and release keep it without faulting.
\<close>

section \<open>The free blocks of the lists\<close>

definition free_set :: "BuddyAllocator \<Rightarrow> (nat \<Rightarrow> nat list) \<Rightarrow> nat set" where
  "free_set a fl = (\<Union>l \<in> {16..root_log2size a}. set (fl l))"

lemma lists_okD:
  "lists_ok a fl \<Longrightarrow> 16 \<le> l \<Longrightarrow> l \<le> root_log2size a \<Longrightarrow> x \<in> set (fl l) \<Longrightarrow> in_tree a x \<and> lev a x = l"
  by (auto simp: lists_ok_def list_ok_def)

lemma free_set_iff:
  assumes "lists_ok a fl"
  shows "x \<in> free_set a fl \<longleftrightarrow> in_tree a x \<and> x \<in> set (fl (lev a x))"
proof
  assume "x \<in> free_set a fl"
  then obtain l where l: "16 \<le> l" "l \<le> root_log2size a" "x \<in> set (fl l)" by (auto simp: free_set_def)
  then show "in_tree a x \<and> x \<in> set (fl (lev a x))" using lists_okD [OF assms l] by simp
next
  assume x: "in_tree a x \<and> x \<in> set (fl (lev a x))"
  then have "lev a x \<in> {16..root_log2size a}" using lev_bounds by simp
  then show "x \<in> free_set a fl" using x unfolding free_set_def by blast
qed

lemma free_set_cong: "root_log2size a' = root_log2size a \<Longrightarrow> free_set a' fl = free_set a fl"
  by (simp add: free_set_def)

lemma free_set_remove:
  assumes ok: "lists_ok a fl" and ok': "lists_ok a' (fl(l := remove1 x (fl l)))"
    and r: "root_log2size a' = root_log2size a" and x: "x \<in> set (fl l)" and l: "16 \<le> l" "l \<le> root_log2size a"
  shows "free_set a' (fl(l := remove1 x (fl l))) = free_set a fl - {x}"
proof -
  have lv: "lev a x = l" using lists_okD [OF ok l x] by simp
  have d: "distinct (fl l)" using ok l by (simp add: lists_ok_def list_ok_def ring_def)
  have same: "in_tree a' y = in_tree a y" "lev a' y = lev a y" for y by (simp_all add: in_tree_def lev_def r)
  show ?thesis
    unfolding set_eq_iff Diff_iff free_set_iff [OF ok] free_set_iff [OF ok'] same using lv d by auto
qed

lemma free_set_add:
  assumes ok: "lists_ok a fl" and ok': "lists_ok a' (fl(l := fl l @ [x]))"
    and r: "root_log2size a' = root_log2size a" and x: "in_tree a x" "lev a x = l"
  shows "free_set a' (fl(l := fl l @ [x])) = insert x (free_set a fl)"
proof -
  have same: "in_tree a' y = in_tree a y" "lev a' y = lev a y" for y by (simp_all add: in_tree_def lev_def r)
  show ?thesis
    unfolding set_eq_iff insert_iff free_set_iff [OF ok] free_set_iff [OF ok'] same using x by auto
qed

section \<open>The invariant\<close>

definition flags_ok :: "BuddyAllocator \<Rightarrow> nat set \<Rightarrow> nat set \<Rightarrow> nat set \<Rightarrow> nat set \<Rightarrow> bool" where
  "flags_ok a F A S X \<longleftrightarrow>
     (\<forall>i \<in> F. available (blocks a i)) \<and> (\<forall>i \<in> A \<union> S. \<not> available (blocks a i)) \<and>
     (\<forall>i \<in> F \<union> A \<union> S \<union> X. valid (blocks a i))"

text \<open>The state of the block array and of the lists, with the blocks of \<open>A\<close> allocated and those of
  \<open>X\<close> in the hands of a running operation.\<close>

definition heap_ok :: "BuddyAllocator \<Rightarrow> (nat \<Rightarrow> nat list) \<Rightarrow> nat set \<Rightarrow> nat set \<Rightarrow> nat set \<Rightarrow> bool" where
  "heap_ok a fl A S X \<longleftrightarrow>
     geom a \<and> lists_ok a fl \<and> shape (root_log2size a) (free_set a fl) A S X \<and>
     flags_ok a (free_set a fl) A S X"

text \<open>What allocation and release of blocks leave alone: all but flags, links and list counts.\<close>

definition dims :: "BuddyAllocator \<Rightarrow> u64 \<times> nat \<times> nat \<times> (nat \<Rightarrow> nat \<times> u64)" where
  "dims a = (phy_start a, root_log2size a, max_blocks a,
     (\<lambda>b. (bkt_log2size (buckets a b), allocated_blocks (buckets a b))))"

lemma dims_rest: "rest a' = rest a \<Longrightarrow> dims a' = dims a"
  by (simp add: dims_def rest_def)

lemma dims_eqD:
  assumes "dims a' = dims a"
  shows "phy_start a' = phy_start a" "root_log2size a' = root_log2size a" "max_blocks a' = max_blocks a"
    "allocated_blocks (buckets a' b) = allocated_blocks (buckets a b)"
    "bkt_log2size (buckets a' b) = bkt_log2size (buckets a b)"
    "in_tree a' i = in_tree a i" "lev a' i = lev a i" "geom a' = geom a"
  using assms by (auto simp: dims_def in_tree_def lev_def geom_def fun_eq_iff)

lemma flags_ok_rest: "rest a' = rest a \<Longrightarrow> flags_ok a' F A S X = flags_ok a F A S X"
  by (simp add: flags_ok_def rest_eqD(4,5) [of a' a])

text \<open>Setting the two flags of a block.\<close>

definition flagged :: "BuddyAllocator \<Rightarrow> nat \<Rightarrow> bool \<Rightarrow> bool \<Rightarrow> BuddyAllocator" where
  "flagged a i av va = a\<lparr>blocks := (blocks a)(i := (blocks a i)\<lparr>available := av, valid := va\<rparr>)\<rparr>"

lemma flagged_simps [simp]:
  "dims (flagged a i av va) = dims a" "geom (flagged a i av va) = geom a"
  "root_log2size (flagged a i av va) = root_log2size a" "max_blocks (flagged a i av va) = max_blocks a"
  "free_set (flagged a i av va) fl = free_set a fl" "in_tree (flagged a i av va) j = in_tree a j"
  "lev (flagged a i av va) j = lev a j" "buckets (flagged a i av va) = buckets a"
  by (simp_all add: flagged_def dims_def geom_def free_set_def in_tree_def lev_def)

lemma flagged_flags [simp]:
  "available (blocks (flagged a i av va) j) = (if j = i then av else available (blocks a j))"
  "valid (blocks (flagged a i av va) j) = (if j = i then va else valid (blocks a j))"
  by (simp_all add: flagged_def)

lemma lists_ok_flagged [simp]: "lists_ok (flagged a i av va) fl = lists_ok a fl"
proof
  show "lists_ok a fl" if "lists_ok (flagged a i av va) fl"
    by (rule lists_ok_frame [OF that]) (auto simp: flagged_def)
  show "lists_ok (flagged a i av va) fl" if "lists_ok a fl"
    by (rule lists_ok_frame [OF that]) (auto simp: flagged_def)
qed

lemma upd_blk_flagged:
  assumes "i < max_blocks a"
  shows "upd_blk a i (\<lambda>x. x\<lparr>available := v, valid := w\<rparr>) = Inr (flagged a i v w)"
    "upd_blk a i (\<lambda>x. x\<lparr>available := v\<rparr>) = Inr (flagged a i v (valid (blocks a i)))"
    "upd_blk a i (\<lambda>x. x\<lparr>valid := w\<rparr>) = Inr (flagged a i (available (blocks a i)) w)"
  using assms by (simp_all add: upd_blk_eq flagged_def)

section \<open>Allocation of a block\<close>

lemma heap_ok_in_tree:
  assumes "heap_ok a fl A S X" "i \<in> free_set a fl \<union> A \<union> S \<union> X"
  shows "in_tree a i" "i < max_blocks a"
proof -
  show "in_tree a i" using assms shape_in_tree by (auto simp: heap_ok_def in_tree_def)
  then show "i < max_blocks a" using assms in_tree_bound by (auto simp: heap_ok_def)
qed

text \<open>The first free block of a level is taken off its list.\<close>

lemma take_first_ok:
  assumes h: "heap_ok a fl A S {}" and f: "f \<in> set (fl l)" and l: "16 \<le> l" "l \<le> root_log2size a"
  shows "\<exists>a'. bindR (upd_blk a f (\<lambda>x. x\<lparr>available := False\<rparr>)) (\<lambda>a1. remove_from_available_list a1 f) = Inr a' \<and>
    heap_ok a' (fl(l := remove1 f (fl l))) (insert f A) S {} \<and> dims a' = dims a"
proof -
  have g: "geom a" and ok: "lists_ok a fl" and s: "shape (root_log2size a) (free_set a fl) A S {}"
    and fg: "flags_ok a (free_set a fl) A S {}" using h by (simp_all add: heap_ok_def)
  have F: "f \<in> free_set a fl" using f l by (auto simp: free_set_def)
  then have m: "f < max_blocks a" using heap_ok_in_tree [OF h] by blast
  let ?a1 = "flagged a f False (valid (blocks a f))"
  obtain a' where a': "remove_from_available_list ?a1 f = Inr a'" "rest a' = rest ?a1"
    "lists_ok a' (fl(l := remove1 f (fl l)))"
    using remove_ok [of ?a1 fl f l] g ok f l by auto
  have r: "root_log2size a' = root_log2size a" using rest_eqD(2) [OF a'(2)] by simp
  have fs: "free_set a' (fl(l := remove1 f (fl l))) = free_set a fl - {f}"
    by (rule free_set_remove [OF ok a'(3) r f l])
  have d: "dims a' = dims a" using dims_rest [OF a'(2)] by simp
  have "flags_ok a' (free_set a fl - {f}) (insert f A) S {}"
    unfolding flags_ok_rest [OF a'(2)] using fg F shape_disjoint [OF s] by (auto simp: flags_ok_def)
  then have "heap_ok a' (fl(l := remove1 f (fl l))) (insert f A) S {}"
    unfolding heap_ok_def fs r using a'(3) shape_take [OF s F] g dims_eqD(8) [OF d] by simp
  then show ?thesis using a'(1) d by (simp add: upd_blk_flagged m)
qed

text \<open>A block just allocated is split.\<close>

lemma split_ok:
  assumes h: "heap_ok a fl A S {}" and p: "p \<in> A" "17 + depth p \<le> root_log2size a"
  shows "\<exists>a' fl'. bindR (upd_blk a (2 * p + 1) (\<lambda>x. x\<lparr>available := False, valid := True\<rparr>)) (\<lambda>a2.
      bindR (upd_blk a2 (2 * p + 2) (\<lambda>x. x\<lparr>available := True, valid := True\<rparr>)) (\<lambda>a3.
        add_to_available_list a3 (2 * p + 2))) = Inr a' \<and>
    heap_ok a' fl' (insert (2 * p + 1) (A - {p})) (insert p S) {} \<and> dims a' = dims a"
proof -
  let ?l = "2 * p + 1" and ?r = "2 * p + 2"
  let ?F = "free_set a fl"
  have g: "geom a" and ok: "lists_ok a fl" and s: "shape (root_log2size a) ?F A S {}"
    and fg: "flags_ok a ?F A S {}" using h by (simp_all add: heap_ok_def)
  note sp = shape_split [OF s p]
  have t: "in_tree a ?l" "in_tree a ?r" using p(2) by (simp_all add: in_tree_def)
  then have m: "?l < max_blocks a" "?r < max_blocks a" using in_tree_bound [OF g] by blast+
  let ?a3 = "flagged (flagged a ?l False True) ?r True True"
  have new: "?r \<notin> set (fl (lev a ?r))" using sp(3) t(2) free_set_iff [OF ok] by blast
  obtain a' where a': "add_to_available_list ?a3 ?r = Inr a'" "rest a' = rest ?a3"
    "lists_ok a' (fl(lev a ?r := fl (lev a ?r) @ [?r]))"
    using add_ok [of ?a3 fl ?r "lev a ?r"] g ok t new by auto
  have r: "root_log2size a' = root_log2size a" using rest_eqD(2) [OF a'(2)] by simp
  have fs: "free_set a' (fl(lev a ?r := fl (lev a ?r) @ [?r])) = insert ?r ?F"
    by (rule free_set_add [OF ok a'(3) r t(2) refl])
  have d: "dims a' = dims a" using dims_rest [OF a'(2)] by simp
  have "flags_ok a' (insert ?r ?F) (insert ?l (A - {p})) (insert p S) {}"
    unfolding flags_ok_rest [OF a'(2)] using fg sp(2,3) p(1) by (auto simp: flags_ok_def)
  then have "heap_ok a' (fl(lev a ?r := fl (lev a ?r) @ [?r])) (insert ?l (A - {p})) (insert p S) {}"
    unfolding heap_ok_def fs r using a'(3) sp(1) g dims_eqD(8) [OF d] by simp
  then show ?thesis using a'(1) d m by (simp add: upd_blk_flagged) blast
qed


text \<open>Allocation of a block of a given size: a free block of that size, cut out of the smallest
  larger free block if need be; none exactly if no free block is large enough.\<close>

lemma first_block_eq:
  "lists_ok a fl \<Longrightarrow> 16 \<le> l \<Longrightarrow> l \<le> root_log2size a \<Longrightarrow> first_block (buckets a (l - 16)) = ring_head (fl l)"
  by (simp add: lists_ok_def list_ok_def)

text \<open>The continuation of \<open>alloc_block_size\<close> after the call for the next larger size.\<close>

abbreviation halve :: "nat option \<times> BuddyAllocator \<Rightarrow> (nat option \<times> BuddyAllocator) res" where
  "halve \<equiv> (\<lambda>(parent, a1).
              case parent of
                None \<Rightarrow> Inr (None, a1)
              | Some p \<Rightarrow>
                  (case (get_left a1 p, get_right a1 p) of
                     (Some left, Some right) \<Rightarrow>
                       bindR (upd_blk a1 left (\<lambda>x. x\<lparr>available := False, valid := True\<rparr>)) (\<lambda>a2.
                       bindR (upd_blk a2 right (\<lambda>x. x\<lparr>available := True, valid := True\<rparr>)) (\<lambda>a3.
                       bindR (add_to_available_list a3 right) (\<lambda>a4.
                       Inr (Some left, a4))))
                   | _ \<Rightarrow> Inl (Undefined ''null pointer'')))"

lemma alloc_split_step:
  assumes unf: "alloc_block_size a l = bindR (alloc_block_size a (l + 1)) halve"
    and p: "alloc_block_size a (l + 1) = Inr (Some p, a1)" "p \<notin> A" "in_tree a p" "lev a p = l + 1"
    and h1: "heap_ok a1 fl1 (insert p A) S1 {}" and d1: "dims a1 = dims a" and l: "16 \<le> l"
  shows "\<exists>b a' fl' S'. alloc_block_size a l = Inr (Some b, a') \<and> b \<notin> A \<and> in_tree a b \<and> lev a b = l \<and>
       heap_ok a' fl' (insert b A) S' {} \<and> dims a' = dims a"
proof -
  have dp: "17 + depth p \<le> root_log2size a" using p(4) l by (simp add: lev_def)
  then have dp1: "17 + depth p \<le> root_log2size a1" using dims_eqD(2) [OF d1] by simp
  have g1: "geom a1" and s1: "shape (root_log2size a1) (free_set a1 fl1) (insert p A) S1 {}"
    using h1 by (simp_all add: heap_ok_def)
  have t: "in_tree a (2 * p + 1)" "in_tree a (2 * p + 2)" "lev a (2 * p + 1) = l"
    using dp p(4) by (simp_all add: in_tree_def lev_def)
  then have m: "2 * p + 1 < max_blocks a1" "2 * p + 2 < max_blocks a1"
    using in_tree_bound [OF g1] dims_eqD(6) [OF d1] by blast+
  have lr: "get_left a1 p = Some (2 * p + 1)" "get_right a1 p = Some (2 * p + 2)"
    using m by (simp_all add: get_left_def get_right_def)
  obtain a' fl' where a': "bindR (upd_blk a1 (2 * p + 1) (\<lambda>x. x\<lparr>available := False, valid := True\<rparr>)) (\<lambda>a2.
      bindR (upd_blk a2 (2 * p + 2) (\<lambda>x. x\<lparr>available := True, valid := True\<rparr>)) (\<lambda>a3.
        add_to_available_list a3 (2 * p + 2))) = Inr a'"
    "heap_ok a' fl' (insert (2 * p + 1) (insert p A - {p})) (insert p S1) {}" "dims a' = dims a1"
    using split_ok [OF h1 insertI1 dp1] by blast
  have "alloc_block_size a l = Inr (Some (2 * p + 1), a')"
    unfolding unf p(1) using a'(1) lr by (auto simp: bindR_eq_Inr)
  moreover have "insert p A - {p} = A" using p(2) by auto
  moreover have "2 * p + 1 \<notin> A" using shape_split(2) [OF s1 insertI1 dp1] by blast
  ultimately show ?thesis using a' t d1 by metis
qed

lemma alloc_block_size_ok:
  assumes "heap_ok a fl A S {}" "16 \<le> l"
  shows "(\<exists>b a' fl' S'. alloc_block_size a l = Inr (Some b, a') \<and> b \<notin> A \<and> in_tree a b \<and> lev a b = l \<and>
       heap_ok a' fl' (insert b A) S' {} \<and> dims a' = dims a) \<or>
     (alloc_block_size a l = Inr (None, a) \<and> (\<forall>k. l \<le> k \<longrightarrow> k \<le> root_log2size a \<longrightarrow> fl k = []))"
  using assms
proof (induction "Suc (root_log2size a) - l" arbitrary: l)
  case 0
  then show ?case by (auto simp: alloc_block_size.simps [of a l])
next
  case (Suc n)
  note h = Suc.prems(1) and l = Suc.prems(2)
  have lr: "l \<le> root_log2size a" using Suc.hyps(2) by simp
  have g: "geom a" and ok: "lists_ok a fl" and s: "shape (root_log2size a) (free_set a fl) A S {}"
    using h by (simp_all add: heap_ok_def)
  have bkt: "get_bucket l = Inr (l - 16)" using l lr g by (simp add: get_bucket_ok geom_def)
  note first = first_block_eq [OF ok l lr]
  show ?case
  proof (cases "fl l")
    case (Cons f r)
    have t: "in_tree a f \<and> lev a f = l" using lists_okD [OF ok l lr] Cons by simp
    have "f \<in> free_set a fl" using Cons l lr unfolding free_set_def by (auto intro!: bexI [of _ l])
    then have "f \<notin> A" using shape_disjoint [OF s] by blast
    moreover obtain a' where "bindR (upd_blk a f (\<lambda>x. x\<lparr>available := False\<rparr>))
        (\<lambda>a1. remove_from_available_list a1 f) = Inr a'"
      "heap_ok a' (fl(l := remove1 f (fl l))) (insert f A) S {}" "dims a' = dims a"
      using take_first_ok [OF h _ l lr, of f] Cons by auto
    moreover from this have "alloc_block_size a l = Inr (Some f, a')"
      using lr bkt first Cons by (auto simp: alloc_block_size.simps [of a l] ring_head_def bindR_eq_Inr)
    ultimately show ?thesis using t by blast
  next
    case Nil
    have unf: "alloc_block_size a l = bindR (alloc_block_size a (l + 1)) halve"
      using lr bkt first Nil by (simp add: alloc_block_size.simps [of a l] ring_head_def)
    have "n = Suc (root_log2size a) - (l + 1)" "16 \<le> l + 1" using Suc.hyps(2) l by auto
    from Suc.hyps(1) [OF this(1) h this(2)] show ?thesis
    proof (elim disjE exE conjE)
      assume none: "alloc_block_size a (l + 1) = Inr (None, a)"
        "\<forall>k. l + 1 \<le> k \<longrightarrow> k \<le> root_log2size a \<longrightarrow> fl k = []"
      have "fl k = []" if "l \<le> k" "k \<le> root_log2size a" for k
        using that none(2) Nil by (cases "k = l") auto
      then show ?thesis using unf none(1) by simp
    next
      fix p a1 fl1 S1
      assume p: "alloc_block_size a (l + 1) = Inr (Some p, a1)" "p \<notin> A" "in_tree a p" "lev a p = l + 1"
        and h1: "heap_ok a1 fl1 (insert p A) S1 {}" and d1: "dims a1 = dims a"
      show ?thesis by (rule disjI1) (rule alloc_split_step [OF unf p h1 d1 l])
    qed
  qed
qed

section \<open>Release of a block\<close>

lemma get_buddy_eq: "i \<noteq> 0 \<Longrightarrow> get_buddy i = Some (buddy_of i)"
  by (auto simp: get_buddy_def buddy_of_def even_iff_mod_2_eq_zero)

lemma get_parent_eq: "i \<noteq> 0 \<Longrightarrow> get_parent i = Some ((i - 1) div 2)"
  by (simp add: get_parent_def)

lemma buddy_held:
  assumes s: "shape R F A S {b}" and b: "b \<noteq> 0"
  shows "buddy_of b \<in> F \<union> A \<union> S"
proof -
  have "i \<noteq> 0 \<Longrightarrow> i \<in> F \<union> A \<union> S \<union> {b} \<longleftrightarrow> (i - 1) div 2 \<in> S" for i using s by (simp add: shape_def)
  from this [OF b] this [OF buddy_of_props(2) [OF b]] buddy_of_props [OF b] show ?thesis by auto
qed

text \<open>One round of the merge: the free buddy leaves its list, the parent is held instead.\<close>

lemma merge_step:
  assumes h: "heap_ok a fl A S {b}" and b: "b \<noteq> 0" "buddy_of b \<in> free_set a fl"
  shows "\<exists>a' fl'. try_merge_with_buddy a b = try_merge_with_buddy a' ((b - 1) div 2) \<and>
    heap_ok a' fl' A (S - {(b - 1) div 2}) {(b - 1) div 2} \<and> dims a' = dims a"
proof -
  let ?c = "buddy_of b" and ?p = "(b - 1) div 2" and ?F = "free_set a fl"
  have g: "geom a" and ok: "lists_ok a fl" and s: "shape (root_log2size a) ?F A S {b}"
    and fg: "flags_ok a ?F A S {b}" using h by (simp_all add: heap_ok_def)
  note mg = shape_merge [OF s b]
  have m: "b < max_blocks a" "?c < max_blocks a" "?p < max_blocks a"
    using heap_ok_in_tree(2) [OF h] b(2) mg(2) by blast+
  let ?l = "lev a ?c"
  have c: "?c \<in> set (fl ?l)" "16 \<le> ?l" "?l \<le> root_log2size a"
    using b(2) lev_bounds [of a ?c] by (auto simp: free_set_iff [OF ok])
  obtain a1 where a1: "remove_from_available_list a ?c = Inr a1" "rest a1 = rest a"
    "lists_ok a1 (fl(?l := remove1 ?c (fl ?l)))"
    using remove_ok [OF g ok c] by blast
  have r: "root_log2size a1 = root_log2size a" "max_blocks a1 = max_blocks a"
    using rest_eqD(2,3) [OF a1(2)] by auto
  have fs: "free_set a1 (fl(?l := remove1 ?c (fl ?l))) = ?F - {?c}"
    by (rule free_set_remove [OF ok a1(3) r(1) c])
  have ne: "?p \<noteq> ?c" "?p \<noteq> b" "?c \<noteq> b" using mg(2) b shape_disjoint [OF s] buddy_of_props(1) by auto
  have P: "\<not> available (blocks a1 ?p)" "valid (blocks a1 ?p)" "available (blocks a ?c)"
    using fg mg(2) b(2) by (auto simp: flags_ok_def rest_eqD(4,5) [OF a1(2)])
  define a' where "a' = flagged (flagged (flagged a1 ?c (available (blocks a1 ?c)) False) ?p True True) b
    (available (blocks a1 b)) False"
  have "try_merge_with_buddy a b = try_merge_with_buddy a' ?p"
    using b(1) a1(1) m r P ne
    by (simp add: try_merge_with_buddy.simps [of a b] get_buddy_eq get_parent_eq blk_eq
        upd_blk_flagged a'_def)
  moreover have d: "dims a' = dims a" using dims_rest [OF a1(2)] by (simp add: a'_def)
  moreover have "flags_ok a' (?F - {?c}) A (S - {?p}) {?p}"
    using fg shape_disjoint [OF s] b(2) mg(2) ne
    by (auto simp: flags_ok_def a'_def rest_eqD(4,5) [OF a1(2)])
  then have "heap_ok a' (fl(?l := remove1 ?c (fl ?l))) A (S - {?p}) {?p}"
    using g dims_eqD(8) [OF d] a1(3) mg(1) fs r by (simp add: heap_ok_def a'_def)
  ultimately show ?thesis by blast
qed

text \<open>Merging goes on until the held block is the root or its buddy is in use.\<close>

lemma try_merge_ok:
  assumes "heap_ok a fl A S {b}"
  shows "\<exists>m a' fl' S'. try_merge_with_buddy a b = Inr (m, a') \<and> heap_ok a' fl' A S' {m} \<and>
    dims a' = dims a \<and> (m \<noteq> 0 \<longrightarrow> buddy_of m \<notin> free_set a' fl')"
  using assms
proof (induction b arbitrary: a fl S rule: less_induct)
  case (less b)
  have s: "shape (root_log2size a) (free_set a fl) A S {b}" and fg: "flags_ok a (free_set a fl) A S {b}"
    using less.prems by (simp_all add: heap_ok_def)
  show ?case
  proof (cases "b \<noteq> 0 \<and> buddy_of b \<in> free_set a fl")
    case True
    then obtain a' fl' where a': "try_merge_with_buddy a b = try_merge_with_buddy a' ((b - 1) div 2)"
      "heap_ok a' fl' A (S - {(b - 1) div 2}) {(b - 1) div 2}" "dims a' = dims a"
      using merge_step [OF less.prems] by blast
    have "(b - 1) div 2 < b" using True by auto
    from less.IH [OF this a'(2)] show ?thesis using a' by auto
  next
    case False
    have "try_merge_with_buddy a b = Inr (b, a)"
    proof (cases "b = 0")
      case True
      then show ?thesis by (simp add: try_merge_with_buddy.simps [of a 0] get_parent_def)
    next
      case b: False
      then have c: "buddy_of b \<in> A \<union> S" using False buddy_held [OF s b] by blast
      then have "buddy_of b < max_blocks a" using heap_ok_in_tree(2) [OF less.prems] by blast
      then show ?thesis using b c fg
        by (auto simp: try_merge_with_buddy.simps [of a b] get_buddy_eq get_parent_eq blk_eq flags_ok_def)
    qed
    then show ?thesis using less.prems False by blast
  qed
qed

text \<open>The merged block goes back to its list.\<close>

lemma put_back_ok:
  assumes h: "heap_ok a fl A S {m}" and m: "m \<noteq> 0 \<longrightarrow> buddy_of m \<notin> free_set a fl"
  shows "\<exists>a' fl'. bindR (upd_blk a m (\<lambda>x. x\<lparr>available := True\<rparr>)) (\<lambda>a1. add_to_available_list a1 m) = Inr a' \<and>
    heap_ok a' fl' A S {} \<and> dims a' = dims a"
proof -
  let ?F = "free_set a fl"
  have g: "geom a" and ok: "lists_ok a fl" and s: "shape (root_log2size a) ?F A S {m}"
    and fg: "flags_ok a ?F A S {m}" using h by (simp_all add: heap_ok_def)
  have t: "in_tree a m" "m < max_blocks a" using heap_ok_in_tree [OF h] by blast+
  let ?a1 = "flagged a m True (valid (blocks a m))"
  have new: "m \<notin> set (fl (lev a m))" using shape_disjoint [OF s] t(1) free_set_iff [OF ok] by blast
  obtain a' where a': "add_to_available_list ?a1 m = Inr a'" "rest a' = rest ?a1"
    "lists_ok a' (fl(lev a m := fl (lev a m) @ [m]))"
    using add_ok [of ?a1 fl m "lev a m"] g ok t new by auto
  have r: "root_log2size a' = root_log2size a" using rest_eqD(2) [OF a'(2)] by simp
  have fs: "free_set a' (fl(lev a m := fl (lev a m) @ [m])) = insert m ?F"
    by (rule free_set_add [OF ok a'(3) r t(1) refl])
  have d: "dims a' = dims a" using dims_rest [OF a'(2)] by simp
  have "flags_ok a' (insert m ?F) A S {}"
    unfolding flags_ok_rest [OF a'(2)] using fg shape_disjoint [OF s] by (auto simp: flags_ok_def)
  then have "heap_ok a' (fl(lev a m := fl (lev a m) @ [m])) A S {}"
    unfolding heap_ok_def fs r using a'(3) shape_put [OF s] m g dims_eqD(8) [OF d] by auto
  then show ?thesis using a'(1) d t(2) by (simp add: upd_blk_flagged) blast
qed

section \<open>The public operations\<close>

text \<open>\<open>buddy_ok a A\<close>: the allocator is consistent and exactly the blocks of \<open>A\<close> are in use.\<close>

definition counts_ok :: "BuddyAllocator \<Rightarrow> nat set \<Rightarrow> bool" where
  "counts_ok a A \<longleftrightarrow> (\<forall>l. 16 \<le> l \<longrightarrow> l \<le> root_log2size a \<longrightarrow>
     bkt_log2size (buckets a (l - 16)) = l \<and>
     allocated_blocks (buckets a (l - 16)) = of_nat (card {b \<in> A. lev a b = l}))"

definition buddy_ok :: "BuddyAllocator \<Rightarrow> nat set \<Rightarrow> bool" where
  "buddy_ok a A \<longleftrightarrow> (\<exists>fl S. heap_ok a fl A S {}) \<and> counts_ok a A"

lemma buddy_okD:
  assumes "buddy_ok a A"
  shows "geom a" "finite A" "b \<in> A \<Longrightarrow> in_tree a b" "b \<in> A \<Longrightarrow> b < max_blocks a"
proof -
  obtain fl S where h: "heap_ok a fl A S {}" using assms by (auto simp: buddy_ok_def)
  then show "geom a" "finite A" by (auto simp: heap_ok_def shape_def)
  show "in_tree a b" "b < max_blocks a" if "b \<in> A" using heap_ok_in_tree [OF h] that by blast+
qed

text \<open>Changing a counter of allocated blocks.\<close>

definition counted :: "BuddyAllocator \<Rightarrow> nat \<Rightarrow> u64 \<Rightarrow> BuddyAllocator" where
  "counted a b d = upd_bucket a b (\<lambda>k. k\<lparr>allocated_blocks := allocated_blocks k + d\<rparr>)"

lemma counted_simps [simp]:
  "phy_start (counted a b d) = phy_start a" "root_log2size (counted a b d) = root_log2size a"
  "max_blocks (counted a b d) = max_blocks a" "blocks (counted a b d) = blocks a"
  "lev (counted a b d) i = lev a i" "in_tree (counted a b d) i = in_tree a i"
  "geom (counted a b d) = geom a" "free_set (counted a b d) fl = free_set a fl"
  "flags_ok (counted a b d) F A S X = flags_ok a F A S X"
  "bkt_log2size (buckets (counted a b d) k) = bkt_log2size (buckets a k)"
  "allocated_blocks (buckets (counted a b d) k) = allocated_blocks (buckets a k) + (if k = b then d else 0)"
  by (simp_all add: counted_def upd_bucket_def lev_def in_tree_def geom_def free_set_def flags_ok_def)

lemma heap_ok_counted: "heap_ok a fl A S X \<Longrightarrow> heap_ok (counted a b d) fl A S X"
proof -
  assume h: "heap_ok a fl A S X"
  then have "lists_ok a fl" by (simp add: heap_ok_def)
  then have "lists_ok (counted a b d) fl"
    by (rule lists_ok_frame) (simp_all add: counted_def upd_bucket_def)
  then show ?thesis using h by (simp add: heap_ok_def)
qed

lemma card_level_insert:
  "finite A \<Longrightarrow> b \<notin> A \<Longrightarrow> card {x \<in> insert b A. P x} = card {x \<in> A. P x} + of_bool (P b)"
proof -
  assume "finite A" "b \<notin> A"
  moreover have "{x \<in> insert b A. P x} = (if P b then insert b {x \<in> A. P x} else {x \<in> A. P x})" by auto
  ultimately show ?thesis by simp
qed

text \<open>Any larger size that fails has no free block; otherwise a new block of the size is in use.\<close>

lemma allocate_pages_ok:
  assumes ok: "buddy_ok a A" and l: "16 \<le> l"
  shows "(\<exists>b a'. allocate_pages a l = Inr (get_block_phy_addr a b, a') \<and> b \<notin> A \<and> in_tree a b \<and> lev a b = l \<and>
       buddy_ok a' (insert b A) \<and> phy_start a' = phy_start a \<and> root_log2size a' = root_log2size a) \<or>
     (allocate_pages a l = Inr (0, a) \<and>
       (\<forall>k. l \<le> k \<longrightarrow> k \<le> root_log2size a \<longrightarrow> first_block (buckets a (k - 16)) = None))"
proof -
  obtain fl S where h: "heap_ok a fl A S {}" and c: "counts_ok a A" using ok by (auto simp: buddy_ok_def)
  have lists: "lists_ok a fl" and g: "geom a" using h by (auto simp: heap_ok_def)
  from alloc_block_size_ok [OF h l] show ?thesis
  proof (elim disjE exE conjE)
    assume none: "alloc_block_size a l = Inr (None, a)" "\<forall>k. l \<le> k \<longrightarrow> k \<le> root_log2size a \<longrightarrow> fl k = []"
    then have "\<forall>k. l \<le> k \<longrightarrow> k \<le> root_log2size a \<longrightarrow> first_block (buckets a (k - 16)) = None"
      using first_block_eq [OF lists] l by (simp add: ring_head_def)
    then show ?thesis using none(1) l by (simp add: allocate_pages_def Log2MinSize_def)
  next
    fix b a1 fl1 S1
    assume b: "alloc_block_size a l = Inr (Some b, a1)" "b \<notin> A" "in_tree a b" "lev a b = l"
      and h1: "heap_ok a1 fl1 (insert b A) S1 {}" and d: "dims a1 = dims a"
    have lr: "l \<le> root_log2size a" using lev_bounds [OF b(3)] b(4) by simp
    have bkt: "get_bucket l = Inr (l - 16)" using l lr g by (simp add: get_bucket_ok geom_def)
    let ?a' = "counted a1 (l - 16) 1"
    have "counts_ok ?a' (insert b A)"
      unfolding counts_ok_def
    proof (intro allI impI)
      fix k
      assume k: "16 \<le> k" "k \<le> root_log2size ?a'"
      have "card {x \<in> insert b A. lev a x = k} = card {x \<in> A. lev a x = k} + of_bool (l = k)"
        using card_level_insert [of A b "\<lambda>x. lev a x = k"] b(2,4) buddy_okD(2) [OF ok] by simp
      moreover have "k - 16 = l - 16 \<longleftrightarrow> l = k" using k l by auto
      ultimately show "bkt_log2size (buckets ?a' (k - 16)) = k \<and>
          allocated_blocks (buckets ?a' (k - 16)) = of_nat (card {x \<in> insert b A. lev ?a' x = k})"
        using c k by (simp add: counts_ok_def dims_eqD [OF d])
    qed
    then have "buddy_ok ?a' (insert b A)" using heap_ok_counted [OF h1] by (auto simp: buddy_ok_def)
    moreover have "allocate_pages a l = Inr (get_block_phy_addr a b, ?a')"
      using b(1) l bkt
      by (simp add: allocate_pages_def Log2MinSize_def get_block_phy_addr_def Let_def dims_eqD(1) [OF d] counted_def
          upd_bucket_def)
    ultimately show ?thesis using b(2-4) by (intro disjI1 exI [of _ b] exI [of _ ?a']) (simp add: dims_eqD [OF d])
  qed
qed

text \<open>A block's number can be read off its address.\<close>

lemma block_offset_addr:
  assumes "b < 2 ^ 48"
  shows "unat ((get_block_phy_addr a b - phy_start a) div BlockSize) = b"
    "(get_block_phy_addr a b - phy_start a) mod BlockSize = 0"
proof -
  have e: "get_block_phy_addr a b - phy_start a = of_nat (b * 65536)"
    by (simp add: get_block_phy_addr_def BlockSize_def PAGE_SIZE_def)
  have u: "unat (of_nat (b * 65536) :: u64) = b * 65536"
    using assms by (simp only: unat_of_nat) simp
  have B: "unat BlockSize = 65536" by (simp add: BlockSize_def PAGE_SIZE_def)
  show "unat ((get_block_phy_addr a b - phy_start a) div BlockSize) = b"
    unfolding e by (simp add: unat_div u B del: of_nat_mult)
  show "(get_block_phy_addr a b - phy_start a) mod BlockSize = 0"
    unfolding e by (simp add: word_unat_eq_iff unat_mod u B del: of_nat_mult)
qed

lemma free_pages_ok:
  assumes ok: "buddy_ok a A" and b: "b \<in> A"
  shows "\<exists>a'. free_pages a (get_block_phy_addr a b) = Inr a' \<and> buddy_ok a' (A - {b}) \<and>
    phy_start a' = phy_start a \<and> root_log2size a' = root_log2size a"
proof -
  obtain fl S where h: "heap_ok a fl A S {}" and c: "counts_ok a A" using ok by (auto simp: buddy_ok_def)
  have g: "geom a" and s: "shape (root_log2size a) (free_set a fl) A S {}"
    and fg: "flags_ok a (free_set a fl) A S {}" using h by (simp_all add: heap_ok_def)
  have t: "in_tree a b" "b < max_blocks a" using buddy_okD(3,4) [OF ok b] .
  have off: "unat ((get_block_phy_addr a b - phy_start a) div BlockSize) = b"
    "(get_block_phy_addr a b - phy_start a) mod BlockSize = 0"
    using block_offset_addr [of b a] t(2) g by (simp_all add: geom_def)
  have "heap_ok a fl (A - {b}) S {b}"
    using h shape_hold [OF s b] fg b by (auto simp: heap_ok_def flags_ok_def)
  then obtain m a1 fl1 S1 where m: "try_merge_with_buddy a b = Inr (m, a1)"
      "heap_ok a1 fl1 (A - {b}) S1 {m}" "dims a1 = dims a" "m \<noteq> 0 \<longrightarrow> buddy_of m \<notin> free_set a1 fl1"
    using try_merge_ok by blast
  obtain a3 fl3 where a3: "bindR (upd_blk a1 m (\<lambda>x. x\<lparr>available := True\<rparr>))
      (\<lambda>a1. add_to_available_list a1 m) = Inr a3" "heap_ok a3 fl3 (A - {b}) S1 {}" "dims a3 = dims a1"
    using put_back_ok [OF m(2,4)] by blast
  have d: "dims a3 = dims a" using a3(3) m(3) by simp
  let ?l = "lev a b" and ?a' = "counted a3 (lev a b - 16) (- 1)"
  have bkt: "get_bucket (block_log2size a3 b) = Inr (?l - 16)"
    using get_bucket_lev [of a3 b] g t(1) by (simp add: dims_eqD [OF d])
  have B: "\<not> available (blocks a b)" using fg b by (auto simp: flags_ok_def)
  have "free_pages a (get_block_phy_addr a b) = Inr ?a'"
    using a3(1) m(1) t(2) B bkt unfolding free_pages_def off
    by (auto simp: blk_eq counted_def bindR_eq_Inr)
  moreover have "counts_ok ?a' (A - {b})"
    unfolding counts_ok_def
  proof (intro allI impI)
    fix k
    assume k: "16 \<le> k" "k \<le> root_log2size ?a'"
    have "card {x \<in> A. lev a x = k} = card {x \<in> A - {b}. lev a x = k} + of_bool (?l = k)"
      using card_level_insert [of "A - {b}" b "\<lambda>x. lev a x = k"] buddy_okD(2) [OF ok] b
      by (simp add: insert_absorb)
    moreover have "k - 16 = ?l - 16 \<longleftrightarrow> ?l = k" using k lev_bounds [OF t(1)] by auto
    ultimately show "bkt_log2size (buckets ?a' (k - 16)) = k \<and>
          allocated_blocks (buckets ?a' (k - 16)) = of_nat (card {x \<in> A - {b}. lev ?a' x = k})"
      using c k by (simp add: counts_ok_def dims_eqD [OF d])
  qed
  then have "buddy_ok ?a' (A - {b})" using heap_ok_counted [OF a3(2)] by (auto simp: buddy_ok_def)
  ultimately show ?thesis by (simp add: dims_eqD [OF d])
qed

text \<open>A new allocator is consistent and has nothing in use.\<close>

lemma buddy_new_ok:
  assumes R: "16 \<le> R" "R \<le> 32" and n: "2 ^ (R - 15) \<le> Suc n" "n < 2 ^ 48"
  shows "\<exists>a. buddy_new addr R base n = Inr a \<and> buddy_ok a {} \<and> phy_start a = addr \<and> root_log2size a = R"
proof -
  define a where "a = upd_bucket \<lparr>phy_start = addr, root_log2size = R,
     blocks = base(0 := (block_new True)\<lparr>valid := True, blk_next := Some 0, blk_prev := Some 0\<rparr>),
     max_blocks = n, buckets = new_buckets\<rparr> (R - 16) (\<lambda>k. k\<lparr>first_block := Some 0\<rparr>)"
  let ?fl = "\<lambda>l. if l = R then [0::nat] else []"
  have sel: "root_log2size a = R" "phy_start a = addr" "max_blocks a = n"
    "blocks a 0 = (block_new True)\<lparr>valid := True, blk_next := Some 0, blk_prev := Some 0\<rparr>"
    by (simp_all add: a_def upd_bucket_def)
  have "(2::nat) ^ 1 \<le> 2 ^ (R - 15)" using R by (intro power_increasing) auto
  then have "0 < n" using n by simp
  then have "buddy_new addr R base n = Inr a"
    using R by (simp add: buddy_new_def upd_blk_eq get_bucket_ok a_def)
  moreover have "lists_ok a ?fl"
    unfolding lists_ok_def
  proof (intro conjI allI impI)
    fix b
    assume "root_log2size a < b + 16"
    then show "first_block (buckets a b) = None"
      using R by (auto simp: a_def upd_bucket_def new_buckets_def)
  next
    fix l
    assume l: "16 \<le> l" "l \<le> root_log2size a"
    have "buckets a (l - 16) = (if l = R then (new_buckets (l - 16))\<lparr>first_block := Some 0\<rparr> else new_buckets (l - 16))"
      using l R by (auto simp: a_def upd_bucket_def)
    then show "list_ok a l (?fl l)"
      using sel R by (auto simp: list_ok_def new_buckets_def ring_def ring_head_def in_tree_def lev_def)
  qed
  moreover have fs: "free_set a ?fl = {0}" using R by (auto simp: free_set_def sel)
  moreover have "shape R {0} {} {} {}" using R by (auto simp: shape_def buddy_of_def)
  moreover have "flags_ok a {0} {} {} {}" by (simp add: flags_ok_def sel block_new_def)
  moreover have "geom a" using R n by (simp add: geom_def sel)
  moreover have "counts_ok a {}"
    using R by (auto simp: counts_ok_def a_def upd_bucket_def new_buckets_def Log2MinSize_def)
  ultimately have "buddy_ok a {}" unfolding buddy_ok_def heap_ok_def sel fs [symmetric] by blast
  with \<open>buddy_new addr R base n = Inr a\<close> show ?thesis using sel by blast
qed

lemma distinct_singleton_set: "distinct xs \<Longrightarrow> set xs = {x} \<Longrightarrow> xs = [x]"
  by (metis distinct_card card.empty card.insert empty_iff finite.emptyI length_0_conv length_Suc_conv
      One_nat_def list.set_intros(1) singletonD)

text \<open>With nothing in use every list but the largest is empty, and that one holds the root.\<close>

lemma buddy_ok_empty:
  assumes "buddy_ok a {}" "16 \<le> l" "l \<le> root_log2size a"
  shows "first_block (buckets a (l - 16)) = (if l = root_log2size a then Some 0 else None)"
    and "blk_next (blocks a 0) = Some 0"
proof -
  obtain fl S where h: "heap_ok a fl {} S {}" using assms(1) by (auto simp: buddy_ok_def)
  then have ok: "lists_ok a fl" and s: "shape (root_log2size a) (free_set a fl) {} S {}" by (simp_all add: heap_ok_def)
  have fs: "free_set a fl = {0}" using shape_empty [OF s] by blast
  have lists: "fl k = (if k = root_log2size a then [0] else [])" if k: "16 \<le> k" "k \<le> root_log2size a" for k
  proof -
    have d: "distinct (fl k)" using ok k by (simp add: lists_ok_def list_ok_def ring_def)
    have zero: "0 \<in> set (fl (lev a 0))" using free_set_iff [OF ok, of 0] fs by simp
    have only: "x = 0 \<and> root_log2size a = k" if x: "x \<in> set (fl k)" for x
    proof -
      have "x \<in> free_set a fl" "lev a x = k" using lists_okD [OF ok k x] free_set_iff [OF ok, of x] x by auto
      then show ?thesis using fs by (simp add: lev_def)
    qed
    show ?thesis
    proof (cases "k = root_log2size a")
      case True
      then have "0 \<in> set (fl k)" using zero by (simp add: lev_def)
      then have "set (fl k) = {0}" using only by blast
      then show ?thesis using True distinct_singleton_set [OF d] by simp
    next
      case False
      then have "\<And>x. x \<notin> set (fl k)" using only by metis
      then have "fl k = []" by (cases "fl k") auto
      then show ?thesis using False by simp
    qed
  qed
  show "first_block (buckets a (l - 16)) = (if l = root_log2size a then Some 0 else None)"
    using first_block_eq [OF ok assms(2,3)] lists [OF assms(2,3)] by (simp add: ring_head_def)
  have "fl (root_log2size a) = [0]" using lists [of "root_log2size a"] assms(2,3) by simp
  moreover have "list_ok a (root_log2size a) (fl (root_log2size a))"
    using ok assms(2,3) unfolding lists_ok_def by (elim conjE allE [of _ "root_log2size a"]) simp
  ultimately have "list_ok a (root_log2size a) [0]" by simp
  then show "blk_next (blocks a 0) = Some 0" by (simp add: list_ok_def ring_def)
qed

lemma buddy_ok_above:
  assumes "buddy_ok a A" "root_log2size a < b + 16"
  shows "first_block (buckets a b) = None"
  using assms by (auto simp: buddy_ok_def heap_ok_def lists_ok_def)

text \<open>Even the smallest request fails only when the blocks in use fill the region.\<close>

lemma buddy_ok_full:
  assumes ok: "buddy_ok a A"
    and none: "\<And>k. 16 \<le> k \<Longrightarrow> k \<le> root_log2size a \<Longrightarrow> first_block (buckets a (k - 16)) = None"
  shows "(\<Sum>b\<in>A. 2 ^ lev a b) = (2::nat) ^ root_log2size a"
proof -
  obtain fl S where h: "heap_ok a fl A S {}" using ok by (auto simp: buddy_ok_def)
  then have lists: "lists_ok a fl" and s: "shape (root_log2size a) (free_set a fl) A S {}"
    by (simp_all add: heap_ok_def)
  have "fl k = []" if "16 \<le> k" "k \<le> root_log2size a" for k
    using first_block_eq [OF lists that] none [OF that] by (simp add: ring_head_def split: list.splits)
  then have "free_set a fl = {}" by (auto simp: free_set_def)
  then show ?thesis using s by (simp add: shape_def lev_def)
qed

end
