(* ===== verification/Buddy_Extent.thy ===== *)
theory Buddy_Extent
  imports Buddy_Correct
begin

text \<open>
  Where a block of the tree lies in the region: the part of the region a block stands for, that
  the blocks in use stand for disjoint parts, and how the address the code computes for a
  block compares with the start of its part.
\<close>

section \<open>The part of the region a block stands for\<close>

definition position :: "nat \<Rightarrow> nat" where
  "position i = Suc i - 2 ^ depth i"

definition extent :: "nat \<Rightarrow> nat \<Rightarrow> nat set" where
  "extent R i = {position i * 2 ^ (R - depth i) ..< Suc (position i) * 2 ^ (R - depth i)}"

lemma position_inject: "depth i = depth j \<Longrightarrow> position i = position j \<Longrightarrow> i = j"
proof -
  assume d: "depth i = depth j" and p: "position i = position j"
  define w :: nat where "w = 2 ^ depth j"
  have "w \<le> Suc i" "w \<le> Suc j" "Suc i - w = Suc j - w"
    using depth_bounds [of i] depth_bounds [of j] d p by (simp_all add: position_def w_def)
  then show "i = j" by arith
qed

lemma position_parent:
  assumes "i \<noteq> 0"
  shows "position i = 2 * position ((i - 1) div 2) + of_bool (even i)"
proof -
  let ?p = "(i - 1) div 2"
  have d: "depth i = Suc (depth ?p)" by (rule depth_parent [OF assms])
  define w :: nat where "w = 2 ^ depth ?p"
  define p where "p = ?p"
  have b: "w \<le> Suc p" using depth_bounds unfolding w_def p_def by blast
  have "i = 2 * p + 1 + of_bool (even i)" unfolding p_def using assms by (cases "even i") (auto elim!: evenE oddE)
  moreover have "position i = Suc i - 2 * w" "position p = Suc p - w"
    by (simp_all add: position_def d w_def p_def)
  ultimately show ?thesis using b unfolding p_def [symmetric] by (cases "even i"; simp)
qed

lemma extent_parent:
  assumes i: "i \<noteq> 0" "depth i \<le> R"
  shows "extent R i \<subseteq> extent R ((i - 1) div 2)"
proof
  let ?p = "(i - 1) div 2"
  fix x
  assume x: "x \<in> extent R i"
  have d: "R - depth ?p = Suc (R - depth i)" using depth_parent [OF i(1)] i(2) by arith
  define w :: nat where "w = 2 ^ (R - depth i)"
  have xi: "position i * w \<le> x" "x < Suc (position i) * w" using x by (simp_all add: extent_def w_def)
  have pi: "2 * position ?p \<le> position i" "Suc (position i) \<le> 2 * Suc (position ?p)"
    using position_parent [OF i(1)] by auto
  have "2 * position ?p * w \<le> x" "x < 2 * Suc (position ?p) * w"
    using xi mult_le_mono1 [OF pi(1), of w] mult_le_mono1 [OF pi(2), of w] by linarith+
  then have "position ?p * (2 * w) \<le> x" "x < Suc (position ?p) * (2 * w)"
    by (simp_all only: mult.assoc mult.left_commute)
  then show "x \<in> extent R ?p" unfolding extent_def d power_Suc w_def [symmetric] by simp
qed

lemma extent_same_depth:
  assumes "depth i = depth j" "x \<in> extent R i" "x \<in> extent R j"
  shows "i = j"
proof -
  let ?w = "2 ^ (R - depth i) :: nat"
  have "x div ?w = position i"
    using assms(2) by (intro div_nat_eqI) (simp_all add: extent_def mult.commute)
  moreover have "x div ?w = position j"
    using assms(1,3) by (intro div_nat_eqI) (simp_all add: extent_def mult.commute)
  ultimately show ?thesis using position_inject [OF assms(1)] by simp
qed

section \<open>Blocks in use are disjoint\<close>

abbreviation ancestor :: "nat \<Rightarrow> nat \<Rightarrow> nat" where
  "ancestor n i \<equiv> ((\<lambda>i. (i - 1) div 2) ^^ n) i"

lemma ancestor_depth: "n \<le> depth i \<Longrightarrow> depth (ancestor n i) = depth i - n"
proof (induction n)
  case (Suc n)
  then have "depth (ancestor n i) = depth i - n" by simp
  moreover have "ancestor n i \<noteq> 0" using Suc.prems calculation by (intro notI) simp
  ultimately show ?case using depth_parent [of "ancestor n i"] by simp
qed simp

lemma ancestor_extent: "n \<le> depth i \<Longrightarrow> depth i \<le> R \<Longrightarrow> extent R i \<subseteq> extent R (ancestor n i)"
proof (induction n)
  case (Suc n)
  then have d: "depth (ancestor n i) = depth i - n" by (intro ancestor_depth) simp
  then have "ancestor n i \<noteq> 0" using Suc.prems by (intro notI) simp
  then have "extent R (ancestor n i) \<subseteq> extent R ((ancestor n i - 1) div 2)"
    using Suc.prems d by (intro extent_parent) auto
  then show ?case using Suc by auto
qed simp

lemma ancestor_split:
  assumes s: "shape R F A S {}" and i: "i \<in> F \<union> A"
  shows "0 < n \<Longrightarrow> n \<le> depth i \<Longrightarrow> ancestor n i \<in> S"
proof (induction n)
  case (Suc n)
  have d: "depth (ancestor n i) = depth i - n" using Suc.prems by (intro ancestor_depth) simp
  then have ne: "ancestor n i \<noteq> 0" using Suc.prems by (intro notI) simp
  have "ancestor n i \<in> F \<union> A \<union> S" using Suc i by (cases n) auto
  moreover have "j \<noteq> 0 \<Longrightarrow> j \<in> F \<union> A \<union> S \<Longrightarrow> (j - 1) div 2 \<in> S" for j using s by (simp add: shape_def)
  ultimately show ?case using ne by simp
qed simp

lemma shape_disjoint_extents:
  assumes s: "shape R F A S {}" and b: "b \<in> F \<union> A" and c: "c \<in> F \<union> A" and ne: "b \<noteq> c"
    and le: "depth b \<le> depth c"
  shows "extent R b \<inter> extent R c = {}"
proof (rule ccontr)
  assume "extent R b \<inter> extent R c \<noteq> {}"
  then obtain x where x: "x \<in> extent R b" "x \<in> extent R c" by blast
  let ?n = "depth c - depth b"
  have "depth c \<le> R" using shape_in_tree [OF s] c by fastforce
  then have "x \<in> extent R (ancestor ?n c)" using ancestor_extent [of ?n c R] x(2) by auto
  moreover have "depth (ancestor ?n c) = depth b" using ancestor_depth [of ?n c] le by simp
  ultimately have eq: "ancestor ?n c = b" using extent_same_depth x(1) by blast
  then have "?n \<noteq> 0" using ne by auto
  then have "b \<in> S" using ancestor_split [OF s c, of ?n] eq by simp
  then show False using b shape_disjoint [OF s] by blast
qed

lemma buddy_ok_extents:
  assumes "buddy_ok a A" "b \<in> A" "c \<in> A" "b \<noteq> c"
  shows "extent (root_log2size a) b \<inter> extent (root_log2size a) c = {}"
proof -
  obtain fl S where s: "shape (root_log2size a) (free_set a fl) A S {}"
    using assms(1) by (auto simp: buddy_ok_def heap_ok_def)
  show ?thesis
    using shape_disjoint_extents [OF s, of b c] shape_disjoint_extents [OF s, of c b] assms(2-)
    by (cases "depth b \<le> depth c") auto
qed

lemma extent_in_region:
  assumes "depth i \<le> R"
  shows "extent R i \<subseteq> {0..<2 ^ R}"
proof -
  have "extent R i \<subseteq> extent R (ancestor (depth i) i)" by (rule ancestor_extent [OF order_refl assms])
  moreover have "depth (ancestor (depth i) i) = depth 0" using ancestor_depth [of "depth i" i] by simp
  then have "ancestor (depth i) i = 0"
    by (cases "ancestor (depth i) i = 0") (auto simp: depth_parent)
  ultimately show ?thesis by (simp add: extent_def position_def)
qed

section \<open>Addresses\<close>

lemma unat_block_addr:
  assumes "geom a" "in_tree a b" "unat (phy_start a) < 2 ^ 63"
  shows "unat (get_block_phy_addr a b) = unat (phy_start a) + b * 65536"
proof -
  have "Suc b < 2 ^ Suc (depth b)" using depth_bounds by blast
  also have "\<dots> \<le> (2::nat) ^ 17" using assms(1,2) by (intro power_increasing) (auto simp: geom_def in_tree_def)
  finally have b: "b < 131072" by simp
  then have u: "unat (of_nat b * BlockSize) = b * 65536"
    by (simp add: unat_word_ariths(2) unat_of_nat BlockSize_def PAGE_SIZE_def)
  have "unat (phy_start a) + b * 65536 < 2 ^ 64" using assms(3) b by simp
  then show ?thesis unfolding get_block_phy_addr_def unat_word_ariths(1) u by simp
qed

lemma block_addr_inject:
  assumes "geom a" "in_tree a b" "in_tree a c" "get_block_phy_addr a b = get_block_phy_addr a c"
  shows "b = c"
proof -
  have "b < max_blocks a" "c < max_blocks a" using in_tree_bound [OF assms(1)] assms(2,3) by blast+
  then have "b < 2 ^ 48" "c < 2 ^ 48" using assms(1) by (simp_all add: geom_def)
  then show ?thesis using block_offset_addr(1) assms(4) by metis
qed

end
