(* ===== verification/Page_Alloc.thy ===== *)
theory Page_Alloc
  imports Buddy_Extent Small_Vec
begin

text \<open>
  The kernel's page allocation interface of \<^verbatim>\<open>mm/page_alloc.cpp\<close>: start-up with its self-test,
  the choice of the region, \<^verbatim>\<open>kernel_page_alloc\<close>, \<^verbatim>\<open>physical_page_alloc\<close>, \<^verbatim>\<open>kmalloc\<close> and
  their counterparts, and the usage report.  The locale \<open>block_store\<close> is the contract the
  kernel's clients rely on; it is interpreted on the buddy allocator.
\<close>

section \<open>Start-up\<close>

record PageRegion =
  rgn_type :: u32
  rgn_phy_start :: u64
  rgn_virt_start :: u64
  rgn_size :: u64
  rgn_attr :: u64

text \<open>The check at the end of the self-test, bucket by bucket.\<close>

definition bucket_passed :: "BuddyAllocator \<Rightarrow> nat \<Rightarrow> bool res" where
  "bucket_passed a i =
     (if i + Log2MinSize = root_log2size a
      then (case first_block (buckets a i) of
              None \<Rightarrow> Inr False
            | Some first \<Rightarrow> bindR (blk a first) (\<lambda>F. Inr (blk_next F = Some first)))
      else Inr (first_block (buckets a i) = None))"

fun buckets_passed :: "BuddyAllocator \<Rightarrow> nat list \<Rightarrow> bool \<Rightarrow> bool res" where
  "buckets_passed a [] passed = Inr passed"
| "buckets_passed a (i # is) passed =
     bindR (bucket_passed a i) (\<lambda>p. buckets_passed a is (passed \<and> p))"

definition buddy_allocator_init :: "u64 \<Rightarrow> nat \<Rightarrow> BuddyAllocator res" where
  "buddy_allocator_init max_pages_addr log2size =
     bindR (buddy_new max_pages_addr log2size preallocated_blocks MaxBlocks) (\<lambda>a0.
     bindR (allocate_pages a0 24) (\<lambda>(addr1, a1).
     bindR (allocate_pages a1 16) (\<lambda>(addr2, a2).
     bindR (free_pages a2 addr1) (\<lambda>a3.
     bindR (free_pages a3 addr2) (\<lambda>a4.
     bindR (buckets_passed a4 [0..<Log2MaxSize - Log2MinSize + 1] True) (\<lambda>passed.
     bindR (assertR passed ''Buddy allocator test failed'') (\<lambda>_.
     Inr a4)))))))"

text \<open>The largest region below 4G, as \<^verbatim>\<open>regions[i]\<close> reports it.\<close>

fun scan_regions :: "PageRegion SmallVec \<Rightarrow> nat list \<Rightarrow> u64 \<Rightarrow> u64 \<Rightarrow> (u64 \<times> u64) res" where
  "scan_regions regions [] max_pages max_pages_addr = Inr (max_pages, max_pages_addr)"
| "scan_regions regions (i # is) max_pages max_pages_addr =
     bindR (sv_index regions i) (\<lambda>r.
     let n_pages = rgn_size r div of_nat PAGE_SIZE in
     if n_pages > max_pages \<and> rgn_phy_start r < 0x100000000
     then scan_regions regions is n_pages (rgn_phy_start r)
     else scan_regions regions is max_pages max_pages_addr)"

definition clip_region :: "u64 \<Rightarrow> u64 \<Rightarrow> u64 \<times> u64" where
  "clip_region max_pages max_pages_addr =
     (let (mp, addr) =
        (if max_pages_addr < IDENTITY_MAP_PHY_START
         then (max_pages - (IDENTITY_MAP_PHY_START - max_pages_addr) div of_nat PAGE_SIZE, IDENTITY_MAP_PHY_START)
         else (max_pages, max_pages_addr));
        limit = (1 * 1024 * 1024 * 1024) div of_nat PAGE_SIZE
      in (if mp > limit then limit else mp, addr))"

definition page_allocator_init :: "PageRegion SmallVec \<Rightarrow> BuddyAllocator res" where
  "page_allocator_init regions =
     bindR (scan_regions regions [0..<sv_size regions] 0 0) (\<lambda>(mp0, addr0).
     let (max_pages, max_pages_addr) = clip_region mp0 addr0;
         log2size = log2 (max_pages * of_nat PAGE_SIZE) in
     bindR (assertR (max_pages_addr \<ge> IDENTITY_MAP_PHY_START) ''region out of identity map region'') (\<lambda>_.
     bindR (assertR (max_pages_addr + push_bit (unat log2size) 1 \<le> IDENTITY_MAP_PHY_END)
       ''region out of identity map region'') (\<lambda>_.
     buddy_allocator_init max_pages_addr (unat log2size))))"

section \<open>The interface\<close>

definition kernel_page_alloc :: "BuddyAllocator \<Rightarrow> nat \<Rightarrow> (u64 \<times> BuddyAllocator) res" where
  "kernel_page_alloc a i = bindR (allocate_pages a i) (\<lambda>(phy_addr, a'). Inr (KERNEL_START + phy_addr, a'))"

definition kernel_page_free :: "BuddyAllocator \<Rightarrow> u64 \<Rightarrow> BuddyAllocator res" where
  "kernel_page_free a vaddr = free_pages a (vaddr - KERNEL_START)"

definition physical_page_alloc :: "BuddyAllocator \<Rightarrow> nat \<Rightarrow> (u64 \<times> BuddyAllocator) res" where
  "physical_page_alloc a i = allocate_pages a i"

definition physical_page_release :: "BuddyAllocator \<Rightarrow> u64 \<Rightarrow> BuddyAllocator res" where
  "physical_page_release a paddr = free_pages a paddr"

definition kfree :: "BuddyAllocator \<Rightarrow> u64 \<Rightarrow> BuddyAllocator res" where
  "kfree a p = kernel_page_free a p"

definition kmalloc :: "BuddyAllocator \<Rightarrow> u64 \<Rightarrow> (u64 \<times> BuddyAllocator) res" where
  "kmalloc a sz =
     (let log2size = unat (log2_ceil sz);
          log2size = (if log2size < Log2MinSize then Log2MinSize else log2size)
      in kernel_page_alloc a log2size)"

section \<open>The usage report\<close>

text \<open>The do-while loop over the circular list; on a list that never returns to its first block
  it does not end.\<close>

partial_function (option) count_free :: "BuddyAllocator \<Rightarrow> nat \<Rightarrow> nat \<Rightarrow> u64 \<Rightarrow> u64 res option" where
  "count_free a first block free =
     (case blk a block of
        Inl e \<Rightarrow> Some (Inl e)
      | Inr B \<Rightarrow>
          (let free' = (if available B then free + 1 else free) in
           case blk_next B of
             None \<Rightarrow> Some (Inl (Undefined ''null pointer''))
           | Some n \<Rightarrow> if n \<noteq> first then count_free a first n free' else Some (Inr free')))"

definition print_bucket_usage :: "BuddyAllocator \<Rightarrow> Bucket \<Rightarrow> (u64 \<times> u64 \<times> u64) res option" where
  "print_bucket_usage a bucket =
     (let bucket_size = push_bit (bkt_log2size bucket) 1 in
      case first_block bucket of
        None \<Rightarrow> Some (Inr (0 * bucket_size, allocated_blocks bucket, available_blocks bucket))
      | Some first \<Rightarrow>
          (case count_free a first first 0 of
             None \<Rightarrow> None
           | Some (Inl e) \<Rightarrow> Some (Inl e)
           | Some (Inr free) \<Rightarrow>
               Some (Inr (free * bucket_size, allocated_blocks bucket, available_blocks bucket))))"

fun usage_loop :: "BuddyAllocator \<Rightarrow> nat list \<Rightarrow> u64 \<times> u64 \<times> u64 \<Rightarrow> (u64 \<times> u64 \<times> u64) res option" where
  "usage_loop a [] t = Some (Inr t)"
| "usage_loop a (i # is) (total_free, total_alloc, total_avail) =
     (case get_bucket i of
        Inl e \<Rightarrow> Some (Inl e)
      | Inr b \<Rightarrow>
          (case print_bucket_usage a (buckets a b) of
             None \<Rightarrow> None
           | Some (Inl e) \<Rightarrow> Some (Inl e)
           | Some (Inr (free, alloc, avail)) \<Rightarrow>
               usage_loop a is (total_free + free, total_alloc + alloc, total_avail + avail)))"

text \<open>The numbers of the summary line: used, free, percentage, allocated and available blocks.\<close>

definition print_usage :: "BuddyAllocator \<Rightarrow> (u64 \<times> u64 \<times> u64 \<times> u64 \<times> u64) res option" where
  "print_usage a =
     (let total = push_bit (root_log2size a) 1 in
      case usage_loop a [Log2MinSize..<Suc (root_log2size a)] (0, 0, 0) of
        None \<Rightarrow> None
      | Some (Inl e) \<Rightarrow> Some (Inl e)
      | Some (Inr (total_free, total_alloc, total_avail)) \<Rightarrow>
          Some (Inr (total - total_free, total_free, (total - total_free) * 100 div total,
                     total_alloc, total_avail)))"

section \<open>The contract of a page allocator\<close>

text \<open>
  A state, the allocations that are live in it (address and size), an operation that adds a new
  address or reports failure with 0, and one that takes a live address back.
\<close>

datatype request = Get nat | Put nat

locale block_store =
  fixes acquire :: "'s \<Rightarrow> nat \<Rightarrow> (u64 \<times> 's) res"
    and release :: "'s \<Rightarrow> u64 \<Rightarrow> 's res"
    and ok :: "'s \<Rightarrow> (u64 \<times> nat) set \<Rightarrow> bool"
    and smallest :: nat
  assumes acquire_law: "ok s L \<Longrightarrow> smallest \<le> l \<Longrightarrow>
      (\<exists>p s'. acquire s l = Inr (p, s') \<and> p \<noteq> 0 \<and> p \<notin> fst ` L \<and> ok s' (insert (p, l) L)) \<or>
      acquire s l = Inr (0, s)"
    and release_law: "ok s L \<Longrightarrow> (p, l) \<in> L \<Longrightarrow> \<exists>s'. release s p = Inr s' \<and> ok s' (L - {(p, l)})"
begin

text \<open>A client that keeps a list of what it holds and only returns what it holds.\<close>

fun run :: "'s \<Rightarrow> (u64 \<times> nat) list \<Rightarrow> request list \<Rightarrow> ('s \<times> (u64 \<times> nat) list) res" where
  "run s live [] = Inr (s, live)"
| "run s live (Get l # rs) =
     bindR (acquire s l) (\<lambda>(p, s'). run s' (if p = 0 then live else live @ [(p, l)]) rs)"
| "run s live (Put k # rs) =
     (if k < length live
      then bindR (release s (fst (live ! k))) (\<lambda>s'. run s' (take k live @ drop (Suc k) live) rs)
      else run s live rs)"

lemma set_remove_nth:
  assumes "distinct xs" "k < length xs"
  shows "set (take k xs @ drop (Suc k) xs) = set xs - {xs ! k}"
    and "distinct (map f xs) \<Longrightarrow> distinct (map f (take k xs @ drop (Suc k) xs))"
proof -
  have split: "xs = take k xs @ xs ! k # drop (Suc k) xs" using assms(2) by (rule id_take_nth_drop)
  have "distinct (take k xs @ xs ! k # drop (Suc k) xs)" using assms(1) split by simp
  moreover have "set xs = set (take k xs @ xs ! k # drop (Suc k) xs)" using split by simp
  ultimately show "set (take k xs @ drop (Suc k) xs) = set xs - {xs ! k}" by auto
  show "distinct (map f (take k xs @ drop (Suc k) xs))" if "distinct (map f xs)"
  proof -
    have "distinct (map f (take k xs @ xs ! k # drop (Suc k) xs))" using that split by simp
    then show ?thesis by auto
  qed
qed

lemma run_safe:
  assumes "ok s (set live)" "distinct (map fst live)" "\<And>l. Get l \<in> set rs \<Longrightarrow> smallest \<le> l"
  shows "\<exists>s' live'. run s live rs = Inr (s', live') \<and> ok s' (set live') \<and> distinct (map fst live')"
  using assms
proof (induction s live rs rule: run.induct)
  case (2 s live l rs)
  have later: "\<And>k. Get k \<in> set rs \<Longrightarrow> smallest \<le> k" using 2(4) by simp
  have l: "smallest \<le> l" using 2(4) by simp
  show ?case
  proof (cases "acquire s l = Inr (0, s)")
    case True
    then show ?thesis using 2(1) [OF True refl] 2(2,3) later by simp
  next
    case False
    then obtain p s' where p: "acquire s l = Inr (p, s')" "p \<noteq> 0" "p \<notin> fst ` set live"
      "ok s' (insert (p, l) (set live))" using acquire_law [OF 2(2) l] by blast
    have "ok s' (set (live @ [(p, l)]))" "distinct (map fst (live @ [(p, l)]))" using p 2(3) by auto
    then show ?thesis using 2(1) [OF p(1) refl] p(1,2) later by simp
  qed
next
  case (3 s live k rs)
  have later: "\<And>k. Get k \<in> set rs \<Longrightarrow> smallest \<le> k" using 3(5) by simp
  show ?case
  proof (cases "k < length live")
    case True
    then obtain s' where s': "release s (fst (live ! k)) = Inr s'" "ok s' (set live - {live ! k})"
      using release_law [OF 3(3), of "fst (live ! k)" "snd (live ! k)"] by auto
    have "distinct live" using 3(4) by (simp add: distinct_map)
    note rem = set_remove_nth [OF this True]
    show ?thesis using 3(1) [OF True s'(1)] s' rem(1) rem(2) [OF 3(4)] later True by simp
  next
    case False
    then show ?thesis using 3(2) [OF False 3(3,4) later] by simp
  qed
qed simp

end

section \<open>The buddy allocator keeps the contract\<close>

definition live_set :: "BuddyAllocator \<Rightarrow> nat set \<Rightarrow> (u64 \<times> nat) set" where
  "live_set a A = (\<lambda>b. (get_block_phy_addr a b, lev a b)) ` A"

definition pages_ok :: "BuddyAllocator \<Rightarrow> (u64 \<times> nat) set \<Rightarrow> bool" where
  "pages_ok a L \<longleftrightarrow>
     (\<exists>A. buddy_ok a A \<and> L = live_set a A) \<and> 0 < unat (phy_start a) \<and> unat (phy_start a) < 2 ^ 63"

lemma live_set_cong:
  "phy_start a' = phy_start a \<Longrightarrow> root_log2size a' = root_log2size a \<Longrightarrow> live_set a' A = live_set a A"
  by (simp add: live_set_def get_block_phy_addr_def lev_def)

lemma pages_acquire:
  assumes "pages_ok a L" "16 \<le> l"
  shows "(\<exists>p a'. allocate_pages a l = Inr (p, a') \<and> p \<noteq> 0 \<and> p \<notin> fst ` L \<and> pages_ok a' (insert (p, l) L)) \<or>
    allocate_pages a l = Inr (0, a)"
proof -
  obtain A where A: "buddy_ok a A" "L = live_set a A"
    and phy: "0 < unat (phy_start a)" "unat (phy_start a) < 2 ^ 63" using assms by (auto simp: pages_ok_def)
  note g = buddy_okD(1) [OF A(1)]
  from allocate_pages_ok [OF A(1) assms(2)] show ?thesis
  proof (elim disjE exE conjE)
    fix b a'
    assume b: "allocate_pages a l = Inr (get_block_phy_addr a b, a')" "b \<notin> A" "in_tree a b" "lev a b = l"
      and a': "buddy_ok a' (insert b A)" "phy_start a' = phy_start a" "root_log2size a' = root_log2size a"
    have "unat (get_block_phy_addr a b) \<noteq> 0" using unat_block_addr [OF g b(3) phy(2)] phy(1) by simp
    then have "get_block_phy_addr a b \<noteq> 0" by auto
    moreover have "get_block_phy_addr a b \<notin> fst ` L"
    proof
      assume "get_block_phy_addr a b \<in> fst ` L"
      then obtain c where "c \<in> A" "get_block_phy_addr a b = get_block_phy_addr a c" by (auto simp: A(2) live_set_def)
      then show False using block_addr_inject [OF g b(3)] buddy_okD(3) [OF A(1)] b(2) by blast
    qed
    moreover have "insert (get_block_phy_addr a b, l) L = live_set a' (insert b A)"
      unfolding live_set_cong [OF a'(2,3)] A(2) by (simp add: live_set_def b(4))
    ultimately show ?thesis using b(1) a' phy by (intro disjI1) (auto simp: pages_ok_def)
  qed blast
qed

lemma pages_release:
  assumes "pages_ok a L" "(p, l) \<in> L"
  shows "\<exists>a'. free_pages a p = Inr a' \<and> pages_ok a' (L - {(p, l)})"
proof -
  obtain A where A: "buddy_ok a A" "L = live_set a A"
    and phy: "0 < unat (phy_start a)" "unat (phy_start a) < 2 ^ 63" using assms by (auto simp: pages_ok_def)
  obtain b where b: "b \<in> A" "p = get_block_phy_addr a b" "l = lev a b"
    using assms(2) by (auto simp: A(2) live_set_def)
  obtain a' where a': "free_pages a p = Inr a'" "buddy_ok a' (A - {b})" "phy_start a' = phy_start a"
      "root_log2size a' = root_log2size a"
    using free_pages_ok [OF A(1) b(1)] b(2) by blast
  have "inj_on (\<lambda>b. (get_block_phy_addr a b, lev a b)) A"
    using block_addr_inject [OF buddy_okD(1) [OF A(1)]] buddy_okD(3) [OF A(1)] by (intro inj_onI) blast
  then have "live_set a (A - {b}) = L - {(p, l)}" using b by (auto simp: live_set_def A(2) inj_on_def)
  then have "live_set a' (A - {b}) = L - {(p, l)}" by (simp add: live_set_cong [OF a'(3,4)])
  then show ?thesis using a' phy by (auto simp: pages_ok_def)
qed

interpretation pages: block_store allocate_pages free_pages pages_ok 16
  by unfold_locales (use pages_acquire pages_release in blast)+

text \<open>The kernel's requests to the page allocator, from a list of live allocations.\<close>

definition page_requests ::
  "BuddyAllocator \<Rightarrow> (u64 \<times> nat) list \<Rightarrow> request list \<Rightarrow> (BuddyAllocator \<times> (u64 \<times> nat) list) res" where
  "page_requests = block_store.run allocate_pages free_pages"

section \<open>Start-up succeeds\<close>

lemma first_fit:
  assumes "buddy_ok a {}" "16 \<le> l" "l \<le> root_log2size a"
  shows "\<exists>b a'. allocate_pages a l = Inr (get_block_phy_addr a b, a') \<and> in_tree a b \<and> lev a b = l \<and>
    buddy_ok a' {b} \<and> phy_start a' = phy_start a \<and> root_log2size a' = root_log2size a"
proof -
  have "16 \<le> root_log2size a" using assms by simp
  from buddy_ok_empty(1) [OF assms(1) this order_refl]
  have "first_block (buckets a (root_log2size a - 16)) \<noteq> None" by simp
  then show ?thesis using allocate_pages_ok [OF assms(1,2)] assms(3) by auto
qed

text \<open>There is room for a block of the smallest size unless the blocks in use fill the region.\<close>

lemma smallest_fit:
  assumes ok: "buddy_ok a A" and room: "(\<Sum>b\<in>A. 2 ^ lev a b) \<noteq> (2::nat) ^ root_log2size a"
  shows "\<exists>b a'. allocate_pages a 16 = Inr (get_block_phy_addr a b, a') \<and> b \<notin> A \<and> in_tree a b \<and> lev a b = 16 \<and>
    buddy_ok a' (insert b A) \<and> phy_start a' = phy_start a \<and> root_log2size a' = root_log2size a"
  using allocate_pages_ok [OF ok, of 16] buddy_ok_full [OF ok] room by auto

lemma buckets_passed_all:
  "(\<And>i. i \<in> set is \<Longrightarrow> bucket_passed a i = Inr True) \<Longrightarrow> buckets_passed a is p = Inr p"
  by (induction "is" arbitrary: p) auto

lemma self_test_passed:
  assumes ok: "buddy_ok a {}"
  shows "bucket_passed a i = Inr True"
proof -
  have R: "16 \<le> root_log2size a" "0 < max_blocks a"
    using buddy_okD(1) [OF ok] in_tree_bound [of a 0] by (auto simp: geom_def in_tree_def)
  show ?thesis
  proof (cases "i + 16 \<le> root_log2size a")
    case True
    then show ?thesis using buddy_ok_empty [OF ok, of "i + 16"] R by (auto simp: bucket_passed_def Log2MinSize_def blk_eq)
  next
    case False
    then show ?thesis using buddy_ok_above [OF ok, of i] by (simp add: bucket_passed_def Log2MinSize_def)
  qed
qed

lemma buddy_allocator_init_ok:
  assumes R: "25 \<le> R" "R \<le> 31"
  shows "\<exists>a. buddy_allocator_init addr R = Inr a \<and> buddy_ok a {} \<and> phy_start a = addr \<and> root_log2size a = R"
proof -
  have "(2::nat) ^ (R - 15) \<le> 2 ^ 16" using R by (intro power_increasing) auto
  then have n: "2 ^ (R - 15) \<le> Suc MaxBlocks" "MaxBlocks < 2 ^ 48" by (simp_all add: MaxBlocks_def BlockSize_def PAGE_SIZE_def)
  obtain a0 where a0: "buddy_new addr R preallocated_blocks MaxBlocks = Inr a0" "buddy_ok a0 {}"
    "phy_start a0 = addr" "root_log2size a0 = R" using buddy_new_ok [OF _ _ n] R by fastforce
  obtain b1 a1 where b1: "allocate_pages a0 24 = Inr (get_block_phy_addr a0 b1, a1)" "lev a0 b1 = 24"
    "buddy_ok a1 {b1}" "phy_start a1 = addr" "root_log2size a1 = R"
    using first_fit [OF a0(2), of 24] a0 R by auto
  have lev1: "lev a1 b1 = 24" using b1(2,5) a0(4) by (simp add: lev_def)
  have "(2::nat) ^ 24 < 2 ^ R" using R by (intro power_strict_increasing) auto
  then obtain b2 a2 where b2: "allocate_pages a1 16 = Inr (get_block_phy_addr a1 b2, a2)" "b2 \<notin> {b1}"
    "buddy_ok a2 {b2, b1}" "phy_start a2 = addr" "root_log2size a2 = R"
    using smallest_fit [OF b1(3)] b1 lev1 by auto
  have addr: "get_block_phy_addr a0 b1 = get_block_phy_addr a2 b1"
    using a0 b1 b2 by (simp add: get_block_phy_addr_def)
  obtain a3 where a3: "free_pages a2 (get_block_phy_addr a2 b1) = Inr a3" "buddy_ok a3 {b2}"
    "phy_start a3 = addr" "root_log2size a3 = R"
    using free_pages_ok [OF b2(3), of b1] b2 by (auto simp: insert_Diff_if)
  have addr2: "get_block_phy_addr a1 b2 = get_block_phy_addr a3 b2" using b1 a3 by (simp add: get_block_phy_addr_def)
  obtain a4 where a4: "free_pages a3 (get_block_phy_addr a3 b2) = Inr a4" "buddy_ok a4 {}"
    "phy_start a4 = addr" "root_log2size a4 = R"
    using free_pages_ok [OF a3(2), of b2] a3 by auto
  have "buckets_passed a4 is True = Inr True" for "is"
    by (rule buckets_passed_all) (rule self_test_passed [OF a4(2)])
  then show ?thesis
    using a0(1) b1(1) b2(1) a3(1) a4 by (simp add: buddy_allocator_init_def addr addr2)
qed

section \<open>The usage report is right\<close>

lemma count_free_chain:
  assumes "chain (nxt a) (prv a) (x # ys)" "nxt a (last (x # ys)) = Some f" "f \<notin> set ys"
    "\<And>z. z \<in> set (x # ys) \<Longrightarrow> z < max_blocks a \<and> available (blocks a z)"
  shows "count_free a f x n = Some (Inr (n + of_nat (length (x # ys))))"
  using assms
proof (induction ys arbitrary: x n)
  case Nil
  then show ?case by (simp add: count_free.simps [of a f x] blk_eq)
next
  case (Cons y ys)
  have "count_free a f x n = count_free a f y (n + 1)"
    using Cons.prems by (auto simp: count_free.simps [of a f x] blk_eq)
  also have "\<dots> = Some (Inr (n + 1 + of_nat (length (y # ys))))" using Cons.prems by (intro Cons.IH) auto
  finally show ?case by (simp add: algebra_simps)
qed

lemma free_level:
  assumes ok: "lists_ok a fl" and l: "16 \<le> l" "l \<le> root_log2size a"
  shows "length (fl l) = card {b \<in> free_set a fl. lev a b = l}"
proof -
  have "{b \<in> free_set a fl. lev a b = l} = set (fl l)"
    using free_set_iff [OF ok] lists_okD [OF ok l] by auto
  moreover have "distinct (fl l)" using ok l by (simp add: lists_ok_def list_ok_def ring_def)
  ultimately show ?thesis by (simp add: distinct_card)
qed

lemma print_bucket_usage_ok:
  assumes h: "heap_ok a fl A S {}" and c: "counts_ok a A" and l: "16 \<le> l" "l \<le> root_log2size a"
  shows "print_bucket_usage a (buckets a (l - 16)) =
    Some (Inr (of_nat (length (fl l) * 2 ^ l), of_nat (card {b \<in> A. lev a b = l}),
      of_nat (length (fl l)) - of_bool (l = root_log2size a)))"
proof -
  have ok: "lists_ok a fl" and fg: "flags_ok a (free_set a fl) A S {}" using h by (simp_all add: heap_ok_def)
  have lo: "list_ok a l (fl l)" using ok l by (simp add: lists_ok_def)
  have b: "bkt_log2size (buckets a (l - 16)) = l"
    "allocated_blocks (buckets a (l - 16)) = of_nat (card {b \<in> A. lev a b = l})"
    using c l by (simp_all add: counts_ok_def)
  have av: "z < max_blocks a \<and> available (blocks a z)" if "z \<in> set (fl l)" for z
  proof -
    have "z \<in> free_set a fl" using that l by (auto simp: free_set_def)
    then show ?thesis using heap_ok_in_tree(2) [OF h] fg by (auto simp: flags_ok_def)
  qed
  show ?thesis
  proof (cases "fl l")
    case Nil
    then show ?thesis using lo b by (simp add: print_bucket_usage_def list_ok_def)
  next
    case (Cons f ys)
    have "count_free a f f 0 = Some (Inr (0 + of_nat (length (f # ys))))"
      using lo av Cons by (intro count_free_chain) (auto simp: list_ok_def ring_def)
    then show ?thesis using lo b Cons
      by (simp add: print_bucket_usage_def list_ok_def push_bit_eq_mult distrib_right Let_def)
  qed
qed

lemma usage_loop_sums:
  assumes "\<And>i. i \<in> set is \<Longrightarrow> get_bucket i = Inr (i - 16) \<and>
      print_bucket_usage a (buckets a (i - 16)) = Some (Inr (of_nat (f i), of_nat (g i), h i))"
  shows "usage_loop a is (x, y, z) =
    Some (Inr (x + of_nat (\<Sum>i\<leftarrow>is. f i), y + of_nat (\<Sum>i\<leftarrow>is. g i), z + (\<Sum>i\<leftarrow>is. h i)))"
  using assms by (induction "is" arbitrary: x y z) (simp_all add: algebra_simps)

lemma levels_sum:
  assumes "finite B" "\<And>b. b \<in> B \<Longrightarrow> in_tree a b"
  shows "(\<Sum>l\<leftarrow>[16..<Suc (root_log2size a)]. card {b \<in> B. lev a b = l} * w l) = (\<Sum>b\<in>B. w (lev a b))"
    (is "?s = _")
proof -
  have "?s = (\<Sum>l\<in>{16..root_log2size a}. card {b \<in> B. lev a b = l} * w l)"
    by (simp add: interv_sum_list_conv_sum_set_nat atLeastLessThanSuc_atLeastAtMost del: upt_Suc)
  also have "\<dots> = (\<Sum>l\<in>{16..root_log2size a}. \<Sum>b | b \<in> B \<and> lev a b = l. w (lev a b))"
    by (intro sum.cong) auto
  also have "\<dots> = (\<Sum>b\<in>B. w (lev a b))"
    using assms lev_bounds by (intro sum.group) auto
  finally show ?thesis .
qed

lemma of_nat_lengths:
  "R \<notin> set ls \<Longrightarrow> (\<Sum>l\<leftarrow>ls. of_nat (f l) - of_bool (l = R) :: u64) = of_nat (\<Sum>l\<leftarrow>ls. f l)"
  by (induction ls) auto

lemma avail_sum:
  assumes ok: "lists_ok a fl" and fin: "finite (free_set a fl)" and R: "16 \<le> root_log2size a"
  shows "(\<Sum>l\<leftarrow>[16..<Suc (root_log2size a)]. of_nat (length (fl l)) - of_bool (l = root_log2size a) :: u64) =
    of_nat (card (free_set a fl)) - 1"
proof -
  let ?R = "root_log2size a"
  have "(\<Sum>l\<leftarrow>[16..<Suc ?R]. length (fl l)) = (\<Sum>l\<leftarrow>[16..<Suc ?R]. card {b \<in> free_set a fl. lev a b = l} * 1)"
    by (intro arg_cong [where f = sum_list] map_cong) (auto simp: free_level [OF ok])
  also have "\<dots> = card (free_set a fl)"
    using levels_sum [of "free_set a fl" a "\<lambda>_. 1"] fin by (simp add: free_set_iff [OF ok])
  finally have n: "(\<Sum>l\<leftarrow>[16..<Suc ?R]. length (fl l)) = card (free_set a fl)" .
  have init: "(\<Sum>l\<leftarrow>[16..<?R]. of_nat (length (fl l)) - of_bool (l = ?R) :: u64) =
      of_nat (\<Sum>l\<leftarrow>[16..<?R]. length (fl l))"
    by (rule of_nat_lengths) simp
  show ?thesis using n R init by (simp flip: n)
qed

lemma percentage:
  assumes "R \<le> 32" "n \<le> 2 ^ R"
  shows "of_nat n * 100 div 2 ^ R = (of_nat (n * 100 div 2 ^ R) :: u64)"
proof -
  have "(2::nat) ^ R \<le> 2 ^ 32" using assms(1) by (intro power_increasing) auto
  then have b: "n \<le> 2 ^ 32" "n * 100 < 2 ^ 64" "(2::nat) ^ R < 2 ^ 64" using assms(2) by auto
  have u: "unat (of_nat (n * 100) :: u64) = n * 100" "unat (of_nat (2 ^ R) :: u64) = 2 ^ R"
    using b by (simp_all add: unat_of_nat del: of_nat_mult of_nat_power)
  have "n * 100 div 2 ^ R \<le> n * 100" by simp
  then have "n * 100 div 2 ^ R < 2 ^ 64" using b by linarith
  then have q: "unat (of_nat (n * 100 div 2 ^ R) :: u64) = n * 100 div 2 ^ R"
    by (simp only: unat_of_nat) simp
  have "of_nat (n * 100) div of_nat (2 ^ R) = (of_nat (n * 100 div 2 ^ R) :: u64)"
    unfolding word_unat_eq_iff unat_div u q ..
  then show ?thesis by simp
qed

lemma print_usage_ok:
  assumes h: "heap_ok a fl A S {}" and c: "counts_ok a A"
  defines "used \<equiv> \<Sum>b\<in>A. 2 ^ lev a b"
  shows "print_usage a = Some (Inr (of_nat used, of_nat (2 ^ root_log2size a - used),
    of_nat (used * 100 div 2 ^ root_log2size a), of_nat (card A), of_nat (card (free_set a fl)) - 1))"
proof -
  let ?R = "root_log2size a" and ?F = "free_set a fl"
  have g: "geom a" and ok: "lists_ok a fl" and s: "shape ?R ?F A S {}" using h by (simp_all add: heap_ok_def)
  have R: "16 \<le> ?R" "?R \<le> 32" using g by (simp_all add: geom_def)
  have fin: "finite ?F" "finite A" "?F \<inter> A = {}" using s by (auto simp: shape_def)
  have tree: "b \<in> ?F \<Longrightarrow> in_tree a b" "b \<in> A \<Longrightarrow> in_tree a b" for b using heap_ok_in_tree(1) [OF h] by blast+
  have total: "used + (\<Sum>b\<in>?F. 2 ^ lev a b) = 2 ^ ?R"
    using s fin by (simp add: shape_def used_def lev_def sum.union_disjoint add.commute)
  let ?f = "\<lambda>l. length (fl l) * 2 ^ l" and ?g = "\<lambda>l. card {b \<in> A. lev a b = l}"
    and ?h = "\<lambda>l. of_nat (length (fl l)) - of_bool (l = ?R) :: u64"
  have loop: "usage_loop a [16..<Suc ?R] (0, 0, 0) = Some (Inr (0 + of_nat (\<Sum>i\<leftarrow>[16..<Suc ?R]. ?f i),
      0 + of_nat (\<Sum>i\<leftarrow>[16..<Suc ?R]. ?g i), 0 + (\<Sum>i\<leftarrow>[16..<Suc ?R]. ?h i)))"
    using R by (intro usage_loop_sums conjI get_bucket_ok print_bucket_usage_ok [OF h c]) auto
  have f: "(\<Sum>i\<leftarrow>[16..<Suc ?R]. ?f i) = 2 ^ ?R - used"
  proof -
    have "(\<Sum>i\<leftarrow>[16..<Suc ?R]. ?f i) = (\<Sum>i\<leftarrow>[16..<Suc ?R]. card {b \<in> ?F. lev a b = i} * 2 ^ i)"
      by (intro arg_cong [where f = sum_list] map_cong) (auto simp: free_level [OF ok])
    then show ?thesis using levels_sum [of ?F a "\<lambda>l. 2 ^ l"] fin tree total by simp
  qed
  have g': "(\<Sum>i\<leftarrow>[16..<Suc ?R]. ?g i) = card A"
    using levels_sum [of A a "\<lambda>_. 1"] fin tree by simp
  note av = avail_sum [OF ok fin(1) R(1)]
  have "of_nat (2 ^ ?R) - of_nat (2 ^ ?R - used) = (of_nat used :: u64)"
    using total by (subst of_nat_diff [of used "2 ^ ?R", where 'a = u64]) auto
  then have diff: "2 ^ ?R - of_nat (2 ^ ?R - used) = (of_nat used :: u64)" by simp
  have "used \<le> 2 ^ ?R" using total by simp
  note pc = percentage [OF R(2) this]
  show ?thesis
    unfolding print_usage_def Log2MinSize_def loop f g' av by (simp add: Let_def push_bit_eq_mult diff pc del: left_diff_distrib_numeral)
qed

section \<open>Release of everything\<close>

fun release_all :: "BuddyAllocator \<Rightarrow> u64 list \<Rightarrow> BuddyAllocator res" where
  "release_all a [] = Inr a"
| "release_all a (p # ps) = bindR (free_pages a p) (\<lambda>a'. release_all a' ps)"

lemma release_all_ok:
  assumes "buddy_ok a A" "distinct bs" "set bs = A"
  shows "\<exists>a'. release_all a (map (get_block_phy_addr a) bs) = Inr a' \<and> buddy_ok a' {} \<and>
    root_log2size a' = root_log2size a"
  using assms
proof (induction bs arbitrary: a A)
  case Nil
  then show ?case by simp
next
  case (Cons b bs)
  then obtain a1 where a1: "free_pages a (get_block_phy_addr a b) = Inr a1" "buddy_ok a1 (A - {b})"
    "phy_start a1 = phy_start a" "root_log2size a1 = root_log2size a"
    using free_pages_ok [of a A b] by auto
  have "get_block_phy_addr a1 = get_block_phy_addr a" by (simp add: fun_eq_iff get_block_phy_addr_def a1(3))
  moreover have "set bs = A - {b}" using Cons.prems by auto
  ultimately show ?case using Cons.IH [OF a1(2)] Cons.prems(2) a1 by auto
qed

section \<open>Where the code's addresses lie\<close>

lemma leaf_index:
  assumes "in_tree a b" "lev a b = 16"
  shows "Suc b = 2 ^ (root_log2size a - 16) + position b"
proof -
  have "depth b = root_log2size a - 16" using assms by (auto simp: in_tree_def lev_def)
  then show ?thesis using depth_bounds [of b] by (simp add: position_def)
qed

lemma leaf_addr:
  assumes g: "geom a" and b: "in_tree a b" "lev a b = 16" and phy: "unat (phy_start a) < 2 ^ 63"
  shows "unat (get_block_phy_addr a b) + 65536 =
    unat (phy_start a) + 2 ^ root_log2size a + position b * 65536"
proof -
  have "root_log2size a = (root_log2size a - 16) + 16" using g by (simp add: geom_def)
  then have "(2::nat) ^ root_log2size a = 2 ^ (root_log2size a - 16) * 65536"
    using power_add [of "2::nat" "root_log2size a - 16" 16] by simp
  moreover have "Suc b * 65536 = (2 ^ (root_log2size a - 16) + position b) * 65536"
    using leaf_index [OF b] by simp
  ultimately show ?thesis using unat_block_addr [OF g b(1) phy] by (simp add: algebra_simps)
qed

lemma alloc_block_size_none:
  assumes "geom a" "16 \<le> l"
    "\<And>k. l \<le> k \<Longrightarrow> k \<le> root_log2size a \<Longrightarrow> first_block (buckets a (k - 16)) = None"
  shows "alloc_block_size a l = Inr (None, a)"
  using assms(2,3)
proof (induction "Suc (root_log2size a) - l" arbitrary: l)
  case 0
  then show ?case by (simp add: alloc_block_size.simps [of a l])
next
  case (Suc n)
  have "alloc_block_size a (l + 1) = Inr (None, a)" using Suc.hyps(2) Suc.prems by (intro Suc.hyps(1)) auto
  moreover have "get_bucket l = Inr (l - 16)"
    using Suc.hyps(2) Suc.prems(1) assms(1) by (intro get_bucket_ok) (auto simp: geom_def)
  moreover have "first_block (buckets a (l - 16)) = None" using Suc.hyps(2) by (intro Suc.prems(2)) auto
  ultimately show ?case using Suc.hyps(2) by (simp add: alloc_block_size.simps [of a l])
qed

lemma used_le:
  assumes "buddy_ok a A"
  shows "(\<Sum>b\<in>A. 2 ^ lev a b) \<le> (2::nat) ^ root_log2size a"
proof -
  obtain fl S where s: "shape (root_log2size a) (free_set a fl) A S {}"
    using assms by (auto simp: buddy_ok_def heap_ok_def)
  then have "(\<Sum>b\<in>A. 2 ^ lev a b) \<le> (\<Sum>b\<in>free_set a fl \<union> A. (2::nat) ^ lev a b)"
    by (intro sum_mono2) (auto simp: shape_def)
  then show ?thesis using s by (simp add: shape_def lev_def)
qed

section \<open>Properties\<close>

text \<open>C3: from start-up on, with any sequence of requests of at least the smallest size in which only live
  allocations are returned, the allocator never panics or leaves its arrays; the live
  allocations have distinct addresses and stand for disjoint parts of the region.\<close>

theorem page_requests_safe:
  assumes "25 \<le> R" "R \<le> 31" "0 < unat addr" "unat addr < 2 ^ 63"
    and "\<And>l. Get l \<in> set rs \<Longrightarrow> 16 \<le> l"
  shows "\<exists>a a' live A. buddy_allocator_init addr R = Inr a \<and> page_requests a [] rs = Inr (a', live) \<and>
    distinct (map fst live) \<and> buddy_ok a' A \<and> set live = live_set a' A \<and>
    (\<forall>b \<in> A. extent (root_log2size a') b \<subseteq> {0..<2 ^ root_log2size a'}) \<and>
    (\<forall>b \<in> A. \<forall>c \<in> A. b \<noteq> c \<longrightarrow> extent (root_log2size a') b \<inter> extent (root_log2size a') c = {})"
proof -
  obtain a where a: "buddy_allocator_init addr R = Inr a" "buddy_ok a {}" "phy_start a = addr"
    using buddy_allocator_init_ok [OF assms(1,2)] by blast
  then have "pages_ok a (set [])" using assms(3,4) by (auto simp: pages_ok_def live_set_def intro!: exI [of _ "{}"])
  then obtain a' live where r: "page_requests a [] rs = Inr (a', live)" "pages_ok a' (set live)"
      "distinct (map fst live)"
    using pages.run_safe [of a "[]" rs] assms(5) by (auto simp: page_requests_def)
  then obtain A where A: "buddy_ok a' A" "set live = live_set a' A" by (auto simp: pages_ok_def)
  moreover have "extent (root_log2size a') b \<subseteq> {0..<2 ^ root_log2size a'}" if "b \<in> A" for b
    using buddy_okD(3) [OF A(1) that] by (intro extent_in_region) (simp add: in_tree_def)
  ultimately show ?thesis using a(1) r buddy_ok_extents [OF A(1)] by blast
qed

theorem page_requests_safe_witness:
  "\<exists>a a' live. buddy_allocator_init 0x4000000 30 = Inr a \<and>
     page_requests a [] [Get 16, Get 17, Put 0, Get 20] = Inr (a', live) \<and> distinct (map fst live)"
proof -
  define rs where "rs = [Get 16, Get 17, Put 0, Get 20]"
  have "\<And>l. Get l \<in> set rs \<Longrightarrow> 16 \<le> l" by (auto simp: rs_def)
  from page_requests_safe [of 30 "0x4000000" rs, OF _ _ _ _ this] show ?thesis
    unfolding rs_def [symmetric] by simp blast
qed

text \<open>C24: a request is refused exactly if no free block is large enough, a request of the smallest size
  exactly if the blocks in use fill the region, and a refusal changes nothing.\<close>

theorem allocate_pages_refused:
  assumes ok: "buddy_ok a A" and l: "16 \<le> l" and phy: "0 < unat (phy_start a)" "unat (phy_start a) < 2 ^ 63"
  shows "((\<exists>a'. allocate_pages a l = Inr (0, a')) \<longleftrightarrow> allocate_pages a l = Inr (0, a)) \<and>
    (allocate_pages a l = Inr (0, a) \<longleftrightarrow>
      (\<forall>k. l \<le> k \<longrightarrow> k \<le> root_log2size a \<longrightarrow> first_block (buckets a (k - 16)) = None)) \<and>
    (allocate_pages a 16 = Inr (0, a) \<longleftrightarrow> (\<Sum>b\<in>A. 2 ^ lev a b) = (2::nat) ^ root_log2size a)"
proof -
  note g = buddy_okD(1) [OF ok]
  have nz: "get_block_phy_addr a b \<noteq> 0" if "in_tree a b" for b
    using unat_block_addr [OF g that phy(2)] phy(1) by (metis add_is_0 not_gr0 unat_0)
  have none: "allocate_pages a k = Inr (0, a)"
    if "16 \<le> k" "\<forall>j. k \<le> j \<longrightarrow> j \<le> root_log2size a \<longrightarrow> first_block (buckets a (j - 16)) = None" for k
    using alloc_block_size_none [OF g that(1)] that by (simp add: allocate_pages_def Log2MinSize_def)
  have full: "\<not> (\<Sum>b\<in>A. 2 ^ lev a b) = (2::nat) ^ root_log2size a"
    if b: "buddy_ok a' (insert b A)" "b \<notin> A" "root_log2size a' = root_log2size a" for a' b
  proof -
    have "lev a' = lev a" by (simp add: fun_eq_iff lev_def b(3))
    then have "2 ^ lev a b + (\<Sum>b\<in>A. 2 ^ lev a b) \<le> (2::nat) ^ root_log2size a"
      using used_le [OF b(1)] b(2,3) buddy_okD(2) [OF ok] by simp
    then show ?thesis by (metis add_le_same_cancel2 le_zero_eq power_not_zero zero_neq_numeral)
  qed
  have smallest: "allocate_pages a 16 = Inr (0, a) \<longleftrightarrow> (\<Sum>b\<in>A. 2 ^ lev a b) = (2::nat) ^ root_log2size a"
    using allocate_pages_ok [OF ok, of 16] buddy_ok_full [OF ok] full nz by fastforce
  show ?thesis using allocate_pages_ok [OF ok l] none [OF l] nz smallest by fastforce
qed

theorem allocate_pages_refused_witness:
  "\<exists>a. buddy_new 0x4000000 30 preallocated_blocks MaxBlocks = Inr a \<and> allocate_pages a 16 \<noteq> Inr (0, a) \<and>
     allocate_pages a 31 = Inr (0, a)"
proof -
  obtain a where a: "buddy_new 0x4000000 30 preallocated_blocks MaxBlocks = Inr a" "buddy_ok a {}"
    "phy_start a = 0x4000000" "root_log2size a = 30"
    using buddy_new_ok [of 30 MaxBlocks "0x4000000" preallocated_blocks]
    by (auto simp: MaxBlocks_def BlockSize_def)
  then show ?thesis using allocate_pages_refused [OF a(2), of 31] by simp
qed

text \<open>C4: once every block in use has been returned, in whatever order, the whole region is one free
  block again: all splitting has been undone.\<close>

theorem release_all_coalesces:
  assumes "buddy_ok a A" "distinct bs" "set bs = A"
  shows "\<exists>a'. release_all a (map (get_block_phy_addr a) bs) = Inr a' \<and>
    (\<forall>i. first_block (buckets a' i) = (if i + 16 = root_log2size a then Some 0 else None)) \<and>
    blk_next (blocks a' 0) = Some 0"
proof -
  obtain a' where a': "release_all a (map (get_block_phy_addr a) bs) = Inr a'" "buddy_ok a' {}"
    "root_log2size a' = root_log2size a" using release_all_ok [OF assms] by blast
  have R: "16 \<le> root_log2size a'" using buddy_okD(1) [OF a'(2)] by (simp add: geom_def)
  have "first_block (buckets a' i) = (if i + 16 = root_log2size a then Some 0 else None)" for i
    using buddy_ok_empty(1) [OF a'(2), of "i + 16"] buddy_ok_above [OF a'(2), of i] a'(3)
    by (cases "i + 16 \<le> root_log2size a") auto
  then show ?thesis using a' buddy_ok_empty(2) [OF a'(2) R order_refl] by blast
qed

theorem release_all_coalesces_witness:
  "\<exists>a b a1 a2. buddy_new 0x4000000 30 preallocated_blocks MaxBlocks = Inr a \<and>
     allocate_pages a 20 = Inr (get_block_phy_addr a b, a1) \<and>
     release_all a1 [get_block_phy_addr a b] = Inr a2 \<and> first_block (buckets a2 14) = Some 0"
proof -
  obtain a where a: "buddy_new 0x4000000 30 preallocated_blocks MaxBlocks = Inr a" "buddy_ok a {}"
    "root_log2size a = 30"
    using buddy_new_ok [of 30 MaxBlocks "0x4000000" preallocated_blocks]
    by (auto simp: MaxBlocks_def BlockSize_def)
  obtain b a1 where b: "allocate_pages a 20 = Inr (get_block_phy_addr a b, a1)" "buddy_ok a1 {b}"
    "phy_start a1 = phy_start a" "root_log2size a1 = 30"
    using first_fit [OF a(2), of 20] a(3) by auto
  then show ?thesis
    using release_all_coalesces [OF b(2), of "[b]"] a(1) by (auto simp: get_block_phy_addr_def)
qed

text \<open>The numbers of the usage report.  The loop over each list ends; bytes used and free, the percentage
  and the count of allocated blocks are those of the blocks in use.  The count of available
  blocks is one too small: 0 with nothing in use, all ones when the region is full.\<close>

theorem print_usage_reports:
  assumes "buddy_ok a A"
  shows "\<exists>avail. print_usage a = Some (Inr (of_nat (\<Sum>b\<in>A. 2 ^ lev a b),
      of_nat (2 ^ root_log2size a - (\<Sum>b\<in>A. 2 ^ lev a b)),
      of_nat ((\<Sum>b\<in>A. 2 ^ lev a b) * 100 div 2 ^ root_log2size a), of_nat (card A), avail)) \<and>
    (A = {} \<longrightarrow> avail = 0) \<and> ((\<Sum>b\<in>A. 2 ^ lev a b) = (2::nat) ^ root_log2size a \<longrightarrow> avail = - 1)"
proof -
  obtain fl S where h: "heap_ok a fl A S {}" and c: "counts_ok a A" using assms by (auto simp: buddy_ok_def)
  let ?F = "free_set a fl"
  have s: "shape (root_log2size a) ?F A S {}" using h by (simp add: heap_ok_def)
  have "?F = {0}" if "A = {}" using shape_empty s that by blast
  moreover have "?F = {}" if "(\<Sum>b\<in>A. 2 ^ lev a b) = (2::nat) ^ root_log2size a"
  proof -
    have fin: "finite ?F" "finite A" "?F \<inter> A = {}" using s by (auto simp: shape_def)
    then have "(\<Sum>b\<in>?F. 2 ^ lev a b) = (0::nat)"
      using s that by (simp add: shape_def lev_def sum.union_disjoint)
    then show ?thesis using fin(1) by simp
  qed
  ultimately show ?thesis using print_usage_ok [OF h c] by (intro exI [of _ "of_nat (card ?F) - 1"]) auto
qed

theorem print_usage_reports_witness:
  "\<exists>a. buddy_new 0x4000000 30 preallocated_blocks MaxBlocks = Inr a \<and>
     print_usage a = Some (Inr (0, 0x40000000, 0, 0, 0))"
proof -
  obtain a where a: "buddy_new 0x4000000 30 preallocated_blocks MaxBlocks = Inr a" "buddy_ok a {}"
    "root_log2size a = 30"
    using buddy_new_ok [of 30 MaxBlocks "0x4000000" preallocated_blocks]
    by (auto simp: MaxBlocks_def BlockSize_def)
  then show ?thesis using print_usage_reports [OF a(2)] by auto
qed



text \<open>The address given out for a block is computed from its number in the tree and not from its place in
  the region: of the live blocks of the smallest size all but the first lie past the end of the
  region, and block \<open>i\<close> of any larger size overlaps block \<open>i + 1\<close> of the same size.\<close>

theorem block_addresses_leave_region:
  assumes ok: "buddy_ok a A" and phy: "unat (phy_start a) < 2 ^ 63" and b: "b \<in> A"
  shows "(lev a b = 16 \<and> position b \<noteq> 0 \<longrightarrow>
      unat (phy_start a) + 2 ^ root_log2size a \<le> unat (get_block_phy_addr a b)) \<and>
    (16 < lev a b \<and> Suc b \<in> A \<and> lev a (Suc b) = lev a b \<longrightarrow>
      unat (get_block_phy_addr a b) < unat (get_block_phy_addr a (Suc b)) \<and>
      unat (get_block_phy_addr a (Suc b)) < unat (get_block_phy_addr a b) + 2 ^ lev a b)"
proof (intro conjI impI)
  note g = buddy_okD(1) [OF ok]
  assume l: "lev a b = 16 \<and> position b \<noteq> 0"
  then have "unat (get_block_phy_addr a b) + 65536 = unat (phy_start a) + 2 ^ root_log2size a + position b * 65536"
    using leaf_addr [OF g buddy_okD(3) [OF ok b] _ phy] by simp
  moreover have "65536 \<le> position b * 65536" using l by simp
  ultimately show "unat (phy_start a) + 2 ^ root_log2size a \<le> unat (get_block_phy_addr a b)" by linarith
next
  note g = buddy_okD(1) [OF ok]
  assume c: "16 < lev a b \<and> Suc b \<in> A \<and> lev a (Suc b) = lev a b"
  have "unat (get_block_phy_addr a (Suc b)) = unat (get_block_phy_addr a b) + 65536"
    using unat_block_addr [OF g buddy_okD(3) [OF ok b] phy] c
      unat_block_addr [OF g buddy_okD(3) [OF ok, of "Suc b"] phy] by simp
  moreover have "(2::nat) ^ 17 \<le> 2 ^ lev a b" using c by (intro power_increasing) auto
  ultimately show "unat (get_block_phy_addr a b) < unat (get_block_phy_addr a (Suc b))"
    "unat (get_block_phy_addr a (Suc b)) < unat (get_block_phy_addr a b) + 2 ^ lev a b" by auto
qed

lemma depth_one: "depth b = 1 \<Longrightarrow> b = 1 \<or> b = 2"
  using depth_bounds [of b] by auto

theorem block_addresses_leave_region_witness:
  "\<exists>a p a1 q a2. buddy_new 0x4000000 17 preallocated_blocks MaxBlocks = Inr a \<and>
     allocate_pages a 16 = Inr (p, a1) \<and> allocate_pages a1 16 = Inr (q, a2) \<and>
     (0x4000000 + 0x20000 \<le> unat p \<or> 0x4000000 + 0x20000 \<le> unat q)"
proof -
  obtain a where a: "buddy_new 0x4000000 17 preallocated_blocks MaxBlocks = Inr a" "buddy_ok a {}"
    "root_log2size a = 17" "phy_start a = 0x4000000"
    using buddy_new_ok [of 17 MaxBlocks "0x4000000" preallocated_blocks]
    by (auto simp: MaxBlocks_def BlockSize_def)
  obtain b a1 where b: "allocate_pages a 16 = Inr (get_block_phy_addr a b, a1)" "buddy_ok a1 {b}" "lev a b = 16"
    "phy_start a1 = 0x4000000" "root_log2size a1 = 17"
    using first_fit [OF a(2), of 16] a by auto
  have "lev a1 b = 16" using b(3,5) a(3) by (simp add: lev_def)
  then obtain c a2 where c: "allocate_pages a1 16 = Inr (get_block_phy_addr a1 c, a2)" "c \<noteq> b" "lev a1 c = 16"
    "buddy_ok a2 {c, b}" "phy_start a2 = 0x4000000" "root_log2size a2 = 17"
    using smallest_fit [OF b(2)] b by auto
  have ad: "get_block_phy_addr a b = get_block_phy_addr a2 b" "get_block_phy_addr a1 c = get_block_phy_addr a2 c"
    "lev a2 b = 16" "lev a2 c = 16"
    using a b c by (simp_all add: get_block_phy_addr_def lev_def)
  have "b = 1 \<or> b = 2" "c = 1 \<or> c = 2"
    using depth_one [of b] depth_one [of c] ad(3,4) c(6) by (auto simp: lev_def)
  then obtain d where d: "d \<in> {c, b}" "d = 2" using c(2) by auto
  have "position 2 = 1" by (simp add: position_def depth.simps)
  then have "0x4000000 + 0x20000 \<le> unat (get_block_phy_addr a2 d)"
    using block_addresses_leave_region [OF c(4) _ d(1)] d ad(3,4) c(5,6) by auto
  then show ?thesis using a(1) b(1) c(1) d(1) ad(1,2) by auto
qed

lemma page_allocator_init_default:
  assumes "vec_size regions < slots_N regions" "rgn_size (vec_buf regions (vec_size regions)) = 0"
  shows "page_allocator_init regions = buddy_allocator_init 0x4000000 30"
proof -
  have "scan_regions regions is 0 0 = Inr (0, 0)" for "is"
    using assms by (induction "is") (simp_all add: sv_index_def get_buf_def Let_def)
  moreover have "clip_region 0 0 = (0x40000, 0x4000000)" by (simp add: clip_region_def)
  moreover have "unat (log2 (0x40000 * 4096)) = 30" using nlog_unique [of 30 "2 ^ 30"] by (simp add: unat_log2)
  ultimately show ?thesis by (simp add: page_allocator_init_def Let_def push_bit_eq_mult)
qed

text \<open>Start-up always manages the gigabyte at 64 MiB, whatever the memory map says: the subscript of the
  region vector reads the unused slot behind the last region, no region is ever seen, and the
  page count wraps below zero and is clipped.\<close>

theorem page_allocator_init_ignores_map:
  assumes "vec_size regions < slots_N regions" "rgn_size (vec_buf regions (vec_size regions)) = 0"
  shows "\<exists>a. page_allocator_init regions = Inr a \<and> buddy_ok a {} \<and>
    phy_start a = 0x4000000 \<and> root_log2size a = 30"
  using buddy_allocator_init_ok [of 30 "0x4000000"] page_allocator_init_default [OF assms] by simp

theorem page_allocator_init_ignores_map_witness:
  "\<exists>v a. sv_push_back (sv_new 1024 (\<lambda>_. \<lparr>rgn_type = 0, rgn_phy_start = 0, rgn_virt_start = 0, rgn_size = 0, rgn_attr = 0\<rparr>))
       \<lparr>rgn_type = 7, rgn_phy_start = 0x10000000, rgn_virt_start = 0, rgn_size = 0x2000000, rgn_attr = 0\<rparr> = Inr v \<and>
     page_allocator_init v = Inr a \<and> phy_start a = 0x4000000 \<and> root_log2size a = 30"
proof -
  define z where "z = \<lparr>rgn_type = 0, rgn_phy_start = 0, rgn_virt_start = 0, rgn_size = 0, rgn_attr = 0\<rparr>"
  define r where "r = \<lparr>rgn_type = 7, rgn_phy_start = 0x10000000, rgn_virt_start = 0, rgn_size = 0x2000000, rgn_attr = 0\<rparr>"
  define v where "v = \<lparr>vec_buf = (\<lambda>_. z)(0 := r), vec_size = 1, slots_N = 1024\<rparr>"
  have "sv_push_back (sv_new 1024 (\<lambda>_. z)) r = Inr v"
    by (simp add: sv_push_back_def put_buf_def sv_new_def v_def)
  moreover have "vec_size v < slots_N v" "rgn_size (vec_buf v (vec_size v)) = 0" by (simp_all add: v_def z_def)
  ultimately show ?thesis using page_allocator_init_ignores_map [of v] unfolding z_def r_def by auto
qed

end
