(* ===== verification/Page_Table.thy ===== *)
theory Page_Table
  imports Cpu_Defs
begin

text \<open>
  Page tables: the entry structs of \<^verbatim>\<open>cpu_defs.h\<close> and their bit layout, the walk that
  \<^verbatim>\<open>dump_pagetable\<close> and \<^verbatim>\<open>calculate_total_pages\<close> make through four levels, and the tables the
  boot loader (\<^verbatim>\<open>boot_page_table.c\<close>) and the kernel (\<^verbatim>\<open>mm/mm.cpp\<close>) build.  Where the linker puts
  the tables is a parameter.
\<close>

section \<open>Entries\<close>

text \<open>The four packed structs have the same layout; names that differ between the levels are joined.\<close>

record PageTableEntry =
  pe_p :: bool
  pe_rw :: bool
  pe_us :: bool
  pe_pwt :: bool
  pe_pcd :: bool
  pe_a :: bool
  pe_d :: bool
  pe_pat :: bool
  pe_g :: bool
  pe_avl :: "3 word"
  pe_base_addr :: "40 word"
  pe_available :: "11 word"
  pe_nx :: bool

type_synonym PageDirectoryEntry = PageTableEntry
type_synonym PageDirectoryPointerEntry = PageTableEntry
type_synonym PageMappingL4Entry = PageTableEntry

definition zero_entry :: PageTableEntry where
  "zero_entry = \<lparr>pe_p = False, pe_rw = False, pe_us = False, pe_pwt = False, pe_pcd = False, pe_a = False,
     pe_d = False, pe_pat = False, pe_g = False, pe_avl = 0, pe_base_addr = 0, pe_available = 0, pe_nx = False\<rparr>"

definition pte_bits :: "PageTableEntry \<Rightarrow> u64" where
  "pte_bits e =
     of_bool (pe_p e) OR push_bit 1 (of_bool (pe_rw e)) OR push_bit 2 (of_bool (pe_us e)) OR
     push_bit 3 (of_bool (pe_pwt e)) OR push_bit 4 (of_bool (pe_pcd e)) OR push_bit 5 (of_bool (pe_a e)) OR
     push_bit 6 (of_bool (pe_d e)) OR push_bit 7 (of_bool (pe_pat e)) OR push_bit 8 (of_bool (pe_g e)) OR
     push_bit 9 (ucast (pe_avl e)) OR push_bit 12 (ucast (pe_base_addr e)) OR
     push_bit 52 (ucast (pe_available e)) OR push_bit 63 (of_bool (pe_nx e))"

definition is_page_present :: "u64 \<Rightarrow> bool" where
  "is_page_present page_table_entry = (page_table_entry AND 1 \<noteq> 0)"

lemma present_pte_bits [simp]: "is_page_present (pte_bits e) = pe_p e"
proof -
  have "bit (pte_bits e) 0 = pe_p e" by (simp add: pte_bits_def bit_simps)
  moreover have "w AND 1 = of_bool (bit w 0)" for w :: u64 by (rule bit_word_eqI) (auto simp: bit_simps)
  ultimately show ?thesis by (simp add: is_page_present_def)
qed

lemma large_pte_bits [simp]: "pte_bits e AND 0x80 \<noteq> 0 \<longleftrightarrow> pe_pat e"
proof -
  have b: "bit (pte_bits e) 7 = pe_pat e" by (simp add: pte_bits_def bit_simps)
  have "pte_bits e AND 2 ^ 7 = 0 \<longleftrightarrow> \<not> bit (pte_bits e) 7" by (rule and_exp_eq_0_iff_not_bit)
  then show ?thesis using b by simp
qed

text \<open>The address bits of an entry with clear upper bits.\<close>

lemma frame_pte_bits:
  assumes "pe_available e = 0" "\<not> pe_nx e"
  shows "pte_bits e AND 0xfffffffffffff000 = push_bit 12 (ucast (pe_base_addr e))"
proof -
  have m: "(0xfffffffffffff000 :: u64) = push_bit 12 (mask 52)" by (simp add: mask_eq_exp_minus_1)
  show ?thesis
    unfolding m
  proof (rule bit_word_eqI)
    fix n
    assume "n < LENGTH(64)"
    then show "bit (pte_bits e AND push_bit 12 (mask 52)) n = bit (push_bit 12 (ucast (pe_base_addr e)) :: u64) n"
      using assms by (cases "n < 12") (auto simp: pte_bits_def bit_simps dest: bit_imp_le_length)
  qed
qed

lemma unat_frame:
  assumes "x < 2 ^ 52" "4096 dvd x"
  shows "unat (push_bit 12 (ucast (ucast (drop_bit 12 (of_nat x :: u64)) :: 40 word)) :: u64) = x"
proof -
  obtain y where y: "x = 4096 * y" using assms(2) by (rule dvdE)
  then have ylt: "y < 2 ^ 40" using assms(1) by simp
  have "unat (of_nat x :: u64) = x" using assms(1) by (simp add: unat_of_nat)
  then have "unat (drop_bit 12 (of_nat x :: u64)) = y"
    by (subst unat_drop_bit_eq) (simp add: y drop_bit_eq_div)
  then have d: "drop_bit 12 (of_nat x :: u64) = of_nat y"
    using ylt by (simp add: word_unat_eq_iff unat_of_nat)
  have "unat (ucast (ucast (of_nat y :: u64) :: 40 word) :: u64) = y"
    using ylt by (simp add: unsigned_ucast_eq unat_of_nat take_bit_eq_mod unat_mod)
  then have "(ucast (ucast (of_nat y :: u64) :: 40 word) :: u64) = of_nat y"
    using ylt by (simp add: word_unat_eq_iff unat_of_nat)
  then show ?thesis
    unfolding d using ylt by (simp add: push_bit_eq_mult unat_word_ariths unat_of_nat y)
qed

section \<open>Walking the tables\<close>

datatype page = Page4K u64 | Page2M u64

text \<open>The physical page under the indices \<open>i\<close>, \<open>j\<close>, \<open>k\<close>, \<open>l\<close>, as the nested loops of \<^verbatim>\<open>dump_pagetable\<close>
  find it.  The memory the tables lie in is a partial function from addresses to entries.\<close>

definition walk :: "(u64 \<Rightarrow> u64 option) \<Rightarrow> u64 \<Rightarrow> nat \<Rightarrow> nat \<Rightarrow> nat \<Rightarrow> nat \<Rightarrow> page option" where
  "walk rd pml4t i j k l =
     Option.bind (rd (pml4t + of_nat (8 * i))) (\<lambda>e4.
     if \<not> is_page_present e4 then None else
     Option.bind (rd ((e4 AND 0xfffffffffffff000) + of_nat (8 * j))) (\<lambda>e3.
     if \<not> is_page_present e3 then None else
     Option.bind (rd ((e3 AND 0xfffffffffffff000) + of_nat (8 * k))) (\<lambda>e2.
     if \<not> is_page_present e2 then None
     else if e2 AND 0x80 \<noteq> 0 then Some (Page2M (drop_bit 21 e2))
     else
     Option.bind (rd ((e2 AND 0xfffffffffffff000) + of_nat (8 * l))) (\<lambda>e1.
     if \<not> is_page_present e1 then None else Some (Page4K (drop_bit 12 e1))))))"

text \<open>The count of present 4K pages that \<^verbatim>\<open>dump_pagetable\<close> makes.\<close>

definition dump_pagetable :: "(u64 \<Rightarrow> u64 option) \<Rightarrow> u64 \<Rightarrow> nat" where
  "dump_pagetable rd pml4t =
     (\<Sum>i\<leftarrow>[0..<512]. \<Sum>j\<leftarrow>[0..<512]. \<Sum>k\<leftarrow>[0..<512]. \<Sum>l\<leftarrow>[0..<512].
        case walk rd pml4t i j k l of Some (Page4K _) \<Rightarrow> 1 | _ \<Rightarrow> 0)"

text \<open>The kernel's own count.  The first present page it meets is not counted and ends the scan of its
  page table.\<close>

fun count_pt :: "(u64 \<Rightarrow> u64) \<Rightarrow> u64 \<Rightarrow> nat list \<Rightarrow> nat \<times> bool \<Rightarrow> nat \<times> bool" where
  "count_pt rd pt [] st = st"
| "count_pt rd pt (l # ls) (total_pages, pte_printed) =
     (if is_page_present (rd (pt + of_nat (8 * l)))
      then if \<not> pte_printed then (total_pages, True)
           else count_pt rd pt ls (total_pages + 1, pte_printed)
      else count_pt rd pt ls (total_pages, pte_printed))"

definition count_pdt :: "(u64 \<Rightarrow> u64) \<Rightarrow> u64 \<Rightarrow> nat \<times> bool \<Rightarrow> nat \<times> bool" where
  "count_pdt rd pdt st = fold (\<lambda>k st.
     let e = rd (pdt + of_nat (8 * k)) in
     if is_page_present e \<and> e AND 0x80 = 0
     then count_pt rd (e AND 0xfffffffffffff000) [0..<512] st else st) [0..<512] st"

definition count_pdpt :: "(u64 \<Rightarrow> u64) \<Rightarrow> u64 \<Rightarrow> nat \<times> bool \<Rightarrow> nat \<times> bool" where
  "count_pdpt rd pdpt st = fold (\<lambda>j st.
     let e = rd (pdpt + of_nat (8 * j)) in
     if is_page_present e then count_pdt rd (e AND 0xfffffffffffff000) st else st) [0..<512] st"

definition calculate_total_pages :: "(u64 \<Rightarrow> u64) \<Rightarrow> u64 \<Rightarrow> nat" where
  "calculate_total_pages rd pml4t =
     fst (fold (\<lambda>i st.
       let e = rd (pml4t + of_nat (8 * i)) in
       if is_page_present e then count_pdpt rd (e AND 0xfffffffffffff000) st else st) [0..<512] (0, False))"

text \<open>The index of an address at the level that starts at bit \<open>n\<close>, and the translation of an address.\<close>

definition level_index :: "nat \<Rightarrow> u64 \<Rightarrow> nat" where
  "level_index n v = unat (drop_bit n v AND 511)"

definition translate :: "(u64 \<Rightarrow> u64 option) \<Rightarrow> u64 \<Rightarrow> u64 \<Rightarrow> u64 option" where
  "translate rd cr3 v =
     (case walk rd cr3 (level_index 39 v) (level_index 30 v) (level_index 21 v) (level_index 12 v) of
        None \<Rightarrow> None
      | Some (Page4K p) \<Rightarrow> Some (push_bit 12 p + (v AND 0xfff))
      | Some (Page2M p) \<Rightarrow> Some (push_bit 21 p + (v AND 0x1fffff)))"

lemma level_index_div: "level_index n v = unat v div 2 ^ n mod 512"
proof -
  have m: "(511 :: u64) = mask 9" by (simp add: mask_eq_exp_minus_1)
  show ?thesis
    unfolding level_index_def m take_bit_eq_mask [symmetric] unsigned_take_bit_eq unat_drop_bit_eq
    by (simp add: take_bit_eq_mod drop_bit_eq_div)
qed

section \<open>A block of tables in memory\<close>

text \<open>The struct that holds one top-level table, one pointer table, \<open>n_pdt\<close> directory entries and \<open>n_pt\<close>
  page table entries, one after the other.\<close>

record PageTables =
  pml4t :: "nat \<Rightarrow> PageMappingL4Entry"
  pdpt :: "nat \<Rightarrow> PageDirectoryPointerEntry"
  pdt :: "nat \<Rightarrow> PageDirectoryEntry"
  pt :: "nat \<Rightarrow> PageTableEntry"

definition zero_tables :: PageTables where
  "zero_tables = \<lparr>pml4t = (\<lambda>_. zero_entry), pdpt = (\<lambda>_. zero_entry), pdt = (\<lambda>_. zero_entry), pt = (\<lambda>_. zero_entry)\<rparr>"

definition entry_at :: "nat \<Rightarrow> nat \<Rightarrow> PageTables \<Rightarrow> nat \<Rightarrow> u64 option" where
  "entry_at n_pdt n_pt t i =
     (if i < 512 then Some (pte_bits (pml4t t i))
      else if i < 1024 then Some (pte_bits (pdpt t (i - 512)))
      else if i < 1024 + n_pdt then Some (pte_bits (pdt t (i - 1024)))
      else if i < 1024 + n_pdt + n_pt then Some (pte_bits (pt t (i - (1024 + n_pdt))))
      else None)"

definition read_tables :: "nat \<Rightarrow> nat \<Rightarrow> nat \<Rightarrow> PageTables \<Rightarrow> u64 \<Rightarrow> u64 option" where
  "read_tables n_pdt n_pt base t pa =
     (if base \<le> unat pa then entry_at n_pdt n_pt t ((unat pa - base) div 8) else None)"

lemma read_at:
  assumes "base + 8 * k < 2 ^ 64"
  shows "read_tables n m base t (of_nat (base + 8 * k)) = entry_at n m t k"
proof -
  have "unat (of_nat (base + 8 * k) :: u64) = base + 8 * k" using assms by (simp only: unat_of_nat) simp
  then show ?thesis unfolding read_tables_def by (simp del: of_nat_add of_nat_mult)
qed

text \<open>An entry that leads to the table or page at physical address \<open>x\<close>.\<close>

definition leads_to :: "PageTableEntry \<Rightarrow> nat \<Rightarrow> bool" where
  "leads_to e x \<longleftrightarrow> pe_p e \<and> pe_available e = 0 \<and> \<not> pe_nx e \<and> \<not> pe_pat e \<and>
     unat (push_bit 12 (ucast (pe_base_addr e)) :: u64) = x"

lemma leads_to_frame: "leads_to e x \<Longrightarrow> pte_bits e AND 0xfffffffffffff000 = of_nat x"
  by (auto simp: leads_to_def frame_pte_bits)

lemma leads_to_page:
  assumes "leads_to e x"
  shows "push_bit 12 (drop_bit 12 (pte_bits e)) = of_nat x"
proof -
  have m: "(0xfffffffffffff000 :: u64) = push_bit 12 (mask 52)" by (simp add: mask_eq_exp_minus_1)
  have "push_bit 12 (drop_bit 12 w) = w AND push_bit 12 (mask 52)" for w :: u64
    by (rule bit_word_eqI) (auto simp: bit_simps)
  then show ?thesis using leads_to_frame [OF assms] unfolding m by simp
qed

lemma leads_to_set:
  assumes "x < 2 ^ 52" "4096 dvd x" "pe_available e = 0" "\<not> pe_nx e" "\<not> pe_pat e" "w = (of_nat x :: u64)" "pe_p e"
    "pe_base_addr e = ucast (drop_bit 12 w)"
  shows "leads_to e x"
  using unat_frame [OF assms(1,2)] assms(3-) by (simp add: leads_to_def)

lemma walk_leads:
  assumes e: "leads_to (pml4t t i) (base + 4096)" "leads_to (pdpt t j) (base + 8192 + 4096 * d)"
      "leads_to (pdt t (512 * d + k)) (base + 8192 + 8 * n + 4096 * q)"
    and i: "i < 512" "j < 512" "k < 512" "l < 512" "512 * d + k < n" "512 * q + l < m"
    and fits: "base + 8192 + 8 * n + 8 * m < 2 ^ 64"
  shows "walk (read_tables n m base t) (of_nat base) i j k l =
    (if pe_p (pt t (512 * q + l)) then Some (Page4K (drop_bit 12 (pte_bits (pt t (512 * q + l))))) else None)"
proof -
  let ?rd = "read_tables n m base t"
  have r4: "?rd (of_nat base + of_nat (8 * i)) = Some (pte_bits (pml4t t i))"
    using read_at [of base i n m t] i fits by (simp add: entry_at_def)
  have r3: "?rd (of_nat (base + 4096) + of_nat (8 * j)) = Some (pte_bits (pdpt t j))"
    using read_at [of base "512 + j" n m t] i fits by (simp add: entry_at_def algebra_simps)
  have r2: "?rd (of_nat (base + 8192 + 4096 * d) + of_nat (8 * k)) = Some (pte_bits (pdt t (512 * d + k)))"
    using read_at [of base "1024 + (512 * d + k)" n m t] i fits by (simp add: entry_at_def algebra_simps)
  have r1: "?rd (of_nat (base + 8192 + 8 * n + 4096 * q) + of_nat (8 * l)) = Some (pte_bits (pt t (512 * q + l)))"
    using read_at [of base "1024 + n + (512 * q + l)" n m t] i fits by (simp add: entry_at_def algebra_simps)
  have "pe_p (pml4t t i)" "pe_p (pdpt t j)" "pe_p (pdt t (512 * d + k))" "\<not> pe_pat (pdt t (512 * d + k))"
    using e by (simp_all add: leads_to_def)
  then show ?thesis
    unfolding walk_def r4 Option.bind.simps leads_to_frame [OF e(1)] r3 leads_to_frame [OF e(2)] r2
      leads_to_frame [OF e(3)] r1 by simp
qed

section \<open>The kernel's tables\<close>

text \<open>The physical address of the byte at offset \<open>off\<close> of the struct \<^verbatim>\<open>t\<close>, linked at \<open>t_vaddr\<close>.\<close>

definition t_phys :: "u64 \<Rightarrow> u64 \<Rightarrow> nat \<Rightarrow> u64" where
  "t_phys t_vaddr kernel_start_phy off = (t_vaddr + of_nat off) - KERNEL_START + kernel_start_phy"

definition n_kernel_pdt :: nat where "n_kernel_pdt = KERNEL_SPACE_PAGES div PAGES_PER_TABLE"

definition setup_page_table_in_kernel_space :: "u64 \<Rightarrow> u64 \<Rightarrow> PageTables \<times> u64" where
  "setup_page_table_in_kernel_space t_vaddr kernel_start_phy =
     (let phys = t_phys t_vaddr kernel_start_phy;
          pdpt_off = 8 * 512; pdt_off = pdpt_off + 8 * 512; pt_off = pdt_off + 8 * n_kernel_pdt;
          t = zero_tables;
          t = t\<lparr>pml4t := (pml4t t)(256 := (pml4t t 256)\<lparr>pe_p := True, pe_rw := True,
                pe_base_addr := ucast (drop_bit 12 (phys pdpt_off))\<rparr>)\<rparr>;
          t = t\<lparr>pdpt := for_upd 512 (\<lambda>i e. e\<lparr>pe_p := True, pe_rw := True,
                pe_base_addr := ucast (drop_bit 12 (phys (pdt_off + 8 * (i * PAGES_PER_TABLE))))\<rparr>) (pdpt t)\<rparr>;
          t = t\<lparr>pdt := for_upd n_kernel_pdt (\<lambda>i e. e\<lparr>pe_p := True, pe_rw := True,
                pe_base_addr := ucast (drop_bit 12 (phys (pt_off + 8 * (i * PAGES_PER_TABLE))))\<rparr>) (pdt t)\<rparr>;
          t = t\<lparr>pt := for_upd KERNEL_SPACE_PAGES (\<lambda>i e. e\<lparr>pe_p := True, pe_rw := True,
                pe_base_addr := of_nat i, pe_pcd := True\<rparr>) (pt t)\<rparr>;
          t = t\<lparr>pt := for_upd KERNEL_IMAGE_PAGES (\<lambda>i e. e\<lparr>pe_p := True, pe_rw := True,
                pe_base_addr := ucast (drop_bit 12 kernel_start_phy + of_nat i)\<rparr>) (pt t)\<rparr>;
          cr3 = phys 0
      in (t, cr3))"

lemma t_phys_of_nat:
  assumes "unat (t_phys v k 0) = base"
  shows "t_phys v k off = of_nat (base + off)"
  using assms by (auto simp: t_phys_def algebra_simps)

lemma zero_entry_simps [simp]:
  "pe_available zero_entry = 0" "\<not> pe_nx zero_entry" "\<not> pe_pat zero_entry" "\<not> pe_p zero_entry"
  by (simp_all add: zero_entry_def)

lemma zero_tables_simps [simp]:
  "pml4t zero_tables i = zero_entry" "pdpt zero_tables i = zero_entry"
  "pdt zero_tables i = zero_entry" "pt zero_tables i = zero_entry"
  by (simp_all add: zero_tables_def)

lemma kernel_tables:
  assumes s: "setup_page_table_in_kernel_space v kphy = (t, cr3)"
    and base: "unat (t_phys v kphy 0) = base" "4096 dvd base" "base + 0x1000000 < 2 ^ 52"
  shows "cr3 = of_nat base" "leads_to (pml4t t 256) (base + 4096)"
    "d < 512 \<Longrightarrow> leads_to (pdpt t d) (base + 8192 + 4096 * d)"
    "q < 2048 \<Longrightarrow> leads_to (pdt t q) (base + 8192 + 8 * 2048 + 4096 * q)"
proof -
  note ph = t_phys_of_nat [OF base(1)]
  have t: "pml4t t 256 = zero_entry\<lparr>pe_p := True, pe_rw := True,
      pe_base_addr := ucast (drop_bit 12 (of_nat (base + 4096) :: u64))\<rparr>"
    "d < 512 \<Longrightarrow> pdpt t d = zero_entry\<lparr>pe_p := True, pe_rw := True,
      pe_base_addr := ucast (drop_bit 12 (of_nat (base + 8192 + 4096 * d) :: u64))\<rparr>"
    "q < 2048 \<Longrightarrow> pdt t q = zero_entry\<lparr>pe_p := True, pe_rw := True,
      pe_base_addr := ucast (drop_bit 12 (of_nat (base + 8192 + 8 * 2048 + 4096 * q) :: u64))\<rparr>"
    "cr3 = of_nat base"
    using s by (auto simp: setup_page_table_in_kernel_space_def n_kernel_pdt_def for_upd_apply ph Let_def ac_simps)
  show "cr3 = of_nat base" by (rule t(4))
  show "leads_to (pml4t t 256) (base + 4096)"
    unfolding t(1) using base by (intro leads_to_set [OF _ _ _ _ _ refl]) auto
  show "leads_to (pdpt t d) (base + 8192 + 4096 * d)" if "d < 512"
    unfolding t(2) [OF that] using base that by (intro leads_to_set [OF _ _ _ _ _ refl]) auto
  show "leads_to (pdt t q) (base + 8192 + 8 * 2048 + 4096 * q)" if "q < 2048"
    unfolding t(3) [OF that] using base that by (intro leads_to_set [OF _ _ _ _ _ refl]) auto
qed

text \<open>The last level: the kernel image, then physical memory one to one.\<close>

lemma leads_to_image:
  assumes kphy: "4096 dvd unat kphy" "unat kphy + 4096 * n < 2 ^ 52"
    and e: "pe_available e = 0" "\<not> pe_nx e" "\<not> pe_pat e" "pe_p e"
      "pe_base_addr e = ucast (drop_bit 12 kphy + of_nat n :: u64)"
  shows "leads_to e (unat kphy + 4096 * n)"
proof -
  have n: "n < 2 ^ 40" using kphy(2) by simp
  have u: "unat (kphy + of_nat (4096 * n)) = unat kphy + 4096 * n"
    using kphy by (simp add: unat_word_ariths unat_of_nat)
  have "unat (drop_bit 12 kphy + of_nat n) = unat (drop_bit 12 (kphy + of_nat (4096 * n)))"
  proof -
    have "unat (drop_bit 12 kphy) = unat kphy div 4096" by (subst unat_drop_bit_eq) (simp add: drop_bit_eq_div)
    moreover have "unat (drop_bit 12 (kphy + of_nat (4096 * n))) = (unat kphy + 4096 * n) div 4096"
      by (subst unat_drop_bit_eq) (simp only: u drop_bit_eq_div, simp)
    ultimately show ?thesis using kphy n by (simp add: unat_word_ariths unat_of_nat)
  qed
  then have w: "drop_bit 12 kphy + of_nat n = drop_bit 12 (kphy + of_nat (4096 * n))" by (simp add: word_unat_eq_iff)
  have "kphy + of_nat (4096 * n) = of_nat (unat kphy + 4096 * n)" by simp
  then show ?thesis using e kphy unfolding w by (auto intro!: leads_to_set)
qed

lemma leads_to_identity:
  assumes n: "n < 2 ^ 40" and e: "pe_available e = 0" "\<not> pe_nx e" "\<not> pe_pat e" "pe_p e" "pe_base_addr e = of_nat n"
  shows "leads_to e (4096 * n)"
proof -
  have "unat (drop_bit 12 (of_nat (4096 * n) :: u64)) = n"
    using n by (subst unat_drop_bit_eq) (simp add: drop_bit_eq_div unat_of_nat unat_word_ariths)
  then have "drop_bit 12 (of_nat (4096 * n) :: u64) = of_nat n" using n by (simp add: word_unat_eq_iff unat_of_nat)
  moreover have "(ucast (of_nat n :: u64) :: 40 word) = of_nat n"
    using n by (simp add: word_unat_eq_iff unsigned_ucast_eq unat_of_nat take_bit_eq_mod)
  ultimately have "(ucast (drop_bit 12 (of_nat (4096 * n) :: u64)) :: 40 word) = of_nat n" by simp
  then show ?thesis using n e by (auto intro!: leads_to_set)
qed

lemma kernel_pt:
  assumes s: "setup_page_table_in_kernel_space v kphy = (t, cr3)" and n: "n < 1048576"
    and kphy: "4096 dvd unat kphy" "unat kphy + 0x4000000 < 2 ^ 52"
  shows "leads_to (pt t n) (if n < 16384 then unat kphy + 4096 * n else 4096 * n)"
proof (cases "n < 16384")
  case True
  have "pt t n = zero_entry\<lparr>pe_p := True, pe_rw := True, pe_base_addr := ucast (drop_bit 12 kphy + of_nat n), pe_pcd := True\<rparr>"
    using s n True by (auto simp: setup_page_table_in_kernel_space_def for_upd_apply Let_def)
  then show ?thesis using True kphy by (auto intro!: leads_to_image)
next
  case False
  have "pt t n = zero_entry\<lparr>pe_p := True, pe_rw := True, pe_base_addr := of_nat n, pe_pcd := True\<rparr>"
    using s n False by (auto simp: setup_page_table_in_kernel_space_def for_upd_apply Let_def)
  then show ?thesis using False n by (auto intro!: leads_to_identity)
qed

text \<open>The indices of an address in the kernel's part of the address space.\<close>

lemma index_add: "unat v = c * 2 ^ n + off \<Longrightarrow> level_index n v = (c mod 512 + off div 2 ^ n) mod 512"
proof -
  assume "unat v = c * 2 ^ n + off"
  then have "level_index n v = (c + off div 2 ^ n) mod 512" by (simp add: level_index_div)
  then show ?thesis by (simp only: mod_add_left_eq)
qed

lemma low_bits: "v AND 0xfff = of_nat (unat v mod 4096)" for v :: u64
proof -
  have m: "(0xfff :: u64) = mask 12" by (simp add: mask_eq_exp_minus_1)
  have "unat (v AND 0xfff) = unat v mod 4096"
    unfolding m take_bit_eq_mask [symmetric] unsigned_take_bit_eq by (simp add: take_bit_eq_mod)
  then have "of_nat (unat (v AND 0xfff)) = (of_nat (unat v mod 4096) :: u64)" by (rule arg_cong)
  then show ?thesis by (simp only: of_nat_unat ucast_id)
qed

lemma kernel_indices:
  assumes off: "off < 2 ^ 39"
  defines "v \<equiv> KERNEL_START + of_nat off"
  shows "level_index 39 v = 256" "level_index 30 v = off div 2 ^ 30" "level_index 21 v = off div 2 ^ 21 mod 512"
    "level_index 12 v = off div 2 ^ 12 mod 512" "v AND 0xfff = of_nat (off mod 4096)"
proof -
  have u: "unat v = 0xffff800000000000 + off"
    unfolding v_def unat_word_ariths(1) using off by (simp add: KERNEL_START_def unat_of_nat)
  have "off div 2 ^ 39 = 0" using off by simp
  then show "level_index 39 v = 256" using index_add [of v "0x1ffff00" 39 off] u by simp
  have "off div 2 ^ 30 < 512" using off by (simp add: less_mult_imp_div_less)
  then show "level_index 30 v = off div 2 ^ 30" using index_add [of v "0x3fffe0000" 30 off] u by simp
  show "level_index 21 v = off div 2 ^ 21 mod 512" using index_add [of v "0x7fffc000000" 21 off] u by simp
  show "level_index 12 v = off div 2 ^ 12 mod 512" using index_add [of v "0xffff800000000" 12 off] u by simp
  have "(0xffff800000000000 + off) mod 4096 = off mod 4096"
    using mod_mult_self3 [of "0xffff800000000" 4096 off] by simp
  then show "v AND 0xfff = of_nat (off mod 4096)" unfolding low_bits u by simp
qed

text \<open>Tables that cover the first \<open>J\<close> gigabytes of the kernel's part without gaps.\<close>

lemma linear_translate:
  assumes e4: "leads_to (pml4t t 256) (base + 4096)"
    and e3: "\<And>d. d < J \<Longrightarrow> leads_to (pdpt t d) (base + 8192 + 4096 * d)"
    and e2: "\<And>q. q < 512 * J \<Longrightarrow> leads_to (pdt t q) (base + 8192 + 8 * n + 4096 * q)"
    and e1: "\<And>p. p < 512 * 512 * J \<Longrightarrow> leads_to (pt t p) (f p)"
    and size: "512 * J \<le> n" "512 * 512 * J \<le> m" "J \<le> 512" "base + 8192 + 8 * n + 8 * m < 2 ^ 64"
    and off: "off < J * 2 ^ 30"
  shows "translate (read_tables n m base t) (of_nat base) (KERNEL_START + of_nat off) =
    Some (of_nat (f (off div 4096) + off mod 4096))"
proof -
  define j k l p where "j = off div 2 ^ 30" and "k = off div 2 ^ 21 mod 512" and "l = off div 2 ^ 12 mod 512"
    and "p = off div 2 ^ 12"
  have o39: "off < 2 ^ 39" using off size(3) by simp
  have b: "j < J" "k < 512" "l < 512" using off by (simp_all add: less_mult_imp_div_less j_def k_def l_def)
  have "off div 2 ^ 30 = off div 2 ^ 21 div 512" "off div 2 ^ 21 = off div 2 ^ 12 div 512"
    using div_mult2_eq [of off "2 ^ 21" 512] div_mult2_eq [of off "2 ^ 12" 512] by simp_all
  then have pp: "512 * (512 * j + k) + l = p" by (simp only: mult_div_mod_eq j_def k_def l_def p_def)
  have q: "512 * j + k < 512 * J" using b by linarith
  have "512 * x + l < 512 * y" if "x < y" for x y :: nat using that b(3) by simp
  from this [OF q] have p: "p < 512 * 512 * J" unfolding pp by simp
  note lead = e1 [OF p]
  have w: "walk (read_tables n m base t) (of_nat base) 256 j k l = Some (Page4K (drop_bit 12 (pte_bits (pt t p))))"
    using walk_leads [OF e4 e3 [OF b(1)] e2 [OF q], of l m, unfolded pp] b q p size lead by (simp add: leads_to_def)
  have p4: "off div 4096 = p" by (simp add: p_def)
  show ?thesis
    unfolding translate_def kernel_indices [OF o39] j_def [symmetric] k_def [symmetric] l_def [symmetric] w p4
    by (simp add: leads_to_page [OF lead])
qed

definition kernel_frame :: "u64 \<Rightarrow> nat \<Rightarrow> nat" where
  "kernel_frame kphy off = (if off < 0x4000000 then unat kphy + off else off)"

lemma kernel_frame_page:
  "(if off div 4096 < 16384 then unat kphy + 4096 * (off div 4096) else 4096 * (off div 4096)) + off mod 4096 =
   kernel_frame kphy off"
proof -
  have "off div 4096 < 16384 \<longleftrightarrow> off < 0x4000000" by auto
  then show ?thesis by (simp add: kernel_frame_def add.assoc)
qed

text \<open>What the kernel's tables do with every address of the kernel's 4 GiB.\<close>

lemma kernel_translate:
  assumes s: "setup_page_table_in_kernel_space v kphy = (t, cr3)"
    and base: "unat (t_phys v kphy 0) = base" "4096 dvd base" "base + 0x1000000 < 2 ^ 52"
    and kphy: "4096 dvd unat kphy" "unat kphy + 0x4000000 < 2 ^ 52" and off: "off < 2 ^ 32"
  shows "translate (read_tables n_kernel_pdt KERNEL_SPACE_PAGES base t) cr3 (KERNEL_START + of_nat off) =
    Some (of_nat (kernel_frame kphy off))"
proof -
  note kt = kernel_tables [OF s base]
  have c: "n_kernel_pdt = 2048" "KERNEL_SPACE_PAGES = 1048576" by (simp_all add: n_kernel_pdt_def)
  show ?thesis
    unfolding c kt(1) kernel_frame_page [of off kphy, symmetric]
    by (rule linear_translate [where J = 4]) (use kt kernel_pt [OF s _ kphy] base off in auto)
qed

section \<open>The boot loader's tables\<close>

text \<open>\<open>t_addr\<close> is the physical address of the struct and \<open>cr3_0\<close> the first entry of the tables in use.\<close>

definition setup_kernel_image_page_table :: "u64 \<Rightarrow> PageMappingL4Entry \<Rightarrow> u64 \<Rightarrow> PageTables \<times> u64" where
  "setup_kernel_image_page_table t_addr cr3_0 kernelPhyStart =
     (let at = (\<lambda>off. t_addr + of_nat off);
          pdpt_off = 8 * 512; pdt_off = pdpt_off + 8 * 512; pt_off = pdt_off + 8 * 512;
          t = zero_tables;
          t = t\<lparr>pml4t := (pml4t t)(0 := cr3_0)\<rparr>;
          t = t\<lparr>pml4t := (pml4t t)(256 := (pml4t t 256)\<lparr>pe_p := True, pe_rw := True,
                pe_base_addr := ucast (drop_bit 12 (at pdpt_off))\<rparr>)\<rparr>;
          t = t\<lparr>pdpt := (pdpt t)(0 := (pdpt t 0)\<lparr>pe_p := True, pe_rw := True,
                pe_base_addr := ucast (drop_bit 12 (at pdt_off))\<rparr>)\<rparr>;
          t = t\<lparr>pdt := for_upd PAGES_PER_TABLE (\<lambda>i e. e\<lparr>pe_p := True, pe_rw := True,
                pe_base_addr := ucast (drop_bit 12 (at (pt_off + 8 * (PAGES_PER_TABLE * i))))\<rparr>) (pdt t)\<rparr>;
          t = t\<lparr>pt := for_upd KERNEL_SPACE_PAGES (\<lambda>i e. e\<lparr>pe_p := True, pe_rw := True,
                pe_base_addr := of_nat i\<rparr>) (pt t)\<rparr>;
          t = t\<lparr>pt := for_upd KERNEL_IMAGE_PAGES (\<lambda>i e. e\<lparr>pe_p := True, pe_rw := True,
                pe_base_addr := ucast (kernelPhyStart div 4096 + of_nat i)\<rparr>) (pt t)\<rparr>
      in (t, at 0))"

lemma boot_tables:
  assumes s: "setup_kernel_image_page_table t_addr c kphy = (t, cr3)"
    and base: "unat t_addr = base" "4096 dvd base" "base + 0x1000000 < 2 ^ 52"
  shows "cr3 = of_nat base" "leads_to (pml4t t 256) (base + 4096)" "leads_to (pdpt t 0) (base + 8192 + 4096 * 0)"
    "q < 512 \<Longrightarrow> leads_to (pdt t q) (base + 8192 + 8 * 512 + 4096 * q)" "0 < j \<Longrightarrow> \<not> pe_p (pdpt t j)"
proof -
  have ad: "t_addr + of_nat off = of_nat (base + off)" for off using base(1) by auto
  have t: "pml4t t 256 = zero_entry\<lparr>pe_p := True, pe_rw := True,
      pe_base_addr := ucast (drop_bit 12 (of_nat (base + 4096) :: u64))\<rparr>"
    "pdpt t 0 = zero_entry\<lparr>pe_p := True, pe_rw := True,
      pe_base_addr := ucast (drop_bit 12 (of_nat (base + 8192) :: u64))\<rparr>"
    "q < 512 \<Longrightarrow> pdt t q = zero_entry\<lparr>pe_p := True, pe_rw := True,
      pe_base_addr := ucast (drop_bit 12 (of_nat (base + 8192 + 8 * 512 + 4096 * q) :: u64))\<rparr>"
    "cr3 = of_nat base" "0 < j \<Longrightarrow> pdpt t j = zero_entry"
    using s by (auto simp: setup_kernel_image_page_table_def for_upd_apply ad Let_def ac_simps)
  show "cr3 = of_nat base" by (rule t(4))
  show "\<not> pe_p (pdpt t j)" if "0 < j" using t(5) [OF that] by simp
  show "leads_to (pml4t t 256) (base + 4096)" "leads_to (pdpt t 0) (base + 8192 + 4096 * 0)"
    unfolding t(1,2) using base by (auto intro!: leads_to_set [OF _ _ _ _ _ refl])
  show "leads_to (pdt t q) (base + 8192 + 8 * 512 + 4096 * q)" if "q < 512"
    unfolding t(3) [OF that] using base that by (intro leads_to_set [OF _ _ _ _ _ refl]) auto
qed

lemma boot_pt:
  assumes s: "setup_kernel_image_page_table t_addr c kphy = (t, cr3)" and n: "n < 1048576"
    and kphy: "4096 dvd unat kphy" "unat kphy + 0x4000000 < 2 ^ 52"
  shows "leads_to (pt t n) (if n < 16384 then unat kphy + 4096 * n else 4096 * n)"
proof (cases "n < 16384")
  case True
  have "kphy div 4096 = drop_bit 12 kphy" by (simp add: drop_bit_eq_div)
  then have "pt t n = zero_entry\<lparr>pe_p := True, pe_rw := True, pe_base_addr := ucast (drop_bit 12 kphy + of_nat n)\<rparr>"
    using s n True by (auto simp: setup_kernel_image_page_table_def for_upd_apply Let_def)
  then show ?thesis using True kphy by (auto intro!: leads_to_image)
next
  case False
  have "pt t n = zero_entry\<lparr>pe_p := True, pe_rw := True, pe_base_addr := of_nat n\<rparr>"
    using s n False by (auto simp: setup_kernel_image_page_table_def for_upd_apply Let_def)
  then show ?thesis using False n by (auto intro!: leads_to_identity)
qed

lemma boot_translate:
  assumes s: "setup_kernel_image_page_table t_addr c kphy = (t, cr3)"
    and base: "unat t_addr = base" "4096 dvd base" "base + 0x1000000 < 2 ^ 52"
    and kphy: "4096 dvd unat kphy" "unat kphy + 0x4000000 < 2 ^ 52" and off: "off < 2 ^ 30"
  shows "translate (read_tables 512 KERNEL_SPACE_PAGES base t) cr3 (KERNEL_START + of_nat off) =
    Some (of_nat (kernel_frame kphy off))"
proof -
  note bt = boot_tables [OF s base]
  have c: "KERNEL_SPACE_PAGES = 1048576" by simp
  show ?thesis
    unfolding c bt(1) kernel_frame_page [of off kphy, symmetric]
    by (rule linear_translate [where J = 1]) (use bt boot_pt [OF s _ kphy] base off in auto)
qed

text \<open>Beyond the first gigabyte the boot loader maps nothing.\<close>

lemma boot_unmapped:
  assumes s: "setup_kernel_image_page_table t_addr c kphy = (t, cr3)"
    and base: "unat t_addr = base" "4096 dvd base" "base + 0x1000000 < 2 ^ 52"
    and off: "2 ^ 30 \<le> off" "off < 2 ^ 39"
  shows "translate (read_tables 512 KERNEL_SPACE_PAGES base t) cr3 (KERNEL_START + of_nat off) = None"
proof -
  note bt = boot_tables [OF s base]
  let ?rd = "read_tables 512 KERNEL_SPACE_PAGES base t" and ?j = "off div 2 ^ 30"
  have j: "0 < ?j" "?j < 512" using off by (auto simp: less_mult_imp_div_less div_greater_zero_iff)
  have r4: "?rd (of_nat base + of_nat (8 * 256)) = Some (pte_bits (pml4t t 256))"
    using read_at [of base 256 512 KERNEL_SPACE_PAGES t] base by (simp add: entry_at_def)
  have r3: "?rd (of_nat (base + 4096) + of_nat (8 * ?j)) = Some (pte_bits (pdpt t ?j))"
    using read_at [of base "512 + ?j" 512 KERNEL_SPACE_PAGES t] base j by (simp add: entry_at_def algebra_simps)
  have "pe_p (pml4t t 256)" using bt(2) by (simp add: leads_to_def)
  then show ?thesis
    unfolding translate_def kernel_indices [OF off(2)] walk_def bt(1) r4 Option.bind.simps
      leads_to_frame [OF bt(2)] r3 using bt(5) [OF j(1)] by simp
qed

section \<open>The page count\<close>

lemma count_pt_printed:
  "count_pt rd p ls (n, True) = (n + length (filter (\<lambda>l. is_page_present (rd (p + of_nat (8 * l)))) ls), True)"
  by (induction ls arbitrary: n) auto

text \<open>A table that maps nothing is counted as nothing.\<close>

lemma count_pt_first:
  "count_pt rd p ls (n, False) = (n, \<exists>l \<in> set ls. is_page_present (rd (p + of_nat (8 * l))))"
  by (induction ls arbitrary: n) auto

section \<open>Properties\<close>

text \<open>C28: after the kernel has installed its own tables, every address of the 4 GiB that start at
  \<^verbatim>\<open>KERNEL_START\<close> is mapped: the first 64 MiB to the kernel image, the rest to the physical
  address of the same offset.\<close>

theorem kernel_space_mapped:
  assumes "setup_page_table_in_kernel_space v kphy = (t, cr3)"
    and "unat (t_phys v kphy 0) = base" "4096 dvd base" "base + 0x1000000 < 2 ^ 52"
    and "4096 dvd unat kphy" "unat kphy + 0x4000000 < 2 ^ 52" and "off < 2 ^ 32"
  shows "translate (read_tables n_kernel_pdt KERNEL_SPACE_PAGES base t) cr3 (KERNEL_START + of_nat off) =
    Some (if off < 0x4000000 then kphy + of_nat off else of_nat off)"
  using kernel_translate [OF assms] by (simp add: kernel_frame_def)

theorem kernel_space_mapped_witness:
  "case setup_page_table_in_kernel_space (KERNEL_START + 0x200000) 0x1000000 of (t, cr3) \<Rightarrow>
     translate (read_tables n_kernel_pdt KERNEL_SPACE_PAGES 0x1200000 t) cr3 (KERNEL_START + 0x12345) = Some 0x1012345"
proof -
  obtain t cr3 where s: "setup_page_table_in_kernel_space (KERNEL_START + 0x200000) 0x1000000 = (t, cr3)" by fastforce
  have "unat (t_phys (KERNEL_START + 0x200000) 0x1000000 0) = 0x1200000" by (simp add: t_phys_def)
  from kernel_space_mapped [OF s this, of "0x12345"] s show ?thesis by simp
qed

text \<open>C29: loading the new \<^verbatim>\<open>cr3\<close> does not move anything the kernel is using: on the gigabyte that the boot
  loader's tables map, the kernel's tables translate every address in the same way, and the
  boot loader's tables map nothing behind it.\<close>

theorem cr3_switch_keeps_mapping:
  assumes b: "setup_kernel_image_page_table t_addr c kphy = (tb, cr3b)"
    and k: "setup_page_table_in_kernel_space v kphy = (tk, cr3k)"
    and "unat t_addr = bb" "4096 dvd bb" "bb + 0x1000000 < 2 ^ 52"
    and "unat (t_phys v kphy 0) = bk" "4096 dvd bk" "bk + 0x1000000 < 2 ^ 52"
    and "4096 dvd unat kphy" "unat kphy + 0x4000000 < 2 ^ 52"
  shows "(\<forall>off < 2 ^ 30. translate (read_tables 512 KERNEL_SPACE_PAGES bb tb) cr3b (KERNEL_START + of_nat off) =
      translate (read_tables n_kernel_pdt KERNEL_SPACE_PAGES bk tk) cr3k (KERNEL_START + of_nat off)) \<and>
    (\<forall>off. 2 ^ 30 \<le> off \<and> off < 2 ^ 39 \<longrightarrow>
      translate (read_tables 512 KERNEL_SPACE_PAGES bb tb) cr3b (KERNEL_START + of_nat off) = None)"
  using boot_translate [OF b] kernel_translate [OF k] boot_unmapped [OF b] assms(3-) by simp

theorem cr3_switch_keeps_mapping_witness:
  "case setup_kernel_image_page_table 0x3000000 zero_entry 0x1000000 of (tb, cr3b) \<Rightarrow>
   case setup_page_table_in_kernel_space (KERNEL_START + 0x200000) 0x1000000 of (tk, cr3k) \<Rightarrow>
     translate (read_tables 512 KERNEL_SPACE_PAGES 0x3000000 tb) cr3b (KERNEL_START + 0x5000) =
     translate (read_tables n_kernel_pdt KERNEL_SPACE_PAGES 0x1200000 tk) cr3k (KERNEL_START + 0x5000)"
proof -
  obtain tb cr3b where b: "setup_kernel_image_page_table 0x3000000 zero_entry 0x1000000 = (tb, cr3b)" by fastforce
  obtain tk cr3k where k: "setup_page_table_in_kernel_space (KERNEL_START + 0x200000) 0x1000000 = (tk, cr3k)" by fastforce
  have "unat (t_phys (KERNEL_START + 0x200000) 0x1000000 0) = 0x1200000" by (simp add: t_phys_def)
  then have "\<forall>off < 2 ^ 30. translate (read_tables 512 KERNEL_SPACE_PAGES 0x3000000 tb) cr3b (KERNEL_START + of_nat off) =
      translate (read_tables n_kernel_pdt KERNEL_SPACE_PAGES 0x1200000 tk) cr3k (KERNEL_START + of_nat off)"
    using cr3_switch_keeps_mapping [OF b k, of "0x3000000" "0x1200000"] by simp
  from spec [OF this, of "0x5000"] show ?thesis using b k by simp
qed

text \<open>The pointer table is filled for 512 gigabytes although there are directory entries for four: its
  entries from the fifth on lead into the page tables, so that page table entries are taken
  for directory entries.\<close>

theorem kernel_pdpt_overrun:
  assumes "setup_page_table_in_kernel_space v kphy = (t, cr3)"
    and "unat (t_phys v kphy 0) = base" "4096 dvd base" "base + 0x1000000 < 2 ^ 52" and "4 \<le> d" "d < 512" "k < 512"
  shows "\<exists>x. leads_to (pdpt t d) x \<and>
    read_tables n_kernel_pdt KERNEL_SPACE_PAGES base t (of_nat x + of_nat (8 * k)) = Some (pte_bits (pt t (512 * (d - 4) + k)))"
proof (intro exI conjI)
  show "leads_to (pdpt t d) (base + 8192 + 4096 * d)" by (rule kernel_tables(3) [OF assms(1-4,6)])
  obtain c where c: "d = 4 + c" using assms(5) by (auto simp: le_iff_add)
  show "read_tables n_kernel_pdt KERNEL_SPACE_PAGES base t (of_nat (base + 8192 + 4096 * d) + of_nat (8 * k)) =
      Some (pte_bits (pt t (512 * (d - 4) + k)))"
    using read_at [of base "1024 + 2048 + (512 * c + k)" 2048 1048576 t] assms(4,6,7)
    by (simp add: entry_at_def n_kernel_pdt_def c algebra_simps)
qed

theorem kernel_pdpt_overrun_witness:
  "case setup_page_table_in_kernel_space (KERNEL_START + 0x200000) 0x1000000 of (t, cr3) \<Rightarrow> \<exists>x. leads_to (pdpt t 5) x"
proof -
  obtain t cr3 where s: "setup_page_table_in_kernel_space (KERNEL_START + 0x200000) 0x1000000 = (t, cr3)" by fastforce
  have "unat (t_phys (KERNEL_START + 0x200000) 0x1000000 0) = 0x1200000" by (simp add: t_phys_def)
  from kernel_pdpt_overrun [OF s this, of 5 7] show ?thesis using s by auto
qed

end
