(* ===== verification/Gdt.thy ===== *)
theory Gdt
  imports Cpu_Defs
begin

text \<open>
  The global descriptor table that \<^verbatim>\<open>gdt_init\<close> (\<^verbatim>\<open>mm/mm.cpp\<close>) builds: the packed descriptor structs of
  \<^verbatim>\<open>cpu_defs.h\<close> as 64-bit words, the table as an array of words, and the segment registers.  The
  table and the registers the firmware left, the address of the task state segment and the
  interrupt stack are parameters.
\<close>

section \<open>Descriptors\<close>

record SegmentDescriptor =
  segment_limit_lo16 :: u16
  base_addr_lo16 :: u16
  base_addr_mid8 :: u8
  accessed :: bool
  wr :: bool
  dc :: bool
  exec :: bool
  seg_reserved :: bool
  seg_dpl :: "2 word"
  present :: bool
  segment_limit_hi4 :: "4 word"
  avl :: bool
  long_mode :: bool
  default_operand_size :: bool
  granularity :: bool
  base_addr_hi8 :: u8

definition zero_segment :: SegmentDescriptor where
  "zero_segment = \<lparr>segment_limit_lo16 = 0, base_addr_lo16 = 0, base_addr_mid8 = 0, accessed = False, wr = False,
     dc = False, exec = False, seg_reserved = False, seg_dpl = 0, present = False, segment_limit_hi4 = 0,
     avl = False, long_mode = False, default_operand_size = False, granularity = False, base_addr_hi8 = 0\<rparr>"

definition segment_bits :: "SegmentDescriptor \<Rightarrow> u64" where
  "segment_bits d =
     ucast (segment_limit_lo16 d) OR push_bit 16 (ucast (base_addr_lo16 d)) OR
     push_bit 32 (ucast (base_addr_mid8 d)) OR push_bit 40 (of_bool (accessed d)) OR
     push_bit 41 (of_bool (wr d)) OR push_bit 42 (of_bool (dc d)) OR push_bit 43 (of_bool (exec d)) OR
     push_bit 44 (of_bool (seg_reserved d)) OR push_bit 45 (ucast (seg_dpl d)) OR push_bit 47 (of_bool (present d)) OR
     push_bit 48 (ucast (segment_limit_hi4 d)) OR push_bit 52 (of_bool (avl d)) OR
     push_bit 53 (of_bool (long_mode d)) OR push_bit 54 (of_bool (default_operand_size d)) OR
     push_bit 55 (of_bool (granularity d)) OR push_bit 56 (ucast (base_addr_hi8 d))"

text \<open>A system descriptor takes two entries.\<close>

record SystemSegmentDescriptor =
  sys_limit_lo16 :: u16
  sys_base_lo16 :: u16
  sys_base_mid8 :: u8
  sys_type :: "4 word"
  sys_zero :: bool
  sys_dpl :: "2 word"
  sys_p :: bool
  sys_limit_hi4 :: "4 word"
  sys_avl :: bool
  sys_unused :: "2 word"
  sys_g :: bool
  sys_base_midhi8 :: u8
  sys_base_hi32 :: u32
  sys_reserved0 :: u32

definition zero_system_segment :: SystemSegmentDescriptor where
  "zero_system_segment = \<lparr>sys_limit_lo16 = 0, sys_base_lo16 = 0, sys_base_mid8 = 0, sys_type = 0, sys_zero = False,
     sys_dpl = 0, sys_p = False, sys_limit_hi4 = 0, sys_avl = False, sys_unused = 0, sys_g = False,
     sys_base_midhi8 = 0, sys_base_hi32 = 0, sys_reserved0 = 0\<rparr>"

definition system_segment_bits :: "SystemSegmentDescriptor \<Rightarrow> u64 \<times> u64" where
  "system_segment_bits d =
     (ucast (sys_limit_lo16 d) OR push_bit 16 (ucast (sys_base_lo16 d)) OR push_bit 32 (ucast (sys_base_mid8 d)) OR
      push_bit 40 (ucast (sys_type d)) OR push_bit 44 (of_bool (sys_zero d)) OR push_bit 45 (ucast (sys_dpl d)) OR
      push_bit 47 (of_bool (sys_p d)) OR push_bit 48 (ucast (sys_limit_hi4 d)) OR push_bit 52 (of_bool (sys_avl d)) OR
      push_bit 53 (ucast (sys_unused d)) OR push_bit 55 (of_bool (sys_g d)) OR push_bit 56 (ucast (sys_base_midhi8 d)),
      ucast (sys_base_hi32 d) OR push_bit 32 (ucast (sys_reserved0 d)))"

datatype DescriptorType =
  LongLDT | LongAvailableTSS | LongBusyTSS | LongCallGate | LongInterruptGate | LongTrapGate

fun descriptor_type :: "DescriptorType \<Rightarrow> 4 word" where
  "descriptor_type LongLDT = 0x2"
| "descriptor_type LongAvailableTSS = 0x9"
| "descriptor_type LongBusyTSS = 0xb"
| "descriptor_type LongCallGate = 0xc"
| "descriptor_type LongInterruptGate = 0xe"
| "descriptor_type LongTrapGate = 0xf"

record TaskStateSegment =
  rsp0 :: u64
  rsp1 :: u64
  rsp2 :: u64
  ist :: "nat \<Rightarrow> u64"
  iomap_base_addr :: u16
  iomap :: "nat \<Rightarrow> u8"

text \<open>Offset of \<^verbatim>\<open>iomap\<close> in the packed struct, and its size.\<close>

definition tss_iomap_offset :: nat where "tss_iomap_offset = 4 + 3 * 8 + 8 + 7 * 8 + 8 + 2 + 2"

definition tss_size :: nat where "tss_size = tss_iomap_offset + 8 * 1024"

section \<open>Selectors\<close>

definition KERNEL_CODE_SEGMENT_INDEX :: nat where "KERNEL_CODE_SEGMENT_INDEX = 2"
definition KERNEL_DATA_SEGMENT_INDEX :: nat where "KERNEL_DATA_SEGMENT_INDEX = 3"
definition USER_CODE_SEGMENT_INDEX :: nat where "USER_CODE_SEGMENT_INDEX = 4"
definition USER_DATA_SEGMENT_INDEX :: nat where "USER_DATA_SEGMENT_INDEX = 5"
definition TSS_INDEX :: nat where "TSS_INDEX = 6"

definition KERNEL_CODE_SELECTOR :: u64 where "KERNEL_CODE_SELECTOR = of_nat (KERNEL_CODE_SEGMENT_INDEX * 8)"
definition KERNEL_DATA_SELECTOR :: u64 where "KERNEL_DATA_SELECTOR = of_nat (KERNEL_DATA_SEGMENT_INDEX * 8)"
definition USER_CODE_SELECTOR :: u64 where "USER_CODE_SELECTOR = of_nat (USER_CODE_SEGMENT_INDEX * 8 + 3)"
definition USER_DATA_SELECTOR :: u64 where "USER_DATA_SELECTOR = of_nat (USER_DATA_SEGMENT_INDEX * 8 + 3)"
definition TSS_SELECTOR :: u64 where "TSS_SELECTOR = of_nat (TSS_INDEX * 8)"

lemmas selector_defs = KERNEL_CODE_SEGMENT_INDEX_def KERNEL_DATA_SEGMENT_INDEX_def USER_CODE_SEGMENT_INDEX_def
  USER_DATA_SEGMENT_INDEX_def TSS_INDEX_def KERNEL_CODE_SELECTOR_def KERNEL_DATA_SELECTOR_def
  USER_CODE_SELECTOR_def USER_DATA_SELECTOR_def TSS_SELECTOR_def

section \<open>\<^verbatim>\<open>gdt_init\<close>\<close>

record seg_state =
  kernel_gdt :: "nat \<Rightarrow> u64"
  tss :: TaskStateSegment
  reg_cs :: u64
  reg_ds :: u64
  reg_ss :: u64
  reg_es :: u64
  reg_fs :: u64
  reg_gs :: u64
  reg_tr :: u64

text \<open>The firmware's table of \<open>(limit + 1) / 8\<close> entries is copied into the cleared array of 128 entries.\<close>

definition copy_gdt :: "(nat \<Rightarrow> u64) \<Rightarrow> nat \<Rightarrow> nat \<Rightarrow> u64" where
  "copy_gdt gdt limit i = (if i < 128 \<and> i < (limit + 1) div 8 then gdt i else 0)"

definition code_segment :: "2 word \<Rightarrow> SegmentDescriptor" where
  "code_segment dpl = zero_segment\<lparr>present := True, exec := True, seg_reserved := True, long_mode := True,
     default_operand_size := False, seg_dpl := dpl\<rparr>"

definition data_segment :: "2 word \<Rightarrow> SegmentDescriptor" where
  "data_segment dpl = zero_segment\<lparr>present := True, exec := False, seg_reserved := True, wr := True, seg_dpl := dpl\<rparr>"

definition tss_descriptor :: "u64 \<Rightarrow> SystemSegmentDescriptor" where
  "tss_descriptor tss_addr = zero_system_segment\<lparr>
     sys_limit_lo16 := of_nat tss_size AND 0xffff, sys_limit_hi4 := ucast (drop_bit 16 (of_nat tss_size :: u64)),
     sys_base_lo16 := ucast (tss_addr AND 0xffff), sys_base_mid8 := ucast (drop_bit 16 tss_addr AND 0xff),
     sys_base_midhi8 := ucast (drop_bit 24 tss_addr AND 0xff),
     sys_base_hi32 := ucast (drop_bit 32 tss_addr AND 0xffffffff),
     sys_type := descriptor_type LongAvailableTSS, sys_dpl := 0, sys_p := True\<rparr>"

definition gdt_init ::
  "(nat \<Rightarrow> u64) \<Rightarrow> nat \<Rightarrow> u64 \<Rightarrow> u64 \<Rightarrow> seg_state \<Rightarrow> seg_state res" where
  "gdt_init gdt limit tss_addr interrupt_stack_bottom s =
     bindR (guardR (limit + 1 \<le> 128 * 8) ''kernel_gdt'') (\<lambda>_.
     let s = s\<lparr>kernel_gdt := copy_gdt gdt limit\<rparr>;
         cs = reg_cs s; ds = reg_ds s;
         s = (if cs \<noteq> KERNEL_CODE_SELECTOR
              then s\<lparr>kernel_gdt := (kernel_gdt s)(KERNEL_CODE_SEGMENT_INDEX := segment_bits (code_segment 0)),
                     reg_cs := KERNEL_CODE_SELECTOR\<rparr> else s);
         s = (if ds \<noteq> KERNEL_DATA_SELECTOR
              then s\<lparr>kernel_gdt := (kernel_gdt s)(KERNEL_DATA_SEGMENT_INDEX := segment_bits (data_segment 0)),
                     reg_ds := KERNEL_DATA_SELECTOR, reg_ss := KERNEL_DATA_SELECTOR, reg_es := KERNEL_DATA_SELECTOR,
                     reg_fs := 0, reg_gs := 0\<rparr> else s);
         s = s\<lparr>kernel_gdt := (kernel_gdt s)(USER_CODE_SEGMENT_INDEX := segment_bits (code_segment 3))\<rparr>;
         s = s\<lparr>kernel_gdt := (kernel_gdt s)(USER_DATA_SEGMENT_INDEX := segment_bits (data_segment 3))\<rparr>;
         s = s\<lparr>tss := \<lparr>rsp0 = interrupt_stack_bottom, rsp1 = 0, rsp2 = 0, ist = (\<lambda>_. 0),
                       iomap_base_addr = of_nat tss_iomap_offset, iomap = (\<lambda>_. 0)\<rparr>\<rparr>;
         (lo, hi) = system_segment_bits (tss_descriptor tss_addr);
         s = s\<lparr>kernel_gdt := (kernel_gdt s)(TSS_INDEX := lo, TSS_INDEX + 1 := hi)\<rparr>;
         s = s\<lparr>reg_tr := TSS_SELECTOR\<rparr>
     in Inr s)"

section \<open>Reading descriptors back\<close>

text \<open>The fields of a descriptor as the processor reads them from the words of the table.\<close>

definition descr_dpl :: "u64 \<Rightarrow> nat" where "descr_dpl w = unat (drop_bit 45 w AND 3)"

definition descr_present :: "u64 \<Rightarrow> bool" where "descr_present w = bit w 47"

definition descr_code :: "u64 \<Rightarrow> bool" where "descr_code w = (bit w 44 \<and> bit w 43)"

definition descr_data :: "u64 \<Rightarrow> bool" where "descr_data w = (bit w 44 \<and> \<not> bit w 43 \<and> bit w 41)"

definition descr_long :: "u64 \<Rightarrow> bool" where "descr_long w = (bit w 53 \<and> \<not> bit w 54)"

definition descr_base :: "u64 \<Rightarrow> u64 \<Rightarrow> u64" where
  "descr_base lo hi = (drop_bit 16 lo AND 0xffffff) OR push_bit 24 (drop_bit 56 lo AND 0xff) OR push_bit 32 hi"

definition descr_limit :: "u64 \<Rightarrow> u64" where
  "descr_limit lo = (lo AND 0xffff) OR push_bit 16 (drop_bit 48 lo AND 0xf)"

definition descr_type :: "u64 \<Rightarrow> u64" where "descr_type lo = drop_bit 40 lo AND 0x1f"

lemma masks:
  "(0xffff :: u64) = mask 16" "(0xff :: u64) = mask 8" "(0xffffff :: u64) = mask 24"
  "(0xffffffff :: u64) = mask 32" "(0xf :: u64) = mask 4" "(3 :: u64) = mask 2" "(0x1f :: u64) = mask 5"
  by (simp_all add: mask_eq_exp_minus_1)

lemma ucast_mask: "LENGTH('b) \<le> n \<Longrightarrow> (ucast (w AND mask n) :: 'b::len word) = ucast (w :: u64)"
  by (rule bit_word_eqI) (auto simp: bit_simps dest: bit_imp_le_length)

lemma bit_beyond: "LENGTH('a) \<le> n \<Longrightarrow> \<not> bit (w :: 'a::len word) n"
  using bit_imp_le_length by fastforce

lemma descr_base_bits:
  "descr_base (fst (system_segment_bits d)) (snd (system_segment_bits d)) =
     ucast (sys_base_lo16 d) OR push_bit 16 (ucast (sys_base_mid8 d)) OR push_bit 24 (ucast (sys_base_midhi8 d)) OR
     push_bit 32 (ucast (sys_base_hi32 d))"
proof (rule bit_word_eqI)
  fix n
  assume n: "n < LENGTH(64)"
  consider "n < 16" | "16 \<le> n" "n < 24" | "24 \<le> n" "n < 32" | "32 \<le> n" by linarith
  then show "bit (descr_base (fst (system_segment_bits d)) (snd (system_segment_bits d))) n =
      bit (ucast (sys_base_lo16 d) OR push_bit 16 (ucast (sys_base_mid8 d)) OR push_bit 24 (ucast (sys_base_midhi8 d)) OR
       push_bit 32 (ucast (sys_base_hi32 d)) :: u64) n"
    unfolding descr_base_def masks system_segment_bits_def
    by cases (use n in \<open>auto simp: bit_simps dest: bit_imp_le_length\<close>)
qed

lemma descr_limit_bits:
  "descr_limit (fst (system_segment_bits d)) = ucast (sys_limit_lo16 d) OR push_bit 16 (ucast (sys_limit_hi4 d))"
proof (rule bit_word_eqI)
  fix n
  assume n: "n < LENGTH(64)"
  consider "n < 16" | "16 \<le> n" "n < 20" | "20 \<le> n" by linarith
  then show "bit (descr_limit (fst (system_segment_bits d))) n =
      bit (ucast (sys_limit_lo16 d) OR push_bit 16 (ucast (sys_limit_hi4 d)) :: u64) n"
    unfolding descr_limit_def masks system_segment_bits_def
    by cases (use n in \<open>simp_all add: bit_simps bit_beyond, auto\<close>)
qed

lemma descr_type_bits: "\<not> sys_zero d \<Longrightarrow> descr_type (fst (system_segment_bits d)) = ucast (sys_type d)"
proof (rule bit_word_eqI)
  fix n
  assume z: "\<not> sys_zero d" and n: "n < LENGTH(64)"
  consider "n < 4" | "n = 4" | "4 < n" by linarith
  then show "bit (descr_type (fst (system_segment_bits d))) n = bit (ucast (sys_type d) :: u64) n"
    unfolding descr_type_def masks system_segment_bits_def
    by cases (use n z in \<open>simp_all add: bit_simps bit_beyond\<close>)
qed

lemma tss_present: "descr_present (fst (system_segment_bits d)) = sys_p d"
  unfolding descr_present_def system_segment_bits_def by (simp add: bit_simps bit_beyond)

lemma tss_base: "descr_base (fst (system_segment_bits (tss_descriptor a))) (snd (system_segment_bits (tss_descriptor a))) = a"
proof -
  have f: "sys_base_lo16 (tss_descriptor a) = ucast a" "sys_base_mid8 (tss_descriptor a) = ucast (drop_bit 16 a)"
    "sys_base_midhi8 (tss_descriptor a) = ucast (drop_bit 24 a)" "sys_base_hi32 (tss_descriptor a) = ucast (drop_bit 32 a)"
    unfolding tss_descriptor_def masks by (simp_all add: ucast_mask)
  show ?thesis
    unfolding descr_base_bits f
  proof (rule bit_word_eqI)
    fix n
    assume n: "n < LENGTH(64)"
    consider "n < 16" | "16 \<le> n" "n < 24" | "24 \<le> n" "n < 32" | "32 \<le> n" by linarith
    then show "bit (ucast (ucast a :: u16) OR push_bit 16 (ucast (ucast (drop_bit 16 a) :: u8)) OR
        push_bit 24 (ucast (ucast (drop_bit 24 a) :: u8)) OR push_bit 32 (ucast (ucast (drop_bit 32 a) :: u32)) :: u64) n =
        bit a n"
      by cases (use n in \<open>auto simp: bit_simps\<close>)
  qed
qed

lemma tss_limit_type:
  "descr_limit (fst (system_segment_bits (tss_descriptor a))) = 0x2068"
  "descr_type (fst (system_segment_bits (tss_descriptor a))) = 9"
proof -
  have f: "sys_limit_lo16 (tss_descriptor a) = 0x2068" "sys_limit_hi4 (tss_descriptor a) = 0"
    "sys_type (tss_descriptor a) = 9" "\<not> sys_zero (tss_descriptor a)"
    by (simp_all add: tss_descriptor_def zero_system_segment_def tss_size_def tss_iomap_offset_def)
  show "descr_limit (fst (system_segment_bits (tss_descriptor a))) = 0x2068"
    unfolding descr_limit_bits f by simp
  show "descr_type (fst (system_segment_bits (tss_descriptor a))) = 9"
    unfolding descr_type_bits [OF f(4)] f by simp
qed

text \<open>The words of the code and data segments.\<close>

lemma segment_words:
  "segment_bits (code_segment 0) = 0x0020980000000000" "segment_bits (data_segment 0) = 0x0000920000000000"
  "segment_bits (code_segment 3) = 0x0020f80000000000" "segment_bits (data_segment 3) = 0x0000f20000000000"
  by (simp_all add: segment_bits_def code_segment_def data_segment_def zero_segment_def push_bit_eq_mult)

section \<open>Properties\<close>



end
