(* ===== verification/Serial.thy ===== *)
theory Serial
  imports Prelude
begin

text \<open>
  Output on the serial port: \<^verbatim>\<open>include/lib/serial_port.h\<close> and \<^verbatim>\<open>lib/serial_port.cpp\<close>, the file size printer
  of \<^verbatim>\<open>include/lib/file_size.h\<close> and the hexdump of \<^verbatim>\<open>include/common/hexdump.hpp\<close>.  The device is the
  sequence of values its line status register will have; printing functions are the list of
  bytes they put.
\<close>

section \<open>The port\<close>

datatype IntRadix = Binary | Oct | Dec | Hex

record SerialPort =
  sp_port :: u16
  int_radix :: IntRadix

text \<open>The register writes of the constructor, in order.\<close>

definition sp_init :: "u16 \<Rightarrow> (u16 \<times> u8) list" where
  "sp_init port =
     [(port + 1, 0x01), (port + 3, 0x80), (port + 0, 0x03), (port + 1, 0x00),
      (port + 3, 0x03), (port + 2, 0xC7), (port + 4, 0x0B)]"

text \<open>\<open>lsr t\<close> is what the read of the line status register at time \<open>t\<close> returns; every read takes one
  step of time.\<close>

definition is_transmit_empty :: "(nat \<Rightarrow> u8) \<Rightarrow> nat \<Rightarrow> bool" where
  "is_transmit_empty lsr t = (lsr t AND 0x20 \<noteq> 0)"

definition serial_received :: "(nat \<Rightarrow> u8) \<Rightarrow> nat \<Rightarrow> bool" where
  "serial_received lsr t = (lsr t AND 1 \<noteq> 0)"

text \<open>The busy loops: the time at which the byte is written, or read.\<close>

partial_function (option) put :: "(nat \<Rightarrow> u8) \<Rightarrow> nat \<Rightarrow> nat option" where
  "put lsr t = (if \<not> is_transmit_empty lsr t then put lsr (t + 1) else Some (t + 1))"

partial_function (option) get :: "(nat \<Rightarrow> u8) \<Rightarrow> nat \<Rightarrow> nat option" where
  "get lsr t = (if \<not> serial_received lsr t then get lsr (t + 1) else Some (t + 1))"

definition try_put :: "(nat \<Rightarrow> u8) \<Rightarrow> nat \<Rightarrow> (bool \<times> nat) option" where
  "try_put lsr t =
     (if \<not> is_transmit_empty lsr t
      then (case put lsr (t + 1) of None \<Rightarrow> None | Some t' \<Rightarrow> Some (True, t'))
      else Some (False, t + 1))"

definition try_get :: "(nat \<Rightarrow> u8) \<Rightarrow> nat \<Rightarrow> (bool \<times> nat) option" where
  "try_get lsr t =
     (if serial_received lsr t
      then (case get lsr (t + 1) of None \<Rightarrow> None | Some t' \<Rightarrow> Some (True, t'))
      else Some (False, t + 1))"

section \<open>Numbers\<close>

definition alphabet :: "char list" where "alphabet = ''0123456789abcdef''"

definition radix_of :: "IntRadix \<Rightarrow> nat" where
  "radix_of r = (if r = Hex then 16 else if r = Dec then 10 else 10)"

text \<open>The digits are collected in \<^verbatim>\<open>temp\<close>, least significant first; \<^verbatim>\<open>temp\<close> has 20 slots.\<close>

function digits_loop :: "nat \<Rightarrow> nat \<Rightarrow> char list \<Rightarrow> char list res" where
  "digits_loop radix remain temp =
     (if remain \<noteq> 0 \<and> 1 < radix
      then bindR (guardR (length temp < 20) ''temp'') (\<lambda>_.
           digits_loop radix (remain div radix) (temp @ [alphabet ! (remain mod radix)]))
      else Inr temp)"
  by pat_completeness auto
termination
  by (relation "measure (\<lambda>(radix, remain, temp). remain)") auto

declare digits_loop.simps [simp del]

definition print_int :: "IntRadix \<Rightarrow> u64 \<Rightarrow> char list res" where
  "print_int r n =
     (if n = 0 then Inr ''0''
      else bindR (digits_loop (radix_of r) (unat n) []) (\<lambda>temp. Inr (rev temp)))"

section \<open>File sizes\<close>

definition sizes :: "char list list" where "sizes = [''B'', ''KiB'', ''MiB'', ''GiB'', ''TiB'']"

function size_loop :: "u64 \<Rightarrow> nat \<Rightarrow> u64 \<Rightarrow> u64 \<times> nat \<times> u64" where
  "size_loop sz order remains =
     (if sz \<ge> 1024 \<and> order < length sizes - 1
      then size_loop (sz div 1024) (order + 1) (sz mod 1024)
      else (sz, order, remains))"
  by pat_completeness auto
termination
  by (relation "measure (\<lambda>(sz, order, remains). length sizes - order)") auto

declare size_loop.simps [simp del]

definition print_file_size :: "u64 \<Rightarrow> char list res" where
  "print_file_size sz0 =
     (let (sz, order, remains) = size_loop sz0 0 0;
          r = remains * 100 div 1024
      in bindR (print_int Dec sz) (\<lambda>s1.
         bindR (if r \<noteq> 0
                then bindR (print_int Dec r) (\<lambda>s2. Inr ((if r \<ge> 10 then ''.'' else ''.0'') @ s2))
                else Inr []) (\<lambda>s3.
         Inr (s1 @ s3 @ sizes ! order))))"

section \<open>Hexdump\<close>

definition hex_digit :: "u8 \<Rightarrow> char" where "hex_digit v = alphabet ! unat v"

definition hex01 :: "u8 \<Rightarrow> char list" where
  "hex01 value = [hex_digit (drop_bit 4 value), hex_digit (value AND 0xf)]"

text \<open>The shift amount is at least the width of the value in the first four rounds.\<close>

definition hex04 :: "u32 \<Rightarrow> char list res" where
  "hex04 value =
     fold (\<lambda>i acc. bindR acc (\<lambda>s.
       bindR (guardR (64 - 8 - i * 8 < 32) ''shift'') (\<lambda>_.
       Inr (s @ hex01 (ucast (drop_bit (64 - 8 - i * 8) value AND 0xff)))))) [0..<8] (Inr [])"

definition print_hex :: "u64 \<Rightarrow> char list" where
  "print_hex value = concat (map (\<lambda>i. hex01 (ucast (drop_bit (8 * (8 - 1 - i)) value AND 0xff))) [0..<8])"

definition isprint :: "u8 \<Rightarrow> bool" where
  "isprint c = (0x20 \<le> c \<and> c < 0x7f)"

definition hexdump_line :: "u8 list \<Rightarrow> nat \<Rightarrow> nat \<Rightarrow> u64 \<Rightarrow> bool \<Rightarrow> nat \<Rightarrow> char list" where
  "hexdump_line ptr sz cols addr compact indent =
     (if \<not> compact then replicate indent (CHR '' '') @ print_hex addr @ '' | '' else []) @
     concat (map (\<lambda>col. hex01 (ptr ! col) @ '' '') [0..<sz]) @
     (if \<not> compact
      then concat (map (\<lambda>_. ''   '') [sz..<cols]) @ '' | '' @
           map (\<lambda>col. if isprint (ptr ! col) then char_of (unat (ptr ! col)) else CHR ''.'') [0..<sz] @ [CHR 0x0a]
      else [])"

definition hexdump :: "u8 list \<Rightarrow> bool \<Rightarrow> nat \<Rightarrow> char list" where
  "hexdump ptr compact indent =
     (let cols = 16; sz = length ptr; whole_lines = sz div cols in
      concat (map (\<lambda>line. hexdump_line (drop (line * cols) ptr) cols cols (of_nat (line * cols)) compact indent)
        [0..<whole_lines]) @
      (if whole_lines * cols < sz
       then hexdump_line (drop (whole_lines * cols) ptr) (sz - whole_lines * cols) cols (of_nat (whole_lines * cols))
              compact indent
       else []))"

section \<open>Digits\<close>

fun digits :: "nat \<Rightarrow> nat \<Rightarrow> nat list" where
  "digits b n = (if n = 0 \<or> b \<le> 1 then [] else (n mod b) # digits b (n div b))"

declare digits.simps [simp del]

lemma digits_0 [simp]: "digits b 0 = []"
  by (simp add: digits.simps)

definition digit_val :: "char \<Rightarrow> nat" where
  "digit_val c = (let v = of_char c in if 97 \<le> v then v - 87 else v - 48)"

definition parse_int :: "nat \<Rightarrow> char list \<Rightarrow> nat" where
  "parse_int b cs = foldl (\<lambda>v c. b * v + digit_val c) 0 cs"

lemma digit_val_alphabet: "d < 16 \<Longrightarrow> digit_val (alphabet ! d) = d"
proof -
  assume "d < 16"
  then have "d = 0 \<or> d = 1 \<or> d = 2 \<or> d = 3 \<or> d = 4 \<or> d = 5 \<or> d = 6 \<or> d = 7 \<or> d = 8 \<or> d = 9 \<or>
    d = 10 \<or> d = 11 \<or> d = 12 \<or> d = 13 \<or> d = 14 \<or> d = 15" by presburger
  then show ?thesis by (elim disjE) (simp_all add: digit_val_def alphabet_def)
qed

lemma length_digits: "n < b ^ k \<Longrightarrow> length (digits b n) \<le> k"
proof (induction k arbitrary: n)
  case 0
  then show ?case by (simp add: digits.simps)
next
  case (Suc k)
  show ?case
  proof (cases "n = 0 \<or> b \<le> 1")
    case False
    then have "n div b < b ^ k" using Suc.prems by (simp add: less_mult_imp_div_less mult.commute)
    then show ?thesis using Suc.IH False by (simp add: digits.simps [of b n])
  qed (simp add: digits.simps [of b n])
qed

lemma digits_less: "1 < b \<Longrightarrow> d \<in> set (digits b n) \<Longrightarrow> d < b"
proof (induction b n rule: digits.induct)
  case (1 b n)
  then show ?case by (cases "n = 0") (auto simp: digits.simps [of b n])
qed

lemma digits_value: "1 < b \<Longrightarrow> foldr (\<lambda>d v. b * v + d) (digits b n) 0 = n"
proof (induction b n rule: digits.induct)
  case (1 b n)
  then show ?case by (cases "n = 0") (simp_all add: digits.simps [of b n])
qed

lemma digits_last: "1 < b \<Longrightarrow> 0 < n \<Longrightarrow> digits b n \<noteq> [] \<and> last (digits b n) \<noteq> 0"
proof (induction b n rule: digits.induct)
  case (1 b n)
  show ?case
  proof (cases "n div b = 0")
    case True
    then have "n mod b = n" using "1.prems" by (simp add: div_eq_0_iff)
    then show ?thesis using True "1.prems" by (simp add: digits.simps [of b n] digits.simps [of b 0])
  next
    case False
    then have "digits b (n div b) \<noteq> [] \<and> last (digits b (n div b)) \<noteq> 0"
      using "1.prems" "1.IH" by simp
    then show ?thesis using "1.prems" by (simp add: digits.simps [of b n])
  qed
qed

lemma digits_loop_digits:
  "length temp + length (digits b n) \<le> 20 \<Longrightarrow>
   digits_loop b n temp = Inr (temp @ map ((!) alphabet) (digits b n))"
proof (induction b n arbitrary: temp rule: digits.induct)
  case (1 b n)
  show ?case
  proof (cases "n = 0 \<or> b \<le> 1")
    case False
    then have "length (temp @ [alphabet ! (n mod b)]) + length (digits b (n div b)) \<le> 20"
      using "1.prems" by (simp add: digits.simps [of b n])
    from "1.IH" [OF False this] False "1.prems" show ?thesis
      by (simp add: digits_loop.simps [of b n] digits.simps [of b n])
  qed (auto simp: digits_loop.simps [of b n] digits.simps [of b n])
qed

lemma radix_of_bounds: "1 < radix_of r" "radix_of r \<le> 16" "2 ^ 64 < radix_of r ^ 20"
  by (auto simp: radix_of_def)

lemma print_int_digits:
  assumes "n \<noteq> 0"
  shows "print_int r n = Inr (rev (map ((!) alphabet) (digits (radix_of r) (unat n))))"
    "length (digits (radix_of r) (unat n)) \<le> 20"
proof -
  have "unat n < radix_of r ^ 20"
  proof -
    have "unat n < 2 ^ LENGTH(64)" by (rule unsigned_less)
    then show ?thesis using radix_of_bounds(3) [of r] by simp
  qed
  then show len: "length (digits (radix_of r) (unat n)) \<le> 20" by (rule length_digits)
  then show "print_int r n = Inr (rev (map ((!) alphabet) (digits (radix_of r) (unat n))))"
    using assms digits_loop_digits [of "[]" "radix_of r" "unat n"] by (simp add: print_int_def)
qed

lemma parse_rev_digits:
  "\<forall>d \<in> set ds. d < 16 \<Longrightarrow> parse_int b (rev (map ((!) alphabet) ds)) = foldr (\<lambda>d v. b * v + d) ds 0"
  by (induction ds) (simp_all add: parse_int_def digit_val_alphabet)

section \<open>Waiting\<close>

lemma put_some: "put lsr t = Some t' \<Longrightarrow> \<exists>k \<ge> t. is_transmit_empty lsr k \<and> t' = Suc k \<and> (\<forall>j. t \<le> j \<and> j < k \<longrightarrow> \<not> is_transmit_empty lsr j)"
proof (induction rule: put.raw_induct [rotated 1, consumes 1])
  case (1 put' lsr t t')
  show ?case
  proof (cases "is_transmit_empty lsr t")
    case True
    then show ?thesis using 1(2) by auto
  next
    case False
    then have "put' lsr (t + 1) = Some t'" using 1(2) by simp
    then obtain k where k: "k \<ge> t + 1" "is_transmit_empty lsr k" "t' = Suc k"
      "\<forall>j. t + 1 \<le> j \<and> j < k \<longrightarrow> \<not> is_transmit_empty lsr j" using 1(1) by blast
    then have "\<forall>j. t \<le> j \<and> j < k \<longrightarrow> \<not> is_transmit_empty lsr j" using False by (metis Suc_eq_plus1 Suc_leI le_neq_implies_less)
    then show ?thesis using k by (intro exI [of _ k]) auto
  qed
qed

lemma put_returns: "is_transmit_empty lsr (t + k) \<Longrightarrow> \<exists>t'. put lsr t = Some t'"
proof (induction k arbitrary: t)
  case 0
  then show ?case by (simp add: put.simps [of lsr t])
next
  case (Suc k)
  then have "\<exists>t'. put lsr (t + 1) = Some t'" by simp
  then show ?case by (simp add: put.simps [of lsr t])
qed

section \<open>File sizes\<close>

definition size_ok :: "nat \<Rightarrow> u64 \<Rightarrow> nat \<Rightarrow> u64 \<Rightarrow> bool" where
  "size_ok n sz order remains \<longleftrightarrow> order \<le> 4 \<and> unat sz = n div 1024 ^ order \<and>
     (0 < order \<longrightarrow> 1024 ^ order \<le> n) \<and>
     unat remains = (if order = 0 then 0 else n div 1024 ^ (order - 1) mod 1024)"

lemma size_loop_ok:
  "size_ok n sz order remains \<Longrightarrow> size_loop sz order remains = (sz', order', remains') \<Longrightarrow>
   size_ok n sz' order' remains' \<and> (order' < 4 \<longrightarrow> unat sz' < 1024)"
proof (induction sz order remains rule: size_loop.induct)
  case (1 sz order remains)
  have len: "length sizes = 5" by (simp add: sizes_def)
  show ?case
  proof (cases "sz \<ge> 1024 \<and> order < 4")
    case True
    have u: "unat (sz div 1024) = n div 1024 ^ order div 1024" "unat (sz mod 1024) = n div 1024 ^ order mod 1024"
      using "1.prems"(1) by (simp_all add: unat_div unat_mod size_ok_def)
    have "1024 \<le> n div 1024 ^ order" using True "1.prems"(1) by (simp add: size_ok_def word_le_nat_alt)
    then have "1024 ^ Suc order \<le> n" by (simp add: less_eq_div_iff_mult_less_eq mult.commute)
    then have "size_ok n (sz div 1024) (order + 1) (sz mod 1024)"
      using True u by (simp add: size_ok_def div_mult2_eq [symmetric] mult.commute)
    moreover have "size_loop (sz div 1024) (order + 1) (sz mod 1024) = (sz', order', remains')"
      using "1.prems"(2) True len by (simp add: size_loop.simps [of sz order])
    ultimately show ?thesis using "1.IH" True len by simp
  next
    case False
    then have "(sz', order', remains') = (sz, order, remains)"
      using "1.prems"(2) len by (auto simp: size_loop.simps [of sz order])
    then show ?thesis using "1.prems"(1) False by (auto simp: word_le_nat_alt not_le)
  qed
qed

lemma print_int_total: "\<exists>s. print_int r n = Inr s"
  by (cases "n = 0") (simp_all add: print_int_def [of _ 0] print_int_digits)

section \<open>Properties\<close>

text \<open>A number is printed without overrunning the 20-character buffer, in the radix set on the port, and
  reading the printed digits back gives the number; there is no leading zero.\<close>

theorem print_int_roundtrip:
  "\<exists>s. print_int r n = Inr s \<and> 0 < length s \<and> length s \<le> 20 \<and> parse_int (radix_of r) s = unat n \<and>
     (n \<noteq> 0 \<longrightarrow> digit_val (hd s) \<noteq> 0)"
proof (cases "n = 0")
  case True
  then show ?thesis by (simp add: print_int_def parse_int_def digit_val_def)
next
  case False
  let ?ds = "digits (radix_of r) (unat n)"
  have pos: "0 < unat n" using False by (simp add: unat_gt_0)
  have small: "\<forall>d \<in> set ?ds. d < 16"
    using digits_less [OF radix_of_bounds(1)] radix_of_bounds(2) [of r] by (meson less_le_trans)
  have l: "?ds \<noteq> []" "last ?ds \<noteq> 0" using digits_last [OF radix_of_bounds(1) pos] by simp_all
  have "hd (rev (map ((!) alphabet) ?ds)) = alphabet ! last ?ds" using l by (simp add: hd_rev last_map)
  then have "digit_val (hd (rev (map ((!) alphabet) ?ds))) \<noteq> 0"
    using l small digit_val_alphabet [of "last ?ds"] by simp
  then show ?thesis
    using print_int_digits [OF False] parse_rev_digits [OF small] digits_value [OF radix_of_bounds(1)] l by simp
qed

theorem print_int_roundtrip_witness: "\<exists>s. print_int Hex 0x1f = Inr s \<and> parse_int 16 s = 31 \<and> digit_val (hd s) \<noteq> 0"
  using print_int_roundtrip [of Hex "0x1f"] by (auto simp: radix_of_def)

text \<open>\<^verbatim>\<open>put\<close> returns if and only if the transmitter becomes empty at some time, and then right after the
  first such time; \<^verbatim>\<open>try_put\<close>, which is meant not to wait, writes nothing when the
  transmitter is empty and waits for it when it is not.\<close>

theorem put_waits:
  "((\<exists>t'. put lsr t = Some t') \<longleftrightarrow> (\<exists>k \<ge> t. is_transmit_empty lsr k)) \<and>
   (put lsr t = Some t' \<longrightarrow> is_transmit_empty lsr (t' - 1) \<and> (\<forall>j. t \<le> j \<and> j < t' - 1 \<longrightarrow> \<not> is_transmit_empty lsr j)) \<and>
   (is_transmit_empty lsr t \<longrightarrow> try_put lsr t = Some (False, t + 1)) \<and>
   (\<not> is_transmit_empty lsr t \<longrightarrow> try_put lsr t = map_option (Pair True) (put lsr (t + 1)))"
proof (intro conjI impI)
  show "(\<exists>t'. put lsr t = Some t') \<longleftrightarrow> (\<exists>k \<ge> t. is_transmit_empty lsr k)"
    using put_some [of lsr t] put_returns [of lsr t] by (metis le_iff_add)
  assume "put lsr t = Some t'"
  from put_some [OF this] show "is_transmit_empty lsr (t' - 1)" "\<forall>j. t \<le> j \<and> j < t' - 1 \<longrightarrow> \<not> is_transmit_empty lsr j"
    by auto
qed (simp_all add: try_put_def split: option.splits)

theorem put_waits_witness:
  "put (\<lambda>t. if t < 3 then 0 else 0x20) 0 \<noteq> None \<and> try_put (\<lambda>_. 0x20) 0 = Some (False, 1)"
  using put_waits [of "\<lambda>t. if t < 3 then 0 else 0x20" 0] put_waits [of "\<lambda>_. 0x20" 0]
  by (auto simp: is_transmit_empty_def)

text \<open>A file size is printed in the largest unit up to TiB that makes it at least 1, as the quotient by
  the unit and the hundredths (rounded down) of the remainder of the next smaller unit.\<close>

theorem print_file_size_unit:
  assumes "size_loop n 0 0 = (sz, order, remains)"
  shows "(\<exists>s. print_file_size n = Inr s) \<and> order \<le> 4 \<and> unat sz = unat n div 1024 ^ order \<and>
    (order < 4 \<longrightarrow> unat sz < 1024) \<and> (0 < order \<longrightarrow> 1024 ^ order \<le> unat n) \<and>
    unat remains = (if order = 0 then 0 else unat n div 1024 ^ (order - 1) mod 1024) \<and>
    unat (remains * 100 div 1024) = unat remains * 100 div 1024 \<and> unat (remains * 100 div 1024) < 100"
proof -
  have "size_ok (unat n) n 0 0" by (simp add: size_ok_def)
  from size_loop_ok [OF this assms] have ok: "size_ok (unat n) sz order remains" "order < 4 \<longrightarrow> unat sz < 1024" by auto
  have "unat remains < 1024" using ok(1) by (auto simp: size_ok_def)
  then have r: "unat (remains * 100 div 1024) = unat remains * 100 div 1024" "unat remains * 100 div 1024 < 100"
    by (simp_all add: unat_div unat_word_ariths less_mult_imp_div_less)
  obtain s1 s2 where "print_int Dec sz = Inr s1" "print_int Dec (remains * 100 div 1024) = Inr s2"
    using print_int_total by blast
  then have "\<exists>s. print_file_size n = Inr s" by (simp add: print_file_size_def assms Let_def)
  then show ?thesis using ok r by (simp add: size_ok_def)
qed

theorem print_file_size_unit_witness: "size_loop 1536 0 0 = (1, 1, 512) \<and> (\<exists>s. print_file_size 1536 = Inr s)"
proof -
  have l: "size_loop 1536 0 0 = (1, 1, 512)" by (simp add: size_loop.simps sizes_def word_le_nat_alt)
  then show ?thesis using print_file_size_unit [OF l] by blast
qed

text \<open>A compact hexdump is the two hex digits and a blank for every byte in order, whole lines and the rest
  alike, and the digits determine the byte.\<close>

theorem hexdump_compact:
  "hexdump ptr True indent = concat (map (\<lambda>b. hex01 b @ '' '') ptr) \<and>
   parse_int 16 (hex01 b) = unat b"
proof
  let ?g = "\<lambda>b. hex01 b @ '' ''"
  have line: "hexdump_line p n cols a True ind = concat (map ?g (take n p))" if "n \<le> length p" for p n cols a ind
  proof -
    have "map ((!) p) [0..<n] = take n p" using that by (intro nth_equalityI) auto
    then have "map ?g (map ((!) p) [0..<n]) = map ?g (take n p)" by (rule arg_cong)
    then show ?thesis by (simp add: hexdump_line_def comp_def)
  qed
  have lines: "concat (map (\<lambda>l. hexdump_line (drop (l * 16) ptr) 16 16 (of_nat (l * 16)) True indent) [0..<k]) =
      concat (map ?g (take (k * 16) ptr))" if "k * 16 \<le> length ptr" for k
    using that
  proof (induction k)
    case (Suc k)
    have "take (Suc k * 16) ptr = take (k * 16) ptr @ take 16 (drop (k * 16) ptr)"
      by (simp add: take_add [symmetric] add.commute)
    then show ?case using Suc line [of 16 "drop (k * 16) ptr"] by simp
  qed simp
  let ?w = "length ptr div 16"
  have w: "?w * 16 \<le> length ptr" by simp
  have "ptr = take (?w * 16) ptr @ take (length ptr - ?w * 16) (drop (?w * 16) ptr)" by simp
  from arg_cong [OF this, of "\<lambda>xs. concat (map ?g xs)"]
  have rest: "concat (map ?g ptr) = concat (map ?g (take (?w * 16) ptr)) @
      concat (map ?g (take (length ptr - ?w * 16) (drop (?w * 16) ptr)))" by (simp only: map_append concat_append)
  show "hexdump ptr True indent = concat (map ?g ptr)"
  proof (cases "?w * 16 < length ptr")
    case True
    then show ?thesis
      unfolding rest using lines [OF w] line [of "length ptr - ?w * 16" "drop (?w * 16) ptr"]
      by (simp only: hexdump_def Let_def length_drop if_True order_refl)
  next
    case False
    then have "take (?w * 16) ptr = ptr" by simp
    then show ?thesis using lines [OF w] False by (simp add: hexdump_def Let_def)
  qed
  have "unat (drop_bit 4 b) = unat b div 16" by (subst unat_drop_bit_eq) (simp add: drop_bit_eq_div)
  moreover have "unat (b AND 0xf) = unat b mod 16"
  proof -
    have m: "(0xf :: u8) = mask 4" by (simp add: mask_eq_exp_minus_1)
    show ?thesis unfolding m take_bit_eq_mask [symmetric] unsigned_take_bit_eq by (simp add: take_bit_eq_mod)
  qed
  moreover have "unat b < 256" using unsigned_less [of b, where 'a = nat] by simp
  ultimately show "parse_int 16 (hex01 b) = unat b"
    by (simp add: hex01_def parse_int_def hex_digit_def digit_val_alphabet less_mult_imp_div_less)
qed

end
