(* ===== verification/Fixed_Block.thy ===== *)
theory Fixed_Block
  imports Prelude
begin

text \<open>
  \<^verbatim>\<open>include/mm/fixed_block_allocator.h\<close>: a free list threaded through an array of blocks.  A block is its
  index in the buffer; \<open>fba_next\<close> is the member the template parameter selects.
\<close>

section \<open>Operations\<close>

record FixedBlockAllocator =
  fba_next :: "nat \<Rightarrow> nat option"
  fba_max_size :: nat
  fba_head :: nat
  fba_tail :: nat

function link_blocks :: "(nat \<Rightarrow> nat option) \<Rightarrow> nat \<Rightarrow> nat \<Rightarrow> nat \<Rightarrow> nat \<Rightarrow> nat option" where
  "link_blocks nxt lst i max_size =
     (if i < max_size then link_blocks (nxt(lst := Some i)) i (Suc i) max_size else nxt)"
  by pat_completeness auto
termination
  by (relation "measure (\<lambda>(nxt, lst, i, max_size). max_size - i)") auto

declare link_blocks.simps [simp del]

definition fba_new :: "(nat \<Rightarrow> nat option) \<Rightarrow> nat \<Rightarrow> FixedBlockAllocator res" where
  "fba_new raw max_size =
     (if max_size = 0 then Inl (Panic ''FixedBlockAllocator max_size must > 0'')
      else let nxt = (link_blocks raw 0 1 max_size)(max_size - 1 := None)
           in Inr \<lparr>fba_next = nxt, fba_max_size = max_size, fba_head = 0, fba_tail = max_size - 1\<rparr>)"

definition fba_allocate :: "FixedBlockAllocator \<Rightarrow> (nat option \<times> FixedBlockAllocator) res" where
  "fba_allocate a =
     (if fba_head a = fba_tail a then Inr (None, a)
      else let old_head = fba_head a in
           case fba_next a old_head of
             None \<Rightarrow> Inl (Undefined ''null pointer'')
           | Some new_head \<Rightarrow> Inr (Some old_head, a\<lparr>fba_next := (fba_next a)(old_head := None), fba_head := new_head\<rparr>))"

text \<open>\<^verbatim>\<open>create\<close> takes the block in the same way and constructs an object in it; the constructor writes
  the link member, to the value \<open>v\<close>.\<close>

definition fba_create :: "FixedBlockAllocator \<Rightarrow> nat option \<Rightarrow> (nat option \<times> FixedBlockAllocator) res" where
  "fba_create a v =
     (if fba_head a = fba_tail a then Inr (None, a)
      else let old_head = fba_head a in
           case fba_next a old_head of
             None \<Rightarrow> Inl (Undefined ''null pointer'')
           | Some new_head \<Rightarrow>
               let a1 = a\<lparr>fba_next := (fba_next a)(old_head := None), fba_head := new_head\<rparr>
               in Inr (Some old_head, a1\<lparr>fba_next := (fba_next a1)(old_head := v)\<rparr>))"

definition fba_free :: "FixedBlockAllocator \<Rightarrow> nat \<Rightarrow> FixedBlockAllocator" where
  "fba_free a p = a\<lparr>fba_next := (fba_next a)(p := Some (fba_head a)), fba_head := p\<rparr>"

section \<open>The free list\<close>

fun linked_to :: "(nat \<Rightarrow> nat option) \<Rightarrow> nat list \<Rightarrow> bool" where
  "linked_to nxt (x # y # zs) \<longleftrightarrow> nxt x = Some y \<and> linked_to nxt (y # zs)"
| "linked_to nxt _ \<longleftrightarrow> True"

definition fba_ok :: "FixedBlockAllocator \<Rightarrow> nat list \<Rightarrow> bool" where
  "fba_ok a xs \<longleftrightarrow> xs \<noteq> [] \<and> distinct xs \<and> hd xs = fba_head a \<and> last xs = fba_tail a \<and> linked_to (fba_next a) xs"

lemma linked_to_upd: "x \<notin> set xs \<Longrightarrow> linked_to (nxt(x := v)) xs = linked_to nxt xs"
  by (induction nxt xs rule: linked_to.induct) auto

lemma linked_to_upd_last: "distinct xs \<Longrightarrow> linked_to (nxt(last xs := v)) xs = linked_to nxt xs"
  by (induction nxt xs rule: linked_to.induct) auto

lemma linked_to_snoc: "xs \<noteq> [] \<Longrightarrow> linked_to nxt (xs @ [y]) \<longleftrightarrow> linked_to nxt xs \<and> nxt (last xs) = Some y"
  by (induction nxt xs rule: linked_to.induct) auto

lemma link_blocks_linked:
  "linked_to nxt [0..<Suc lst] \<Longrightarrow> i = Suc lst \<Longrightarrow> i \<le> max_size \<Longrightarrow>
   linked_to (link_blocks nxt lst i max_size) [0..<max_size]"
proof (induction nxt lst i max_size rule: link_blocks.induct)
  case (1 nxt lst i max_size)
  show ?case
  proof (cases "i < max_size")
    case True
    have "linked_to (nxt(lst := Some i)) ([0..<Suc lst] @ [i])"
      using "1.prems" linked_to_upd_last [of "[0..<Suc lst]" nxt "Some i"] by (subst linked_to_snoc) auto
    then have "linked_to (nxt(lst := Some i)) [0..<Suc i]" using "1.prems" by simp
    then have "linked_to (link_blocks (nxt(lst := Some i)) i (Suc i) max_size) [0..<max_size]"
      using True by (intro "1.IH") (simp_all del: upt_Suc fun_upd_apply)
    then show ?thesis using True by (simp add: link_blocks.simps [of nxt lst i])
  next
    case False
    then have "max_size = Suc lst" using "1.prems" by simp
    then show ?thesis using "1.prems" by (simp add: link_blocks.simps [of nxt] del: upt_Suc)
  qed
qed

lemma fba_new_ok:
  assumes "0 < n"
  shows "\<exists>a. fba_new raw n = Inr a \<and> fba_ok a [0..<n]"
proof -
  let ?nxt = "link_blocks raw 0 1 n"
  have "linked_to ?nxt [0..<n]" using assms by (intro link_blocks_linked) auto
  moreover have "last [0..<n] = n - 1" using assms by simp
  ultimately have "linked_to (?nxt(n - 1 := None)) [0..<n]"
    using linked_to_upd_last [of "[0..<n]" ?nxt None] by simp
  then show ?thesis using assms by (simp add: fba_new_def fba_ok_def Let_def hd_upt)
qed

lemma fba_allocate_ok:
  assumes ok: "fba_ok a (x # xs)"
  shows "fba_allocate a = Inr (None, a) \<longleftrightarrow> xs = []"
    and "xs \<noteq> [] \<Longrightarrow> \<exists>a'. fba_allocate a = Inr (Some x, a') \<and> fba_ok a' xs"
proof -
  have "\<exists>a'. fba_allocate a = Inr (Some x, a') \<and> fba_ok a' xs" if ne: "xs \<noteq> []"
  proof -
    obtain y zs where xs: "xs = y # zs" using ne by (cases xs) auto
    have "last xs \<in> set xs" using ne by simp
    then have "x \<noteq> last xs" using ok by (auto simp: fba_ok_def)
    then show ?thesis using ok xs by (auto simp: fba_allocate_def fba_ok_def Let_def linked_to_upd)
  qed
  then show "xs \<noteq> [] \<Longrightarrow> \<exists>a'. fba_allocate a = Inr (Some x, a') \<and> fba_ok a' xs" .
  then show "fba_allocate a = Inr (None, a) \<longleftrightarrow> xs = []"
    using ok by (cases "xs = []") (auto simp: fba_allocate_def fba_ok_def)
qed

lemma fba_free_ok: "fba_ok a xs \<Longrightarrow> p \<notin> set xs \<Longrightarrow> fba_ok (fba_free a p) (p # xs)"
  by (cases xs) (auto simp: fba_free_def fba_ok_def linked_to_upd)

text \<open>Taking blocks until the allocator refuses.\<close>

fun take_blocks :: "nat \<Rightarrow> FixedBlockAllocator \<Rightarrow> (nat list \<times> FixedBlockAllocator) res" where
  "take_blocks 0 a = Inr ([], a)"
| "take_blocks (Suc k) a =
     bindR (fba_allocate a) (\<lambda>(b, a').
       case b of None \<Rightarrow> Inr ([], a') | Some x \<Rightarrow> bindR (take_blocks k a') (\<lambda>(bs, a''). Inr (x # bs, a'')))"

lemma take_blocks_ok:
  "fba_ok a xs \<Longrightarrow> \<exists>a'. take_blocks k a = Inr (take k (butlast xs), a') \<and> fba_ok a' (drop (min k (length xs - 1)) xs)"
proof (induction k arbitrary: a xs)
  case 0
  then show ?case by simp
next
  case (Suc k)
  obtain x ys where xs: "xs = x # ys" using Suc.prems by (cases xs) (auto simp: fba_ok_def)
  show ?case
  proof (cases "ys = []")
    case True
    then have "fba_allocate a = Inr (None, a)" using fba_allocate_ok(1) Suc.prems xs by blast
    then show ?thesis using True Suc.prems xs by simp
  next
    case False
    then obtain a' where a': "fba_allocate a = Inr (Some x, a')" "fba_ok a' ys" using fba_allocate_ok(2) Suc.prems xs by blast
    from Suc.IH [OF a'(2)] a'(1) xs False show ?thesis by (cases ys) auto
  qed
qed

section \<open>Properties\<close>

text \<open>An allocator over \<open>n\<close> blocks hands out the first \<open>n - 1\<close> of them, each once, and then refuses: the
  last block is the sentinel and is never handed out.  A block given back is the next one
  handed out.\<close>

theorem fba_capacity:
  assumes "0 < n"
  shows "\<exists>a a'. fba_new raw n = Inr a \<and> take_blocks n a = Inr ([0..<n - 1], a') \<and> fba_allocate a' = Inr (None, a') \<and>
    (\<forall>p < n - 1. \<exists>a''. fba_allocate (fba_free a' p) = Inr (Some p, a'') \<and> fba_allocate a'' = Inr (None, a''))"
proof -
  obtain a where a: "fba_new raw n = Inr a" "fba_ok a [0..<n]" using fba_new_ok [OF assms] by blast
  have bl: "butlast [0..<n] = [0..<n - 1]" "drop (min n (n - 1)) [0..<n] = [n - 1]"
    using assms by (cases n; simp)+
  obtain a' where a': "take_blocks n a = Inr ([0..<n - 1], a')" "fba_ok a' [n - 1]"
    using take_blocks_ok [OF a(2), of n] bl by auto
  have "\<exists>a''. fba_allocate (fba_free a' p) = Inr (Some p, a'') \<and> fba_allocate a'' = Inr (None, a'')" if "p < n - 1" for p
  proof -
    have "fba_ok (fba_free a' p) (p # [n - 1])" using fba_free_ok [OF a'(2)] that by simp
    then obtain a'' where "fba_allocate (fba_free a' p) = Inr (Some p, a'')" "fba_ok a'' [n - 1]"
      using fba_allocate_ok(2) by blast
    then show ?thesis using fba_allocate_ok(1) by blast
  qed
  then show ?thesis using a(1) a' fba_allocate_ok(1) [OF a'(2)] by blast
qed

theorem fba_capacity_witness:
  "\<exists>a a'. fba_new (\<lambda>_. None) 4 = Inr a \<and> take_blocks 4 a = Inr ([0, 1, 2], a') \<and> fba_allocate a' = Inr (None, a')"
proof -
  have "[0..<4 - 1] = [0, 1, 2::nat]" by (simp add: upt_rec)
  then show ?thesis using fba_capacity [of 4 "\<lambda>_. None"] by auto
qed

end
