(* ===== verification/Mem_Fs.thy ===== *)
theory Mem_Fs
  imports Prelude
begin

text \<open>
  \<^verbatim>\<open>include/fs/mem_fs_node.hpp\<close>: the file system in memory.  A file is the contents of its
  vector of bytes, a directory its map from names to the nodes it owns.  The parent pointers
  are never read.  A pointer to a node that \<^verbatim>\<open>reinterpret_cast\<close> gives the wrong class is
  undefined as soon as it is used.
\<close>

section \<open>Files\<close>

datatype NodeType = NodeDir | NodeFile

datatype MemFsNode = MemFsFileNode "u8 list" | MemFsDirNode "string \<rightharpoonup> MemFsNode"

type_synonym entries = "string \<rightharpoonup> MemFsNode"

fun node_type :: "MemFsNode \<Rightarrow> NodeType" where
  "node_type (MemFsFileNode _) = NodeDir"
| "node_type (MemFsDirNode _) = NodeFile"

definition vec_resize :: "u8 list \<Rightarrow> nat \<Rightarrow> u8 list" where
  "vec_resize d n = take n d @ replicate (n - length d) 0"

definition file_read :: "u8 list \<Rightarrow> u64 \<Rightarrow> u64 \<Rightarrow> u8 list res" where
  "file_read d sz offset =
     bindR (assertR (unat offset < length d) ''offset < data_.size()'') (\<lambda>_.
     let read_size = (if length d < unat (offset + sz) then length d - unat offset else unat sz)
     in bindR (guardR (unat offset + read_size \<le> length d) ''memcpy from outside the file'')
          (\<lambda>_. Inr (take read_size (drop (unat offset) d))))"

definition file_write :: "u8 list \<Rightarrow> u8 list \<Rightarrow> u64 \<Rightarrow> u8 list res" where
  "file_write d buffer offset =
     (let sz = of_nat (length buffer) :: u64;
          d' = (if length d < unat offset then vec_resize d (unat (offset + sz)) else d)
      in bindR (guardR (unat offset + length buffer \<le> length d') ''memcpy to outside the file'')
           (\<lambda>_. Inr (take (unat offset) d' @ buffer @ drop (unat offset + length buffer) d')))"

definition file_resize :: "u8 list \<Rightarrow> nat \<Rightarrow> u8 list" where
  "file_resize d new_size = vec_resize d new_size"

definition file_size :: "u8 list \<Rightarrow> nat" where
  "file_size d = length d"

section \<open>Directories\<close>

definition list_dir_node :: "entries \<Rightarrow> entries" where
  "list_dir_node es = (\<lambda>k. case es k of None \<Rightarrow> None | Some v \<Rightarrow> Some v)"

definition mkdir :: "entries \<Rightarrow> string \<Rightarrow> entries res" where
  "mkdir es name =
     bindR (assertR (es name = None) ''entries_.find(name) == entries_.end()'')
       (\<lambda>_. Inr (es(name \<mapsto> MemFsDirNode Map.empty)))"

text \<open>The node \<^verbatim>\<open>Open\<close> returns a pointer to, and the directory after it.\<close>

definition open_node :: "entries \<Rightarrow> string \<Rightarrow> (MemFsNode \<times> entries) res" where
  "open_node es name =
     (case es name of
        Some node \<Rightarrow> bindR (assertR (node_type node = NodeFile) ''type() == NodeType::File'') (\<lambda>_. Inr (node, es))
      | None \<Rightarrow> Inr (MemFsFileNode [], es(name \<mapsto> MemFsFileNode [])))"

definition as_file :: "MemFsNode \<Rightarrow> u8 list res" where
  "as_file node = (case node of MemFsFileNode d \<Rightarrow> Inr d | MemFsDirNode _ \<Rightarrow> Inl (Undefined ''directory used as a file''))"

definition open_write :: "entries \<Rightarrow> string \<Rightarrow> u8 list \<Rightarrow> u64 \<Rightarrow> entries res" where
  "open_write es name buffer offset =
     bindR (open_node es name) (\<lambda>(node, es').
     bindR (as_file node) (\<lambda>d.
     bindR (file_write d buffer offset) (\<lambda>d'. Inr (es'(name \<mapsto> MemFsFileNode d')))))"

section \<open>Properties\<close>

lemma length_vec_resize [simp]: "length (vec_resize d n) = n"
  by (simp add: vec_resize_def)

lemma take_vec_resize: "k \<le> n \<Longrightarrow> k \<le> length d \<Longrightarrow> take k (vec_resize d n) = take k d"
  by (simp add: vec_resize_def min_absorb1)

lemma file_write_outcome:
  assumes "unat offset + length buffer < 2 ^ 64"
  shows "file_write d buffer offset =
    (if unat offset \<le> length d \<and> length d < unat offset + length buffer
     then Inl (Undefined ''memcpy to outside the file'')
     else let d' = (if length d < unat offset then vec_resize d (unat offset + length buffer) else d)
          in Inr (take (unat offset) d' @ buffer @ drop (unat offset + length buffer) d'))"
proof -
  have "length buffer < 2 ^ 64" using assms by simp
  then have "unat (offset + of_nat (length buffer)) = unat offset + length buffer"
    using assms by (simp add: unat_word_ariths unat_of_nat)
  then show ?thesis by (auto simp: file_write_def Let_def)
qed

text \<open>A write returns unless it starts inside the file and runs past its end, which writes outside the
  file's memory; so the first write to a new file at offset 0 does.  After a write that returns,
  reading the same range gives what was written, the bytes before it are the old ones, and the file
  has not become shorter.\<close>

theorem memfs_write_read:
  assumes fits: "unat offset + length buffer < 2 ^ 64" and ne: "buffer \<noteq> []"
  shows "(unat offset \<le> length d \<and> length d < unat offset + length buffer \<longrightarrow>
           file_write d buffer offset = Inl (Undefined ''memcpy to outside the file'')) \<and>
         (\<not> (unat offset \<le> length d \<and> length d < unat offset + length buffer) \<longrightarrow>
           (\<exists>d'. file_write d buffer offset = Inr d' \<and> length d \<le> length d' \<and>
              file_read d' (of_nat (length buffer)) offset = Inr buffer \<and>
              take (min (unat offset) (length d)) d' = take (min (unat offset) (length d)) d))"
proof (intro conjI impI)
  show "unat offset \<le> length d \<and> length d < unat offset + length buffer \<Longrightarrow>
    file_write d buffer offset = Inl (Undefined ''memcpy to outside the file'')"
    by (subst file_write_outcome [OF fits]) simp
next
  assume ok: "\<not> (unat offset \<le> length d \<and> length d < unat offset + length buffer)"
  define e where "e = (if length d < unat offset then vec_resize d (unat offset + length buffer) else d)"
  define d' where "d' = take (unat offset) e @ buffer @ drop (unat offset + length buffer) e"
  have w: "file_write d buffer offset = Inr d'"
    by (subst file_write_outcome [OF fits]) (use ok in \<open>simp add: d'_def e_def\<close>)
  have len: "unat offset + length buffer \<le> length e" "length d \<le> length e" using ok by (auto simp: e_def)
  have u: "unat (of_nat (length buffer) :: u64) = length buffer" using fits by (simp add: unat_of_nat)
  have s: "unat (offset + of_nat (length buffer)) = unat offset + length buffer"
    using fits u by (simp add: unat_word_ariths)
  have "length d' = length e" using len by (simp add: d'_def)
  moreover have "unat offset < length e" using len ne by (cases buffer) simp_all
  ultimately have r: "file_read d' (of_nat (length buffer)) offset = Inr buffer"
    using len u s by (simp add: file_read_def Let_def) (simp add: d'_def)
  have "take (min (unat offset) (length d)) d' = take (min (unat offset) (length d)) e"
    using len by (simp add: d'_def min_def)
  also have "\<dots> = take (min (unat offset) (length d)) d" by (simp add: e_def take_vec_resize)
  finally show "\<exists>d'. file_write d buffer offset = Inr d' \<and> length d \<le> length d' \<and>
      file_read d' (of_nat (length buffer)) offset = Inr buffer \<and>
      take (min (unat offset) (length d)) d' = take (min (unat offset) (length d)) d"
    using w r len by (auto simp: d'_def)
qed

theorem memfs_write_read_witness:
  "\<exists>d'. file_write [1, 2, 3] [7, 8] 1 = Inr d' \<and> file_read d' 2 1 = Inr [7, 8]"
  using memfs_write_read [of 1 "[7, 8]" "[1, 2, 3]"] by auto

text \<open>A file can be opened once: the second \<^verbatim>\<open>Open\<close> of the same name stops the kernel, because the
  node types of files and directories are exchanged.  A directory, in contrast, can be opened, and the
  first write through the pointer is undefined.  Creating a directory over an existing name
  stops the kernel.\<close>

theorem memfs_open_twice:
  assumes "es name = None"
  shows "(\<exists>es'. open_node es name = Inr (MemFsFileNode [], es') \<and> (\<exists>msg. open_node es' name = Inl (Panic msg)) \<and>
           (\<exists>msg. mkdir es' name = Inl (Panic msg))) \<and>
         (\<exists>es'. mkdir es name = Inr es' \<and> open_node es' name = Inr (MemFsDirNode Map.empty, es') \<and>
           (\<exists>msg. open_write es' name buffer offset = Inl (Undefined msg)))"
  using assms by (simp add: open_node_def mkdir_def open_write_def as_file_def)

theorem memfs_open_twice_witness:
  "\<exists>es'. open_node Map.empty ''init'' = Inr (MemFsFileNode [], es') \<and> (\<exists>msg. open_node es' ''init'' = Inl (Panic msg))"
  using memfs_open_twice [of Map.empty "''init''" "[]" 0] by auto

end
