(* ===== verification/Elf.thy ===== *)
theory Elf
  imports Lib
begin

text \<open>
  \<^verbatim>\<open>elf.h\<close> and the loader of user programs, \<^verbatim>\<open>Process::load_elf_from_buffer\<close> of \<^verbatim>\<open>process.cpp\<close>.  The file lies in
  memory at \<open>buffer\<close>; memory is the address space in use when the loader runs, and the headers
  are read again from it where the code reads them again.
\<close>

section \<open>Headers\<close>

text \<open>A little-endian load of \<open>n\<close> bytes.\<close>

definition load_le :: "mem \<Rightarrow> u64 \<Rightarrow> nat \<Rightarrow> 'a::len word" where
  "load_le m a n = foldr (\<lambda>i w. ucast (m (a + of_nat i)) OR push_bit 8 w) [0..<n] 0"

text \<open>A list of bytes as a memory, at address 0.\<close>

definition bytes_mem :: "u8 list \<Rightarrow> mem" where
  "bytes_mem bs = (\<lambda>x. if unat x < length bs then bs ! unat x else 0)"

lemma load_le_shift:
  "(\<And>i. i < n \<Longrightarrow> m (a + of_nat i) = m' (a' + of_nat i)) \<Longrightarrow> load_le m a n = load_le m' a' n"
  unfolding load_le_def by (intro foldr_cong) auto

record Elf64_Ehdr =
  e_type :: u16
  e_machine :: u16
  e_version :: u32
  e_entry :: u64
  e_phoff :: u64
  e_shoff :: u64
  e_flags :: u32
  e_ehsize :: u16
  e_phentsize :: u16
  e_phnum :: u16
  e_shentsize :: u16
  e_shnum :: u16
  e_shstrndx :: u16

record Elf64_Phdr =
  p_type :: u32
  p_flags :: u32
  p_offset :: u64
  p_vaddr :: u64
  p_paddr :: u64
  p_filesz :: u64
  p_memsz :: u64
  p_align :: u64

definition read_ehdr :: "mem \<Rightarrow> u64 \<Rightarrow> Elf64_Ehdr" where
  "read_ehdr m a =
     \<lparr>e_type = load_le m (a + 16) 2, e_machine = load_le m (a + 18) 2, e_version = load_le m (a + 20) 4,
      e_entry = load_le m (a + 24) 8, e_phoff = load_le m (a + 32) 8, e_shoff = load_le m (a + 40) 8,
      e_flags = load_le m (a + 48) 4, e_ehsize = load_le m (a + 52) 2, e_phentsize = load_le m (a + 54) 2,
      e_phnum = load_le m (a + 56) 2, e_shentsize = load_le m (a + 58) 2, e_shnum = load_le m (a + 60) 2,
      e_shstrndx = load_le m (a + 62) 2\<rparr>"

definition read_phdr :: "mem \<Rightarrow> u64 \<Rightarrow> Elf64_Phdr" where
  "read_phdr m a =
     \<lparr>p_type = load_le m a 4, p_flags = load_le m (a + 4) 4, p_offset = load_le m (a + 8) 8,
      p_vaddr = load_le m (a + 16) 8, p_paddr = load_le m (a + 24) 8, p_filesz = load_le m (a + 32) 8,
      p_memsz = load_le m (a + 40) 8, p_align = load_le m (a + 48) 8\<rparr>"

definition PT_LOAD :: u32 where "PT_LOAD = 1"

text \<open>The address of program header \<open>i\<close>.\<close>

definition phdr_addr :: "u64 \<Rightarrow> Elf64_Ehdr \<Rightarrow> nat \<Rightarrow> u64" where
  "phdr_addr buffer ehdr i = buffer + e_phoff ehdr + of_nat (unat (e_phentsize ehdr) * i)"

definition ElfMagic :: "u8 list" where "ElfMagic = [0x7f, 0x45, 0x4c, 0x46]"

definition magic_ok :: "mem \<Rightarrow> u64 \<Rightarrow> bool" where
  "magic_ok m buffer = list_all (\<lambda>i. ElfMagic ! i = m (buffer + of_nat i)) [0..<4]"

section \<open>The loader\<close>

definition USER_IMAGE_START :: u64 where "USER_IMAGE_START = 1 * 1024 * 1024"

definition USER_IMAGE_SIZE :: u64 where "USER_IMAGE_SIZE = 8 * 1024 * 1024"

definition load_segment :: "mem \<Rightarrow> u64 \<Rightarrow> Elf64_Ehdr \<Rightarrow> nat \<Rightarrow> mem res" where
  "load_segment m buffer ehdr i =
     bindR (guardR (unat (e_phentsize ehdr) * i < 2 ^ 31) ''signed overflow'') (\<lambda>_.
     let phdr = read_phdr m (phdr_addr buffer ehdr i) in
     if p_type phdr = PT_LOAD \<and> p_memsz phdr > 0
     then bindR (assertR (p_vaddr phdr \<ge> 0x100000) ''Segment is at wrong location'') (\<lambda>_.
          bindR (assertR (p_vaddr phdr + p_memsz phdr \<le> USER_IMAGE_START + USER_IMAGE_SIZE) ''Segment too big'') (\<lambda>_.
          if p_filesz phdr \<le> p_memsz phdr
          then Inr (memcpy m (p_vaddr phdr) (buffer + p_offset phdr) (p_filesz phdr))
          else Inl (Panic ''filesize > memsize'')))
     else Inr m)"

lemma e_phnum_bound: "unat (e_phnum h) < 65536"
  using unsigned_less [of "e_phnum h"] by simp

function load_segments :: "mem \<Rightarrow> u64 \<Rightarrow> nat \<Rightarrow> mem res" where
  "load_segments m buffer i =
     (let ehdr = read_ehdr m buffer in
      if i < unat (e_phnum ehdr)
      then bindR (load_segment m buffer ehdr i) (\<lambda>m'. load_segments m' buffer (Suc i))
      else Inr m)"
  by pat_completeness auto
termination
proof (relation "measure (\<lambda>(m, buffer, i). 65536 - i)")
  fix m buffer i ehdr x
  assume "ehdr = read_ehdr m buffer" "i < unat (e_phnum ehdr)"
  then have "i < 65536" using e_phnum_bound [of ehdr] by simp
  then show "((x, buffer, Suc i), m, buffer, i) \<in> measure (\<lambda>(m, buffer, i). 65536 - i)" by simp
qed simp

declare load_segments.simps [simp del]

definition load_elf_from_buffer :: "mem \<Rightarrow> u64 \<Rightarrow> (u64 \<times> mem) res" where
  "load_elf_from_buffer m buffer =
     (if \<not> magic_ok m buffer then Inl (Panic ''Corrupted ELF file, invalid header magic'')
      else bindR (assertR (e_phoff (read_ehdr m buffer) \<noteq> 0) ''program header table not found'') (\<lambda>_.
           bindR (load_segments m buffer 0) (\<lambda>m'. Inr (e_entry (read_ehdr m' buffer), m'))))"

section \<open>Well-formed program files\<close>

definition user_image :: "u64 set" where
  "user_image = {a. 0x100000 \<le> unat a \<and> unat a < 0x900000}"

lemma load_le_cong:
  "(\<And>i. i < n \<Longrightarrow> m' (a + of_nat i) = m (a + of_nat i)) \<Longrightarrow> load_le m' a n = load_le m a n"
  unfolding load_le_def by (intro foldr_cong) auto

lemma load_le_field:
  assumes "\<And>j. j < sz \<Longrightarrow> m' (b + of_nat j) = m (b + of_nat j)" "unat k + n \<le> sz"
  shows "load_le m' (b + k) n = load_le m (b + k) n"
proof (rule load_le_cong)
  fix i assume "i < n"
  then show "m' (b + k + of_nat i) = m (b + k + of_nat i)" using assms(1) [of "unat k + i"] assms(2) by (simp add: add.assoc)
qed

lemma read_ehdr_cong:
  assumes "\<And>j. j < 64 \<Longrightarrow> m' (b + of_nat j) = m (b + of_nat j)"
  shows "read_ehdr m' b = read_ehdr m b"
  unfolding read_ehdr_def Elf64_Ehdr.ext_inject by (intro conjI refl load_le_field [of 64 m' b m, OF assms]) simp_all

lemma read_phdr_cong:
  assumes "\<And>j. j < 56 \<Longrightarrow> m' (b + of_nat j) = m (b + of_nat j)"
  shows "read_phdr m' b = read_phdr m b"
proof -
  have "load_le m' b 4 = load_le m b 4" using load_le_field [of 56 m' b m, OF assms, of 0 4] by simp
  then show ?thesis
    unfolding read_phdr_def Elf64_Phdr.ext_inject by (intro conjI refl load_le_field [of 56 m' b m, OF assms]) simp_all
qed

text \<open>Segment \<open>i\<close> of the file, the addresses it is loaded to, and the conditions on it.\<close>

definition segment :: "mem \<Rightarrow> u64 \<Rightarrow> nat \<Rightarrow> Elf64_Phdr" where
  "segment m buffer i = read_phdr m (phdr_addr buffer (read_ehdr m buffer) i)"

definition loadable :: "Elf64_Phdr \<Rightarrow> bool" where
  "loadable p = (p_type p = PT_LOAD \<and> p_memsz p > 0)"

section \<open>Loaders\<close>

text \<open>
  A loader goes through the program headers and copies each loadable segment \<open>p\<close> to \<open>dest p\<close>, \<open>len p\<close> bytes of it.  The kernel has
  one for user programs, and the boot loader one for the kernel.  \<open>step\<close> is one round of the loop and \<open>loop\<close> the
  rounds from a header on, both as the memories they lead to.  What is loaded stays inside \<open>area\<close>, which holds neither
  the headers nor the data.
\<close>

locale image_loader =
  fixes area :: "u64 set" and dest :: "Elf64_Phdr \<Rightarrow> u64" and len :: "Elf64_Phdr \<Rightarrow> nat" and seg_ok :: "u64 \<Rightarrow> Elf64_Phdr \<Rightarrow> bool"
    and step :: "mem \<Rightarrow> u64 \<Rightarrow> Elf64_Ehdr \<Rightarrow> nat \<Rightarrow> mem \<Rightarrow> bool" and loop :: "mem \<Rightarrow> u64 \<Rightarrow> nat \<Rightarrow> mem \<Rightarrow> bool"
  assumes in_area: "seg_ok buffer p \<Longrightarrow> k < len p \<Longrightarrow> dest p + of_nat k \<in> area"
    and data_outside: "seg_ok buffer p \<Longrightarrow> k < len p \<Longrightarrow> buffer + p_offset p + of_nat k \<notin> area"
    and skips: "unat (e_phentsize ehdr) * i < 2 ^ 31 \<Longrightarrow> \<not> loadable (read_phdr m (phdr_addr buffer ehdr i)) \<Longrightarrow> step m buffer ehdr i m"
    and copies: "unat (e_phentsize ehdr) * i < 2 ^ 31 \<Longrightarrow> p = read_phdr m (phdr_addr buffer ehdr i) \<Longrightarrow> loadable p \<Longrightarrow> seg_ok buffer p \<Longrightarrow>
      step m buffer ehdr i (memcpy_loop m (dest p) (buffer + p_offset p) (len p) 0)"
    and short: "len p < 2 ^ 64"
    and stops: "\<not> i < unat (e_phnum (read_ehdr m buffer)) \<Longrightarrow> loop m buffer i m"
    and continues: "i < unat (e_phnum (read_ehdr m buffer)) \<Longrightarrow> step m buffer (read_ehdr m buffer) i m1 \<Longrightarrow> loop m1 buffer (Suc i) m2 \<Longrightarrow>
      loop m buffer i m2"
begin

definition target :: "Elf64_Phdr \<Rightarrow> u64 set" where
  "target p = (\<lambda>k. dest p + of_nat k) ` {..<len p}"

definition image_ok :: "mem \<Rightarrow> u64 \<Rightarrow> bool" where
  "image_ok m buffer \<longleftrightarrow>
     (let ehdr = read_ehdr m buffer; n = unat (e_phnum ehdr) in
      unat (e_phentsize ehdr) * n < 2 ^ 31 \<and>
      (\<forall>j < 64. buffer + of_nat j \<notin> area) \<and>
      (\<forall>i < n. \<forall>j < 56. phdr_addr buffer ehdr i + of_nat j \<notin> area) \<and>
      (\<forall>i < n. loadable (segment m buffer i) \<longrightarrow> seg_ok buffer (segment m buffer i)) \<and>
      (\<forall>i < n. \<forall>k < i. loadable (segment m buffer i) \<longrightarrow> loadable (segment m buffer k) \<longrightarrow>
         target (segment m buffer i) \<inter> target (segment m buffer k) = {}))"

text \<open>What holds after the first \<open>i\<close> segments.\<close>

definition loaded :: "mem \<Rightarrow> u64 \<Rightarrow> nat \<Rightarrow> mem \<Rightarrow> bool" where
  "loaded m buffer i m' \<longleftrightarrow> (\<forall>x. x \<notin> area \<longrightarrow> m' x = m x) \<and>
     (\<forall>j < i. loadable (segment m buffer j) \<longrightarrow> (\<forall>k < len (segment m buffer j).
        m' (dest (segment m buffer j) + of_nat k) = m (buffer + p_offset (segment m buffer j) + of_nat k)))"

lemma target_in_area: "seg_ok buffer p \<Longrightarrow> target p \<subseteq> area"
  by (auto simp: target_def intro: in_area)

lemma copied:
  assumes "seg_ok buffer p"
  shows "k < len p \<Longrightarrow> memcpy_loop m (dest p) (buffer + p_offset p) (len p) 0 (dest p + of_nat k) = m (buffer + p_offset p + of_nat k)"
    and "x \<notin> target p \<Longrightarrow> memcpy_loop m (dest p) (buffer + p_offset p) (len p) 0 x = m x"
proof -
  have le: "len p \<le> 2 ^ 64" using short [of p] by simp
  have up: "dest p + of_nat j \<noteq> buffer + p_offset p + of_nat k" if "j < k" "k < len p" for j k
    using in_area [OF assms, of j] data_outside [OF assms, of k] that by auto
  show "k < len p \<Longrightarrow> memcpy_loop m (dest p) (buffer + p_offset p) (len p) 0 (dest p + of_nat k) = m (buffer + p_offset p + of_nat k)"
    using le up by (auto intro: memcpy_loop_spec(1))
  show "x \<notin> target p \<Longrightarrow> memcpy_loop m (dest p) (buffer + p_offset p) (len p) 0 x = m x"
    using le up by (intro memcpy_loop_spec(2)) (auto simp: target_def)
qed

text \<open>Loading only looks at what lies outside the area, so it does the same in two memories that agree there.\<close>

lemma segment_cong:
  assumes ok: "image_ok m buffer" and same: "\<And>x. x \<notin> area \<Longrightarrow> m' x = m x"
  shows "read_ehdr m' buffer = read_ehdr m buffer"
    and "i < unat (e_phnum (read_ehdr m buffer)) \<Longrightarrow> segment m' buffer i = segment m buffer i"
proof -
  show h: "read_ehdr m' buffer = read_ehdr m buffer"
    using ok by (intro read_ehdr_cong same) (auto simp: image_ok_def Let_def)
  show "segment m' buffer i = segment m buffer i" if "i < unat (e_phnum (read_ehdr m buffer))"
    unfolding segment_def h using ok that by (intro read_phdr_cong same) (auto simp: image_ok_def Let_def)
qed

lemma step_loaded:
  assumes ok: "image_ok m buffer" and inv: "loaded m buffer i m1" and i: "i < unat (e_phnum (read_ehdr m buffer))"
  shows "\<exists>m2. step m1 buffer (read_ehdr m1 buffer) i m2 \<and> loaded m buffer (Suc i) m2"
proof -
  have same: "\<And>x. x \<notin> area \<Longrightarrow> m1 x = m x" using inv by (simp add: loaded_def)
  have h: "read_ehdr m1 buffer = read_ehdr m buffer" using segment_cong(1) [OF ok] same by blast
  have seg: "segment m1 buffer i = segment m buffer i" using segment_cong(2) [OF ok _ i] same by blast
  let ?p = "segment m buffer i" and ?e = "read_ehdr m buffer"
  have p: "?p = read_phdr m1 (phdr_addr buffer ?e i)" using seg by (simp add: segment_def h)
  have "unat (e_phentsize ?e) * i \<le> unat (e_phentsize ?e) * unat (e_phnum ?e)" using i by simp
  also have "\<dots> < 2 ^ 31" using ok by (auto simp: image_ok_def Let_def)
  finally have sz: "unat (e_phentsize ?e) * i < 2 ^ 31" .
  show ?thesis
  proof (cases "loadable ?p")
    case False
    then have "step m1 buffer ?e i m1" using skips [OF sz] p by simp
    then show ?thesis using inv False by (auto simp: h loaded_def less_Suc_eq)
  next
    case True
    have sok: "seg_ok buffer ?p" using ok True i by (auto simp: image_ok_def Let_def)
    define m2 where "m2 = memcpy_loop m1 (dest ?p) (buffer + p_offset ?p) (len ?p) 0"
    have out: "m2 x = m1 x" if "x \<notin> target ?p" for x using copied(2) [OF sok that] by (simp add: m2_def)
    have "m2 (dest ?p + of_nat k) = m (buffer + p_offset ?p + of_nat k)" if "k < len ?p" for k
      using copied(1) [OF sok that] data_outside [OF sok that] same by (simp add: m2_def)
    moreover have "m2 (dest q + of_nat k) = m1 (dest q + of_nat k)"
      if "j < i" "q = segment m buffer j" "loadable q" "k < len q" for j q k
    proof -
      have "dest q + of_nat k \<in> target q" using that by (auto simp: target_def)
      moreover have "target ?p \<inter> target q = {}" using ok i True that by (auto simp: image_ok_def Let_def)
      ultimately show ?thesis using out by blast
    qed
    moreover have "m2 x = m x" if "x \<notin> area" for x using out [of x] that target_in_area [OF sok] same [of x] by (metis subsetD)
    ultimately have "loaded m buffer (Suc i) m2" using inv by (auto simp: loaded_def less_Suc_eq)
    then show ?thesis using copies [OF sz p True sok] by (auto simp: h m2_def)
  qed
qed

lemma loop_loaded:
  assumes ok: "image_ok m buffer"
  shows "loaded m buffer i m1 \<Longrightarrow> i \<le> unat (e_phnum (read_ehdr m buffer)) \<Longrightarrow>
    \<exists>m2. loop m1 buffer i m2 \<and> loaded m buffer (unat (e_phnum (read_ehdr m buffer))) m2"
proof (induction "unat (e_phnum (read_ehdr m buffer)) - i" arbitrary: i m1)
  case 0
  have "read_ehdr m1 buffer = read_ehdr m buffer" using 0 by (intro segment_cong(1) [OF ok]) (simp add: loaded_def)
  then show ?case using 0 stops [of i m1 buffer] by auto
next
  case (Suc d)
  have h: "read_ehdr m1 buffer = read_ehdr m buffer" using Suc by (intro segment_cong(1) [OF ok]) (simp add: loaded_def)
  have i: "i < unat (e_phnum (read_ehdr m buffer))" using Suc by simp
  from step_loaded [OF ok Suc.prems(1) i]
  obtain m2 where m2: "step m1 buffer (read_ehdr m1 buffer) i m2" "loaded m buffer (Suc i) m2" by blast
  have "\<exists>m3. loop m2 buffer (Suc i) m3 \<and> loaded m buffer (unat (e_phnum (read_ehdr m buffer))) m3"
    using Suc m2(2) i by (intro Suc.hyps) auto
  then show ?case using continues [of i m1 buffer m2] m2(1) i by (auto simp: h)
qed

lemma load_all:
  assumes ok: "image_ok m buffer"
  shows "\<exists>m'. loop m buffer 0 m' \<and> loaded m buffer (unat (e_phnum (read_ehdr m buffer))) m' \<and> read_ehdr m' buffer = read_ehdr m buffer"
proof -
  obtain m' where m': "loop m buffer 0 m'" "loaded m buffer (unat (e_phnum (read_ehdr m buffer))) m'"
    using loop_loaded [OF ok, of 0 m] by (auto simp: loaded_def)
  then show ?thesis using segment_cong(1) [OF ok, of m'] by (auto simp: loaded_def)
qed

end

section \<open>The loader of user programs\<close>

definition segment_ok :: "u64 \<Rightarrow> Elf64_Phdr \<Rightarrow> bool" where
  "segment_ok buffer p \<longleftrightarrow>
     0x100000 \<le> unat (p_vaddr p) \<and> unat (p_vaddr p) + unat (p_memsz p) \<le> 0x900000 \<and> p_filesz p \<le> p_memsz p \<and>
     (\<forall>k < unat (p_filesz p). buffer + p_offset p + of_nat k \<notin> user_image)"

interpretation ul: image_loader user_image p_vaddr "\<lambda>p. unat (p_filesz p)" segment_ok
  "\<lambda>m buffer ehdr i m'. load_segment m buffer ehdr i = Inr m'" "\<lambda>m buffer i m'. load_segments m buffer i = Inr m'"
proof
  show "p_vaddr p + of_nat k \<in> user_image" if "segment_ok buffer p" "k < unat (p_filesz p)" for buffer p k
  proof -
    have k: "k < unat (p_memsz p)" using that by (auto simp: segment_ok_def word_le_nat_alt)
    then have "unat (p_vaddr p + of_nat k) = unat (p_vaddr p) + k"
      using that by (simp add: segment_ok_def unat_word_ariths unat_of_nat)
    then show ?thesis using that k by (simp add: segment_ok_def user_image_def)
  qed
  show "load_segment m buffer ehdr i = Inr (memcpy_loop m (p_vaddr p) (buffer + p_offset p) (unat (p_filesz p)) 0)"
    if "unat (e_phentsize ehdr) * i < 2 ^ 31" "p = read_phdr m (phdr_addr buffer ehdr i)" "loadable p" "segment_ok buffer p"
    for ehdr i p m buffer
  proof -
    have "unat (p_vaddr p + p_memsz p) = unat (p_vaddr p) + unat (p_memsz p)"
      using that(4) by (simp add: segment_ok_def unat_word_ariths)
    then show ?thesis using that
      by (simp add: load_segment_def loadable_def segment_ok_def Let_def word_le_nat_alt USER_IMAGE_START_def USER_IMAGE_SIZE_def memcpy_def)
  qed
  show "unat (p_filesz p) < 2 ^ 64" for p using unsigned_less [of "p_filesz p"] by simp
qed (auto simp: segment_ok_def load_segment_def loadable_def Let_def load_segments.simps)

text \<open>A program file: the headers and the data are outside the image area, and no two segments overlap.\<close>

definition segment_bytes :: "Elf64_Phdr \<Rightarrow> u64 set" where
  "segment_bytes p = (\<lambda>k. p_vaddr p + of_nat k) ` {..<unat (p_filesz p)}"

definition elf_ok :: "mem \<Rightarrow> u64 \<Rightarrow> bool" where
  "elf_ok m buffer \<longleftrightarrow>
     (let ehdr = read_ehdr m buffer; n = unat (e_phnum ehdr) in
      magic_ok m buffer \<and> e_phoff ehdr \<noteq> 0 \<and> unat (e_phentsize ehdr) * n < 2 ^ 31 \<and>
      (\<forall>j < 64. buffer + of_nat j \<notin> user_image) \<and>
      (\<forall>i < n. \<forall>j < 56. phdr_addr buffer ehdr i + of_nat j \<notin> user_image) \<and>
      (\<forall>i < n. loadable (segment m buffer i) \<longrightarrow> segment_ok buffer (segment m buffer i)) \<and>
      (\<forall>i < n. \<forall>k < i. loadable (segment m buffer i) \<longrightarrow> loadable (segment m buffer k) \<longrightarrow>
         segment_bytes (segment m buffer i) \<inter> segment_bytes (segment m buffer k) = {}))"

lemma elf_okD:
  assumes "elf_ok m buffer"
  shows "magic_ok m buffer" "e_phoff (read_ehdr m buffer) \<noteq> 0" "ul.image_ok m buffer"
  using assms unfolding elf_ok_def ul.image_ok_def Let_def ul.target_def segment_bytes_def by blast+

section \<open>Properties\<close>

text \<open>C9: the loader accepts a file whose program headers and data lie outside the image area and whose segments
  fit the area without overlap.  It returns the entry point of the file, every byte of a loadable
  segment that the file holds is at its address, and nothing outside the image area
  has changed.  A file with another magic number stops the kernel.\<close>

theorem load_elf_correct:
  "(elf_ok m buffer \<longrightarrow> (\<exists>m'. load_elf_from_buffer m buffer = Inr (e_entry (read_ehdr m buffer), m') \<and>
     (\<forall>x. x \<notin> user_image \<longrightarrow> m' x = m x) \<and>
     (\<forall>i < unat (e_phnum (read_ehdr m buffer)). let p = read_phdr m (phdr_addr buffer (read_ehdr m buffer) i) in
        p_type p = PT_LOAD \<and> p_memsz p > 0 \<longrightarrow>
        (\<forall>k < unat (p_filesz p). m' (p_vaddr p + of_nat k) = m (buffer + p_offset p + of_nat k))))) \<and>
   (\<not> magic_ok m buffer \<longrightarrow> (\<exists>msg. load_elf_from_buffer m buffer = Inl (Panic msg)))"
proof (intro conjI impI)
  assume ok: "elf_ok m buffer"
  then obtain m' where m': "load_segments m buffer 0 = Inr m'" "ul.loaded m buffer (unat (e_phnum (read_ehdr m buffer))) m'"
    "read_ehdr m' buffer = read_ehdr m buffer"
    using ul.load_all elf_okD(3) by blast
  then have "load_elf_from_buffer m buffer = Inr (e_entry (read_ehdr m buffer), m')"
    using elf_okD(1,2) [OF ok] by (simp add: load_elf_from_buffer_def)
  then show "\<exists>m'. load_elf_from_buffer m buffer = Inr (e_entry (read_ehdr m buffer), m') \<and>
     (\<forall>x. x \<notin> user_image \<longrightarrow> m' x = m x) \<and>
     (\<forall>i < unat (e_phnum (read_ehdr m buffer)). let p = read_phdr m (phdr_addr buffer (read_ehdr m buffer) i) in
        p_type p = PT_LOAD \<and> p_memsz p > 0 \<longrightarrow>
        (\<forall>k < unat (p_filesz p). m' (p_vaddr p + of_nat k) = m (buffer + p_offset p + of_nat k)))"
    using m'(2) by (auto simp: ul.loaded_def loadable_def segment_def Let_def)
qed (simp add: load_elf_from_buffer_def)

text \<open>A file of one segment with one byte of data, at address \<^verbatim>\<open>0x1000\<close>.\<close>

definition sample_file :: mem where
  "sample_file = (\<lambda>_. 0)(0x1000 := 0x7f, 0x1001 := 0x45, 0x1002 := 0x4c, 0x1003 := 0x46, 0x101a := 0x10, 0x1020 := 64,
     0x1036 := 56, 0x1038 := 1, 0x1040 := 1, 0x1048 := 120, 0x1052 := 0x10, 0x1060 := 1, 0x1068 := 2, 0x1078 := 0xc3)"

lemma sample_ehdr: "e_entry (read_ehdr sample_file 0x1000) = 0x100000 \<and> e_phoff (read_ehdr sample_file 0x1000) = 64 \<and>
    e_phentsize (read_ehdr sample_file 0x1000) = 56 \<and> e_phnum (read_ehdr sample_file 0x1000) = 1"
  by (simp add: read_ehdr_def load_le_def sample_file_def upt_rec)

lemma sample_phdr: "read_phdr sample_file 0x1040 = \<lparr>p_type = 1, p_flags = 0, p_offset = 120, p_vaddr = 0x100000, p_paddr = 0,
    p_filesz = 1, p_memsz = 2, p_align = 0\<rparr>"
  by (simp add: read_phdr_def load_le_def sample_file_def upt_rec)

lemma sample_ok: "elf_ok sample_file 0x1000"
proof -
  have a: "phdr_addr 0x1000 (read_ehdr sample_file 0x1000) 0 = 0x1040" using sample_ehdr by (simp add: phdr_addr_def)
  have img: "(x :: u64) + of_nat j \<notin> user_image" if "unat x + j < 0x100000" for x j
  proof -
    have "unat (x + of_nat j) = unat x + j" using that by (simp add: unat_word_ariths unat_of_nat)
    then show ?thesis using that by (simp add: user_image_def)
  qed
  have seg: "segment sample_file 0x1000 0 = \<lparr>p_type = 1, p_flags = 0, p_offset = 120, p_vaddr = 0x100000, p_paddr = 0,
    p_filesz = 1, p_memsz = 2, p_align = 0\<rparr>" unfolding segment_def a by (rule sample_phdr)
  have "magic_ok sample_file 0x1000" by (simp add: magic_ok_def ElfMagic_def sample_file_def upt_rec)
  then show ?thesis
    using sample_ehdr img by (simp add: elf_ok_def Let_def seg a segment_ok_def user_image_def word_le_nat_alt)
qed

theorem load_elf_correct_witness:
  "\<exists>m'. load_elf_from_buffer sample_file 0x1000 = Inr (0x100000, m') \<and> m' 0x100000 = 0xc3"
proof -
  have a: "phdr_addr 0x1000 (read_ehdr sample_file 0x1000) 0 = 0x1040" using sample_ehdr by (simp add: phdr_addr_def)
  have d: "sample_file 0x1078 = 0xc3" by (simp add: sample_file_def)
  show ?thesis
    using load_elf_correct [of sample_file "0x1000"] sample_ok sample_ehdr sample_phdr a d
    by (auto simp: PT_LOAD_def Let_def)
qed

text \<open>The bound on a segment is checked on a sum that can wrap: a segment whose end wraps to a small address passes
  both checks, and its bytes go to addresses above the image area.\<close>

theorem segment_check_wraps:
  assumes "phdr = read_phdr m (phdr_addr buffer ehdr i)" "unat (e_phentsize ehdr) * i < 2 ^ 31"
    and "p_type phdr = PT_LOAD" "0 < p_filesz phdr" "p_filesz phdr \<le> p_memsz phdr" "0x900000 \<le> unat (p_vaddr phdr)"
    and "2 ^ 64 \<le> unat (p_vaddr phdr) + unat (p_memsz phdr)" "unat (p_vaddr phdr) + unat (p_memsz phdr) \<le> 2 ^ 64 + 0x900000"
  shows "load_segment m buffer ehdr i = Inr (memcpy m (p_vaddr phdr) (buffer + p_offset phdr) (p_filesz phdr)) \<and>
    p_vaddr phdr \<notin> user_image"
proof -
  have "unat (p_vaddr phdr + p_memsz phdr) = (unat (p_vaddr phdr) + unat (p_memsz phdr)) mod 2 ^ 64"
    by (simp add: unat_word_ariths)
  also have "\<dots> = unat (p_vaddr phdr) + unat (p_memsz phdr) - 2 ^ 64" using assms by (simp add: mod_if)
  finally have "unat (p_vaddr phdr + p_memsz phdr) \<le> 0x900000" using assms by simp
  moreover have "0 < p_memsz phdr" using assms(4,5) by (rule less_le_trans)
  ultimately show ?thesis
    using assms by (simp add: load_segment_def Let_def word_le_nat_alt USER_IMAGE_START_def USER_IMAGE_SIZE_def user_image_def)
qed

definition wrapping_file :: mem where
  "wrapping_file = sample_file(0x1053 := 0xff, 0x1054 := 0xff, 0x1055 := 0xff, 0x1056 := 0xff, 0x1057 := 0xff, 0x1052 := 0xf0, 0x106a := 0x20)"

theorem segment_check_wraps_witness:
  "\<exists>m'. load_segment wrapping_file 0x1000 (read_ehdr sample_file 0x1000) 0 = Inr m'"
proof -
  have a: "phdr_addr 0x1000 (read_ehdr sample_file 0x1000) 0 = 0x1040" using sample_ehdr by (simp add: phdr_addr_def)
  have p: "read_phdr wrapping_file 0x1040 = \<lparr>p_type = 1, p_flags = 0, p_offset = 120, p_vaddr = 0xfffffffffff00000, p_paddr = 0,
    p_filesz = 1, p_memsz = 0x200002, p_align = 0\<rparr>"
    by (simp add: read_phdr_def load_le_def sample_file_def wrapping_file_def upt_rec)
  show ?thesis
    using segment_check_wraps [OF refl, of "read_ehdr sample_file 0x1000" 0 wrapping_file "0x1000"]
    by (auto simp: a p PT_LOAD_def word_le_nat_alt word_less_nat_alt)
qed

end
