(* ===== verification/Mm.thy ===== *)
theory Mm
  imports Page_Alloc Page_Table Gdt Elf
begin

text \<open>
  The rest of \<^verbatim>\<open>mm/mm.cpp\<close>: reading the firmware's memory map, the order of \<^verbatim>\<open>mm_init\<close>, and the conversions
  between physical and kernel addresses.
\<close>

section \<open>Addresses\<close>

definition kernel2phy :: "u64 \<Rightarrow> u64" where
  "kernel2phy kernel_addr = kernel_addr - KERNEL_START"

definition is_kernel :: "u64 \<Rightarrow> bool" where
  "is_kernel vaddr = (vaddr \<ge> KERNEL_START)"

definition phy2virt :: "u64 \<Rightarrow> u64 res" where
  "phy2virt phy = bindR (assertR (phy < IDENTITY_MAP_PHY_END) []) (\<lambda>_. Inr (phy + KERNEL_START))"

text \<open>The pointer table of the kernel's half, read from the tables in use.\<close>

definition get_kernel_pdpt_phy_addr :: "(u64 \<Rightarrow> u64) \<Rightarrow> u64 \<Rightarrow> u64" where
  "get_kernel_pdpt_phy_addr rd cr3 =
     (let pml4t = (cr3 AND 0x000ffffffffff000) + KERNEL_START in rd (pml4t + 8 * 256) AND 0xfffffffffffff000)"

section \<open>The memory map\<close>

text \<open>A descriptor of the map, with the layout that the UEFI specification gives it.\<close>

record EFI_MEMORY_DESCRIPTOR =
  md_Type :: u32
  md_PhysicalStart :: u64
  md_NumberOfPages :: u64
  md_Attribute :: u64

record EFIServicesInfo =
  memory_descriptors :: mem
  descriptor_size :: u64
  descriptor_count :: u64
  descriptor_version :: u64
  kernel_physical_start :: u64
  kernel_physical_size :: u64
  rsdt_phy_addr :: u32
  xsdt_phy_addr :: u64

definition EfiConventionalMemory :: u32 where "EfiConventionalMemory = 7"

definition read_md :: "mem \<Rightarrow> u64 \<Rightarrow> EFI_MEMORY_DESCRIPTOR" where
  "read_md m a = \<lparr>md_Type = load_le m a 4, md_PhysicalStart = load_le m (a + 8) 8,
     md_NumberOfPages = load_le m (a + 24) 8, md_Attribute = load_le m (a + 32) 8\<rparr>"

text \<open>The array has 8192 bytes; a descriptor that reaches past it is outside the object.\<close>

definition descriptor_at :: "EFIServicesInfo \<Rightarrow> nat \<Rightarrow> EFI_MEMORY_DESCRIPTOR res" where
  "descriptor_at efi_info i =
     bindR (guardR (i * unat (descriptor_size efi_info) + 40 \<le> 8192) ''memory_descriptors'')
       (\<lambda>_. Inr (read_md (memory_descriptors efi_info) (of_nat i * descriptor_size efi_info)))"

definition md_region :: "EFI_MEMORY_DESCRIPTOR \<Rightarrow> u64 \<Rightarrow> PageRegion" where
  "md_region md sz = \<lparr>rgn_type = md_Type md, rgn_phy_start = md_PhysicalStart md, rgn_virt_start = 0, rgn_size = sz,
     rgn_attr = md_Attribute md\<rparr>"

definition overlaps_kernel :: "EFIServicesInfo \<Rightarrow> EFI_MEMORY_DESCRIPTOR \<Rightarrow> bool" where
  "overlaps_kernel efi_info md =
     (let l1 = md_PhysicalStart md; r1 = md_PhysicalStart md + 4096 * md_NumberOfPages md;
          l2 = kernel_physical_start efi_info; r2 = kernel_physical_start efi_info + kernel_physical_size efi_info
      in \<not> (l1 \<ge> r2 \<or> l2 \<ge> r1))"

fun dump_descriptors :: "EFIServicesInfo \<Rightarrow> nat list \<Rightarrow> PageRegion SmallVec \<Rightarrow> u64 \<Rightarrow> (PageRegion SmallVec \<times> u64) res" where
  "dump_descriptors efi_info [] available_memory total_size = Inr (available_memory, total_size)"
| "dump_descriptors efi_info (i # is) available_memory total_size =
     bindR (descriptor_at efi_info i) (\<lambda>md.
     bindR (sv_emplace_back available_memory (md_region md (md_NumberOfPages md * 4096))) (\<lambda>v1.
     if md_Type md = EfiConventionalMemory
     then if overlaps_kernel efi_info md
          then Inl (Panic ''Kernel image should not intersection with conventional memory'')
          else bindR (sv_push_back v1 (md_region md (md_NumberOfPages md))) (\<lambda>v2.
               dump_descriptors efi_info is v2 (total_size + md_NumberOfPages md * 4096))
     else dump_descriptors efi_info is v1 total_size))"

definition dump_efi_info :: "EFIServicesInfo \<Rightarrow> PageRegion SmallVec \<Rightarrow> (PageRegion SmallVec \<times> u64) res" where
  "dump_efi_info efi_info available_memory =
     dump_descriptors efi_info [0..<unat (descriptor_count efi_info)] available_memory 0"

section \<open>Start-up of the memory manager\<close>

record mm_state =
  mm_segments :: seg_state
  mm_tables :: PageTables
  mm_cr3 :: u64
  mm_available :: "PageRegion SmallVec"
  mm_total_pages :: nat
  mm_allocator :: BuddyAllocator

definition MaxPageRegions :: nat where "MaxPageRegions = 1024"

definition zero_region :: PageRegion where
  "zero_region = \<lparr>rgn_type = 0, rgn_phy_start = 0, rgn_virt_start = 0, rgn_size = 0, rgn_attr = 0\<rparr>"

text \<open>\<open>rd\<close> is memory before the switch of tables, \<open>t_vaddr\<close>, \<open>tss_addr\<close> and \<open>stack\<close> the addresses the linker gave the
  kernel's variables; the static vector of regions starts out zeroed.\<close>

definition mm_init :: "(u64 \<Rightarrow> u64) \<Rightarrow> u64 \<Rightarrow> (nat \<Rightarrow> u64) \<Rightarrow> nat \<Rightarrow> u64 \<Rightarrow> u64 \<Rightarrow> u64 \<Rightarrow> EFIServicesInfo \<Rightarrow> seg_state \<Rightarrow> mm_state res" where
  "mm_init rd cr3 gdt limit tss_addr stack t_vaddr efi_info s =
     (let total = calculate_total_pages rd (cr3 AND 0xfffffffffffff000) in
      bindR (gdt_init gdt limit tss_addr stack s) (\<lambda>s'.
      let (t, cr3') = setup_page_table_in_kernel_space t_vaddr (kernel_physical_start efi_info) in
      bindR (dump_efi_info efi_info (sv_new MaxPageRegions (\<lambda>_. zero_region))) (\<lambda>(v, total_size).
      bindR (page_allocator_init v) (\<lambda>a.
      Inr \<lparr>mm_segments = s', mm_tables = t, mm_cr3 = cr3', mm_available = v, mm_total_pages = total, mm_allocator = a\<rparr>))))"

section \<open>Reading the map\<close>

definition md_regions :: "EFI_MEMORY_DESCRIPTOR \<Rightarrow> PageRegion list" where
  "md_regions md = md_region md (md_NumberOfPages md * 4096) #
     (if md_Type md = EfiConventionalMemory then [md_region md (md_NumberOfPages md)] else [])"

definition map_ok :: "EFIServicesInfo \<Rightarrow> bool" where
  "map_ok efi_info \<longleftrightarrow> unat (descriptor_count efi_info) \<le> 511 \<and>
     (\<forall>i < unat (descriptor_count efi_info). i * unat (descriptor_size efi_info) + 40 \<le> 8192)"

definition descriptors :: "EFIServicesInfo \<Rightarrow> nat list \<Rightarrow> EFI_MEMORY_DESCRIPTOR list" where
  "descriptors efi_info is = map (\<lambda>i. read_md (memory_descriptors efi_info) (of_nat i * descriptor_size efi_info)) is"

text \<open>Slots past the size of the vector of regions are untouched.\<close>

definition spare :: "PageRegion SmallVec \<Rightarrow> bool" where
  "spare v \<longleftrightarrow> (\<forall>k \<ge> vec_size v. vec_buf v k = zero_region)"

lemma emplace_spare:
  assumes "vec_size v < slots_N v" "spare v"
  shows "\<exists>v'. sv_emplace_back v x = Inr v' \<and> sv_list v' = sv_list v @ [x] \<and> slots_N v' = slots_N v \<and>
    vec_size v' = Suc (vec_size v) \<and> spare v'"
  using assms by (simp add: sv_defs sv_list_def spare_def)

lemma md_regions_simps:
  "md_Type md = EfiConventionalMemory \<Longrightarrow> md_regions md = [md_region md (md_NumberOfPages md * 4096), md_region md (md_NumberOfPages md)]"
  "md_Type md \<noteq> EfiConventionalMemory \<Longrightarrow> md_regions md = [md_region md (md_NumberOfPages md * 4096)]"
  by (simp_all add: md_regions_def)

lemma dump_descriptors_ok:
  assumes "\<forall>i \<in> set is. i * unat (descriptor_size efi_info) + 40 \<le> 8192" "spare v"
    and "vec_size v + 2 * length is \<le> slots_N v"
    and "\<forall>md \<in> set (descriptors efi_info is). md_Type md = EfiConventionalMemory \<longrightarrow> \<not> overlaps_kernel efi_info md"
  shows "\<exists>v'. dump_descriptors efi_info is v tot =
      Inr (v', tot + (\<Sum>md \<leftarrow> filter (\<lambda>md. md_Type md = EfiConventionalMemory) (descriptors efi_info is). md_NumberOfPages md * 4096)) \<and>
    sv_list v' = sv_list v @ concat (map md_regions (descriptors efi_info is)) \<and> spare v' \<and> slots_N v' = slots_N v"
  using assms
proof (induction "is" arbitrary: v tot)
  case Nil
  then show ?case by (simp add: descriptors_def)
next
  case (Cons i "is")
  let ?md = "read_md (memory_descriptors efi_info) (of_nat i * descriptor_size efi_info)"
  have d: "descriptor_at efi_info i = Inr ?md" using Cons.prems(1) by (simp add: descriptor_at_def)
  have ds: "descriptors efi_info (i # is) = ?md # descriptors efi_info is" by (simp add: descriptors_def)
  obtain v1 where v1: "sv_emplace_back v (md_region ?md (md_NumberOfPages ?md * 4096)) = Inr v1"
    "sv_list v1 = sv_list v @ [md_region ?md (md_NumberOfPages ?md * 4096)]" "slots_N v1 = slots_N v"
    "vec_size v1 = Suc (vec_size v)" "spare v1"
    using emplace_spare [of v "md_region ?md (md_NumberOfPages ?md * 4096)"] Cons.prems by auto
  show ?case
  proof (cases "md_Type ?md = EfiConventionalMemory")
    case False
    have "vec_size v1 + 2 * length is \<le> slots_N v1" using Cons.prems(3) v1 by simp
    from Cons.IH [OF _ v1(5) this, of tot] Cons.prems(1,4) False v1 show ?thesis
      by (simp add: d ds md_regions_simps add.assoc)
  next
    case True
    obtain v2 where v2: "sv_push_back v1 (md_region ?md (md_NumberOfPages ?md)) = Inr v2"
      "sv_list v2 = sv_list v1 @ [md_region ?md (md_NumberOfPages ?md)]" "slots_N v2 = slots_N v1"
      "vec_size v2 = Suc (vec_size v1)" "spare v2"
      unfolding sv_push_eq_emplace using emplace_spare [of v1 "md_region ?md (md_NumberOfPages ?md)"] v1 Cons.prems(3) by auto
    have "vec_size v2 + 2 * length is \<le> slots_N v2" using Cons.prems(3) v1 v2 by simp
    from Cons.IH [OF _ v2(5) this, of "tot + md_NumberOfPages ?md * 4096"] Cons.prems(1,4) True v1 v2 show ?thesis
      by (simp add: d ds md_regions_simps add.assoc)
  qed
qed

lemma dump_descriptors_panic:
  assumes "\<forall>i \<in> set is. i * unat (descriptor_size efi_info) + 40 \<le> 8192" "spare v"
    and "vec_size v + 2 * length is \<le> slots_N v"
    and "\<exists>md \<in> set (descriptors efi_info is). md_Type md = EfiConventionalMemory \<and> overlaps_kernel efi_info md"
  shows "\<exists>msg. dump_descriptors efi_info is v tot = Inl (Panic msg)"
  using assms
proof (induction "is" arbitrary: v tot)
  case Nil
  then show ?case by (simp add: descriptors_def)
next
  case (Cons i "is")
  let ?md = "read_md (memory_descriptors efi_info) (of_nat i * descriptor_size efi_info)"
  have d: "descriptor_at efi_info i = Inr ?md" using Cons.prems(1) by (simp add: descriptor_at_def)
  have ds: "descriptors efi_info (i # is) = ?md # descriptors efi_info is" by (simp add: descriptors_def)
  obtain v1 where v1: "sv_emplace_back v (md_region ?md (md_NumberOfPages ?md * 4096)) = Inr v1" "slots_N v1 = slots_N v"
    "vec_size v1 = Suc (vec_size v)" "spare v1"
    using emplace_spare [of v "md_region ?md (md_NumberOfPages ?md * 4096)"] Cons.prems by auto
  consider (hit) "md_Type ?md = EfiConventionalMemory" "overlaps_kernel efi_info ?md"
    | (skip) "md_Type ?md \<noteq> EfiConventionalMemory" | (miss) "md_Type ?md = EfiConventionalMemory" "\<not> overlaps_kernel efi_info ?md"
    by blast
  then show ?case
  proof cases
    case hit
    then show ?thesis using v1 by (simp add: d)
  next
    case skip
    have "vec_size v1 + 2 * length is \<le> slots_N v1" using Cons.prems(3) v1 by simp
    from Cons.IH [OF _ v1(4) this, of tot] Cons.prems(1,4) skip v1 show ?thesis by (auto simp: d ds)
  next
    case miss
    obtain v2 where v2: "sv_push_back v1 (md_region ?md (md_NumberOfPages ?md)) = Inr v2" "slots_N v2 = slots_N v1"
      "vec_size v2 = Suc (vec_size v1)" "spare v2"
      unfolding sv_push_eq_emplace using emplace_spare [of v1 "md_region ?md (md_NumberOfPages ?md)"] v1 Cons.prems(3) by auto
    have "vec_size v2 + 2 * length is \<le> slots_N v2" using Cons.prems(3) v1 v2 by simp
    from Cons.IH [OF _ v2(4) this, of "tot + md_NumberOfPages ?md * 4096"] Cons.prems(1,4) miss v1 v2 show ?thesis
      by (auto simp: d ds)
  qed
qed

lemma spare_new: "spare (sv_new n (\<lambda>_. zero_region))"
  by (simp add: spare_def sv_new_def)

lemma sv_new_slots: "slots_N (sv_new n raw) = n"
  by (simp add: sv_new_def)

lemma dump_efi_info_ok:
  assumes "map_ok efi_info"
    and "\<forall>md \<in> set (descriptors efi_info [0..<unat (descriptor_count efi_info)]).
      md_Type md = EfiConventionalMemory \<longrightarrow> \<not> overlaps_kernel efi_info md"
  shows "\<exists>v n. dump_efi_info efi_info (sv_new MaxPageRegions (\<lambda>_. zero_region)) = Inr (v, n) \<and>
    sv_list v = concat (map md_regions (descriptors efi_info [0..<unat (descriptor_count efi_info)])) \<and> spare v \<and>
    slots_N v = MaxPageRegions"
proof -
  have "vec_size (sv_new MaxPageRegions (\<lambda>_. zero_region)) + 2 * length [0..<unat (descriptor_count efi_info)] \<le>
      slots_N (sv_new MaxPageRegions (\<lambda>_. zero_region))"
    using assms(1) by (simp add: map_ok_def sv_new_def MaxPageRegions_def)
  from dump_descriptors_ok [OF _ spare_new this assms(2), of 0] assms(1) show ?thesis
    by (auto simp: dump_efi_info_def map_ok_def sv_new_slots)
qed

lemma length_md_regions: "length (concat (map md_regions mds)) \<le> 2 * length mds"
  by (induction mds) (simp_all add: md_regions_def)

lemma gdt_init_returns:
  assumes "limit + 1 \<le> 1024"
  shows "\<exists>s'. gdt_init gdt limit tss_addr stack s = Inr s'"
proof -
  obtain lo hi where "system_segment_bits (tss_descriptor tss_addr) = (lo, hi)" by fastforce
  then show ?thesis using assms by (simp add: gdt_init_def Let_def)
qed

section \<open>Properties\<close>

text \<open>\<^verbatim>\<open>dump_efi_info\<close> stops the kernel if a conventional region overlaps the kernel image, and otherwise records
  every region of the map, a conventional one twice: once with its size in bytes and once with its size in pages.\<close>

theorem dump_efi_info_records:
  assumes "map_ok efi_info"
  defines "mds \<equiv> descriptors efi_info [0..<unat (descriptor_count efi_info)]"
  shows "if \<exists>md \<in> set mds. md_Type md = EfiConventionalMemory \<and> overlaps_kernel efi_info md
    then \<exists>msg. dump_efi_info efi_info (sv_new MaxPageRegions (\<lambda>_. zero_region)) = Inl (Panic msg)
    else \<exists>v n. dump_efi_info efi_info (sv_new MaxPageRegions (\<lambda>_. zero_region)) = Inr (v, n) \<and>
      sv_list v = concat (map md_regions mds)"
proof -
  have sz: "vec_size (sv_new MaxPageRegions (\<lambda>_. zero_region)) + 2 * length [0..<unat (descriptor_count efi_info)] \<le>
      slots_N (sv_new MaxPageRegions (\<lambda>_. zero_region))"
    using assms(1) by (simp add: map_ok_def sv_new_def MaxPageRegions_def)
  have i: "\<forall>i \<in> set [0..<unat (descriptor_count efi_info)]. i * unat (descriptor_size efi_info) + 40 \<le> 8192"
    using assms(1) by (simp add: map_ok_def)
  show ?thesis
    using dump_descriptors_panic [OF i spare_new sz, of 0] dump_efi_info_ok [OF assms(1)]
    unfolding mds_def dump_efi_info_def by (auto split: if_splits)
qed

definition sample_efi_info :: EFIServicesInfo where
  "sample_efi_info = \<lparr>memory_descriptors = (\<lambda>_. 0)(0 := 7, 11 := 0x10, 25 := 0x01), descriptor_size = 48, descriptor_count = 1,
     descriptor_version = 1, kernel_physical_start = 0x100000, kernel_physical_size = 0x4000000, rsdt_phy_addr = 0, xsdt_phy_addr = 0\<rparr>"

lemma sample_descriptors:
  "descriptors sample_efi_info [0..<1] = [\<lparr>md_Type = 7, md_PhysicalStart = 0x10000000, md_NumberOfPages = 256, md_Attribute = 0\<rparr>]"
  by (simp add: descriptors_def sample_efi_info_def read_md_def load_le_def upt_rec)

lemma sample_map_ok:
  "map_ok sample_efi_info" "unat (descriptor_count sample_efi_info) = 1"
  "\<forall>md \<in> set (descriptors sample_efi_info [0..<1]). md_Type md = EfiConventionalMemory \<longrightarrow> \<not> overlaps_kernel sample_efi_info md"
  unfolding sample_descriptors
  by (simp_all add: map_ok_def sample_efi_info_def overlaps_kernel_def Let_def word_le_nat_alt)

theorem dump_efi_info_records_witness:
  "\<exists>v n. dump_efi_info sample_efi_info (sv_new MaxPageRegions (\<lambda>_. zero_region)) = Inr (v, n) \<and>
     map rgn_size (sv_list v) = [0x100000, 256]"
  using dump_efi_info_records [OF sample_map_ok(1)] sample_map_ok(3)
  unfolding sample_map_ok(2) sample_descriptors by (fastforce simp: md_regions_def md_region_def EfiConventionalMemory_def)

lemma region_reached:
  assumes tb: "setup_page_table_in_kernel_space t_vaddr kphy = (t, cr3')"
    and t: "unat (t_phys t_vaddr kphy 0) = base" "4096 dvd base" "base + 0x1000000 < 2 ^ 52"
    and k: "4096 dvd unat kphy" "unat kphy + 0x4000000 < 2 ^ 52"
    and p: "0x4000000 \<le> p" "p < 0x44000000"
  shows "\<exists>va. phy2virt (of_nat p) = Inr va \<and> is_kernel va \<and> kernel2phy va = of_nat p \<and>
    translate (read_tables n_kernel_pdt KERNEL_SPACE_PAGES base t) cr3' va = Some (of_nat p)"
proof -
  have u: "unat (of_nat p :: u64) = p" using p by (simp add: unat_of_nat)
  have e: "unat IDENTITY_MAP_PHY_END = 0x100000000"
    by simp
  have "of_nat p < IDENTITY_MAP_PHY_END" unfolding word_less_nat_alt e u using p by simp
  then have "phy2virt (of_nat p) = Inr (KERNEL_START + of_nat p)"
    by (simp only: phy2virt_def assertR_simps bindR_simps add.commute)
  moreover have "is_kernel (KERNEL_START + of_nat p)"
    using p u by (simp add: is_kernel_def word_le_nat_alt unat_word_ariths KERNEL_START_def)
  moreover have "kernel_frame kphy p = p" using p by (simp add: kernel_frame_def)
  then have "translate (read_tables n_kernel_pdt KERNEL_SPACE_PAGES base t) cr3' (KERNEL_START + of_nat p) = Some (of_nat p)"
    using kernel_translate [OF tb t k, of p] p by simp
  moreover have "kernel2phy (KERNEL_START + of_nat p) = of_nat p" by (simp only: kernel2phy_def add_diff_cancel_left')
  ultimately show ?thesis by blast
qed


lemma mm_init_returns:
  assumes efi: "map_ok efi_info" "\<forall>md \<in> set (descriptors efi_info [0..<unat (descriptor_count efi_info)]).
      md_Type md = EfiConventionalMemory \<longrightarrow> \<not> overlaps_kernel efi_info md"
    and gdt: "limit + 1 \<le> 1024"
  shows "\<exists>st. mm_init rd cr3 gdt limit tss_addr stack t_vaddr efi_info s = Inr st \<and> buddy_allocator_init 0x4000000 30 = Inr (mm_allocator st) \<and>
    setup_page_table_in_kernel_space t_vaddr (kernel_physical_start efi_info) = (mm_tables st, mm_cr3 st)"
proof -
  obtain s' where s': "gdt_init gdt limit tss_addr stack s = Inr s'" using gdt_init_returns [OF gdt] by blast
  obtain t cr3' where tb: "setup_page_table_in_kernel_space t_vaddr (kernel_physical_start efi_info) = (t, cr3')" by fastforce
  obtain v n where v: "dump_efi_info efi_info (sv_new MaxPageRegions (\<lambda>_. zero_region)) = Inr (v, n)" "spare v" "slots_N v = MaxPageRegions"
    "sv_list v = concat (map md_regions (descriptors efi_info [0..<unat (descriptor_count efi_info)]))"
    using dump_efi_info_ok [OF efi] by blast
  have "vec_size v \<le> 2 * unat (descriptor_count efi_info)"
    using length_md_regions [of "descriptors efi_info [0..<unat (descriptor_count efi_info)]"] length_sv_list [of v] v(4)
    by (simp add: descriptors_def)
  then have "vec_size v < slots_N v" using efi(1) v(3) by (simp add: map_ok_def MaxPageRegions_def)
  moreover have "rgn_size (vec_buf v (vec_size v)) = 0" using v(2) by (simp add: spare_def zero_region_def)
  ultimately have pa: "page_allocator_init v = buddy_allocator_init 0x4000000 30" by (rule page_allocator_init_default)
  obtain a where a: "buddy_allocator_init 0x4000000 30 = Inr a" using buddy_allocator_init_ok [of 30 "0x4000000"] by auto
  have "mm_init rd cr3 gdt limit tss_addr stack t_vaddr efi_info s = Inr \<lparr>mm_segments = s', mm_tables = t, mm_cr3 = cr3',
      mm_available = v, mm_total_pages = calculate_total_pages rd (cr3 AND 0xfffffffffffff000), mm_allocator = a\<rparr>"
    unfolding mm_init_def Let_def s' tb bindR_simps prod.case v(1) pa a(1) ..
  then show ?thesis using a tb by auto
qed

text \<open>C27: with a sound memory map and page-aligned kernel image \<^verbatim>\<open>mm_init\<close> returns, and the pieces it set up fit together: the
  allocator is in its initial state over 1 GiB from 64 MiB on, and every physical address of that region
  is reached through the address that \<^verbatim>\<open>phy2virt\<close> computes for it, which \<^verbatim>\<open>kernel2phy\<close> takes back.\<close>

theorem mm_init_ready:
  assumes efi: "map_ok efi_info" "\<forall>md \<in> set (descriptors efi_info [0..<unat (descriptor_count efi_info)]).
      md_Type md = EfiConventionalMemory \<longrightarrow> \<not> overlaps_kernel efi_info md"
    and k: "4096 dvd unat (kernel_physical_start efi_info)" "unat (kernel_physical_start efi_info) + 0x4000000 < 2 ^ 52"
    and t: "unat (t_phys t_vaddr (kernel_physical_start efi_info) 0) = base" "4096 dvd base" "base + 0x1000000 < 2 ^ 52"
    and gdt: "limit + 1 \<le> 1024"
  shows "\<exists>st. mm_init rd cr3 gdt limit tss_addr stack t_vaddr efi_info s = Inr st \<and>
    buddy_ok (mm_allocator st) {} \<and> phy_start (mm_allocator st) = 0x4000000 \<and> root_log2size (mm_allocator st) = 30 \<and>
    (\<forall>p. unat (phy_start (mm_allocator st)) \<le> p \<and> p < unat (phy_start (mm_allocator st)) + 2 ^ root_log2size (mm_allocator st) \<longrightarrow>
       (\<exists>va. phy2virt (of_nat p) = Inr va \<and> is_kernel va \<and> kernel2phy va = of_nat p \<and>
          translate (read_tables n_kernel_pdt KERNEL_SPACE_PAGES base (mm_tables st)) (mm_cr3 st) va = Some (of_nat p)))"
proof -
  obtain st where st: "mm_init rd cr3 gdt limit tss_addr stack t_vaddr efi_info s = Inr st" "buddy_allocator_init 0x4000000 30 = Inr (mm_allocator st)"
    and tb: "setup_page_table_in_kernel_space t_vaddr (kernel_physical_start efi_info) = (mm_tables st, mm_cr3 st)"
    using mm_init_returns [OF efi gdt] by blast
  have "buddy_ok (mm_allocator st) {}" "phy_start (mm_allocator st) = 0x4000000" "root_log2size (mm_allocator st) = 30"
    using buddy_allocator_init_ok [of 30 "0x4000000"] st(2) by auto
  then show ?thesis using st(1) region_reached [OF tb t k] by auto
qed

theorem mm_init_ready_witness:
  "\<forall>rd s. \<exists>st. mm_init rd 0x1000 (\<lambda>_. 0) 1023 0xffff800000300000 0xffff800000200000 0xffff800000400000 sample_efi_info s = Inr st \<and>
     phy_start (mm_allocator st) = 0x4000000 \<and>
     translate (read_tables n_kernel_pdt KERNEL_SPACE_PAGES 0x500000 (mm_tables st)) (mm_cr3 st) (KERNEL_START + 0x5000123) = Some 0x5000123"
proof (intro allI)
  fix rd s
  have k: "kernel_physical_start sample_efi_info = 0x100000" by (simp add: sample_efi_info_def)
  have pv: "phy2virt (of_nat 0x5000123) = Inr (KERNEL_START + 0x5000123)"
    by (simp add: phy2virt_def word_less_nat_alt)
  obtain st where st: "mm_init rd 0x1000 (\<lambda>_. 0) 1023 0xffff800000300000 0xffff800000200000 0xffff800000400000 sample_efi_info s = Inr st"
      "phy_start (mm_allocator st) = 0x4000000" "root_log2size (mm_allocator st) = 30"
    and tr: "\<forall>p. unat (phy_start (mm_allocator st)) \<le> p \<and> p < unat (phy_start (mm_allocator st)) + 2 ^ root_log2size (mm_allocator st) \<longrightarrow>
       (\<exists>va. phy2virt (of_nat p) = Inr va \<and> is_kernel va \<and> kernel2phy va = of_nat p \<and>
          translate (read_tables n_kernel_pdt KERNEL_SPACE_PAGES 0x500000 (mm_tables st)) (mm_cr3 st) va = Some (of_nat p))"
    using mm_init_ready [OF sample_map_ok(1), unfolded sample_map_ok(2), OF sample_map_ok(3), of "0xffff800000400000" "0x500000"
        1023 rd "0x1000" "\<lambda>_. 0" "0xffff800000300000" "0xffff800000200000" s]
    by (auto simp: k t_phys_def KERNEL_START_def)
  have "translate (read_tables n_kernel_pdt KERNEL_SPACE_PAGES 0x500000 (mm_tables st)) (mm_cr3 st) (KERNEL_START + 0x5000123) = Some (of_nat 0x5000123)"
    using tr [rule_format, of "0x5000123"] pv st(2,3) by auto
  then show "\<exists>st. mm_init rd 0x1000 (\<lambda>_. 0) 1023 0xffff800000300000 0xffff800000200000 0xffff800000400000 sample_efi_info s = Inr st \<and>
     phy_start (mm_allocator st) = 0x4000000 \<and>
     translate (read_tables n_kernel_pdt KERNEL_SPACE_PAGES 0x500000 (mm_tables st)) (mm_cr3 st) (KERNEL_START + 0x5000123) = Some 0x5000123"
    using st by simp
qed

end
