(* ===== verification/Address_Space.thy ===== *)
theory Address_Space
  imports Mm
begin

text \<open>
  The address space of a process: the tables the constructor \<^verbatim>\<open>Process::Process\<close> builds and
  \<^verbatim>\<open>Process::map_user_addr\<close> (\<^verbatim>\<open>process.cpp\<close>), and what the kernel's clients may rely on when they take
  pages from the allocator.
\<close>

section \<open>Pages from the allocator\<close>

text \<open>A source of page frames that always answers, with a 64K-aligned address or, when it refuses, with
  address 0, which is aligned as well.\<close>

locale frame_source =
  fixes alloc :: "'a \<Rightarrow> nat \<Rightarrow> (u64 \<times> 'a) res"
    and inv :: "'a \<Rightarrow> bool"
  assumes alloc_frame: "inv a \<Longrightarrow> 16 \<le> l \<Longrightarrow> \<exists>x a'. alloc a l = Inr (x, a') \<and> inv a' \<and> 65536 dvd unat x \<and> unat x < 2 ^ 41"
begin

lemma alloc_page:
  assumes "inv a" "16 \<le> l"
  obtains x a' where "alloc a l = Inr (x, a')" "inv a'" "4096 dvd unat x" "unat x < 2 ^ 41"
proof -
  obtain x a' where x: "alloc a l = Inr (x, a')" "inv a'" "65536 dvd unat x" "unat x < 2 ^ 41"
    using alloc_frame [OF assms] by blast
  have "(4096::nat) dvd 65536" by simp
  then have "4096 dvd unat x" using x(3) by (rule dvd_trans)
  with x show thesis by (intro that)
qed

end

definition frames_ok :: "BuddyAllocator \<Rightarrow> bool" where
  "frames_ok a \<longleftrightarrow> (\<exists>A. buddy_ok a A) \<and> 65536 dvd unat (phy_start a) \<and> unat (phy_start a) < 2 ^ 40"

lemma allocate_pages_frame:
  assumes "frames_ok a" "16 \<le> l"
  shows "\<exists>x a'. allocate_pages a l = Inr (x, a') \<and> frames_ok a' \<and> 65536 dvd unat x \<and> unat x < 2 ^ 41"
proof -
  obtain A where A: "buddy_ok a A" using assms(1) by (auto simp: frames_ok_def)
  from allocate_pages_ok [OF A assms(2)] show ?thesis
  proof (elim disjE exE conjE)
    fix b a'
    assume b: "allocate_pages a l = Inr (get_block_phy_addr a b, a')" "in_tree a b"
      and a': "buddy_ok a' (insert b A)" "phy_start a' = phy_start a"
    have s: "unat (phy_start a) < 2 ^ 63" using assms(1) by (simp add: frames_ok_def)
    have u: "unat (get_block_phy_addr a b) = unat (phy_start a) + b * 65536"
      using unat_block_addr [OF buddy_okD(1) [OF A] b(2) s] .
    have "Suc b < 2 ^ Suc (depth b)" using depth_bounds by blast
    also have "\<dots> \<le> (2::nat) ^ 17" using buddy_okD(1) [OF A] b(2) by (intro power_increasing) (auto simp: geom_def in_tree_def)
    finally have "b < 131072" by simp
    then have "unat (get_block_phy_addr a b) < 2 ^ 41" "65536 dvd unat (get_block_phy_addr a b)"
      using assms(1) by (auto simp: u frames_ok_def)
    moreover have "frames_ok a'" using a' assms(1) by (auto simp: frames_ok_def)
    ultimately show ?thesis using b(1) by blast
  next
    assume "allocate_pages a l = Inr (0, a)"
    then show ?thesis using assms(1) by simp
  qed
qed

interpretation frames: frame_source allocate_pages frames_ok
  by unfold_locales (rule allocate_pages_frame)

section \<open>Tables of a process\<close>

definition PROCESS_MAX_USER_PAGES :: nat where "PROCESS_MAX_USER_PAGES = 512 * 512"

text \<open>The struct \<^verbatim>\<open>PageTabletSructures\<close> is \<^typ>\<open>PageTables\<close> with 512 directory entries; its size in bytes.\<close>

definition sizeof_pts :: nat where "sizeof_pts = 3 * (8 * 512) + 8 * PROCESS_MAX_USER_PAGES"

definition user_entry :: "u64 \<Rightarrow> PageTableEntry \<Rightarrow> PageTableEntry" where
  "user_entry frame e = e\<lparr>pe_p := True, pe_rw := True, pe_us := True, pe_base_addr := ucast frame\<rparr>"

definition init_pts :: "u64 \<Rightarrow> u64 \<Rightarrow> PageTables" where
  "init_pts kernel_pdpt pts_paddr =
     (let pdpt_off = 8 * 512; pdt_off = pdpt_off + 8 * 512; pt_off = pdt_off + 8 * 512;
          t = zero_tables;
          t = t\<lparr>pml4t := (pml4t t)(256 := (pml4t t 256)\<lparr>pe_p := True, pe_rw := True,
                pe_base_addr := ucast (drop_bit 12 kernel_pdpt)\<rparr>)\<rparr>;
          t = t\<lparr>pml4t := (pml4t t)(0 := user_entry (drop_bit 12 (pts_paddr + of_nat pdpt_off)) (pml4t t 0))\<rparr>;
          t = t\<lparr>pdpt := (pdpt t)(0 := user_entry (drop_bit 12 (pts_paddr + of_nat pdt_off)) (pdpt t 0))\<rparr>
      in t\<lparr>pdt := for_upd 512 (\<lambda>i. user_entry (drop_bit 12 (pts_paddr + of_nat (pt_off + 8 * (i * PAGES_PER_TABLE))))) (pdt t)\<rparr>)"

fun map_user_loop :: "PageTables \<Rightarrow> u64 \<Rightarrow> u64 \<Rightarrow> nat list \<Rightarrow> PageTables res" where
  "map_user_loop t vaddr paddr [] = Inr t"
| "map_user_loop t vaddr paddr (i # is) =
     (let vpage = drop_bit 12 vaddr + of_nat i; ppage = drop_bit 12 paddr + of_nat i in
      bindR (guardR (unat vpage < PROCESS_MAX_USER_PAGES) ''pts->pt'') (\<lambda>_.
      map_user_loop (t\<lparr>pt := (pt t)(unat vpage := user_entry ppage (pt t (unat vpage)))\<rparr>) vaddr paddr is))"

definition map_user_addr :: "PageTables \<Rightarrow> u64 \<Rightarrow> u64 \<Rightarrow> u64 \<Rightarrow> PageTables res" where
  "map_user_addr t vaddr paddr n_pages = map_user_loop t vaddr paddr [0..<unat n_pages]"

lemma map_user_loop_ok:
  assumes "unat (drop_bit 12 vaddr) + j \<le> PROCESS_MAX_USER_PAGES" "i \<le> j"
  shows "\<exists>t'. map_user_loop t vaddr paddr [i..<j] = Inr t' \<and> pml4t t' = pml4t t \<and> pdpt t' = pdpt t \<and> pdt t' = pdt t \<and>
    (\<forall>k. pt t' k = (if unat (drop_bit 12 vaddr) + i \<le> k \<and> k < unat (drop_bit 12 vaddr) + j
       then user_entry (drop_bit 12 paddr + of_nat (k - unat (drop_bit 12 vaddr))) (pt t k) else pt t k))"
  using assms(2)
proof (induction "j - i" arbitrary: i t)
  case 0
  then show ?case by (intro exI [of _ t]) auto
next
  case (Suc d)
  then have i: "i < j" by simp
  let ?v = "unat (drop_bit 12 vaddr)"
  let ?t = "t\<lparr>pt := (pt t)(?v + i := user_entry (drop_bit 12 paddr + of_nat i) (pt t (?v + i)))\<rparr>"
  have u: "unat (drop_bit 12 vaddr + of_nat i) = ?v + i"
    using assms(1) i by (simp add: unat_word_ariths unat_of_nat PROCESS_MAX_USER_PAGES_def)
  have "map_user_loop t vaddr paddr [i..<j] = map_user_loop ?t vaddr paddr [Suc i..<j]"
    using assms(1) i by (simp add: upt_conv_Cons u Let_def)
  moreover have d: "d = j - Suc i" using Suc.hyps(2) by simp
  obtain t' where "map_user_loop ?t vaddr paddr [Suc i..<j] = Inr t'" "pml4t t' = pml4t ?t" "pdpt t' = pdpt ?t"
    "pdt t' = pdt ?t" "\<forall>k. pt t' k = (if ?v + Suc i \<le> k \<and> k < ?v + j
       then user_entry (drop_bit 12 paddr + of_nat (k - ?v)) (pt ?t k) else pt ?t k)"
    using Suc.hyps(1) [of "Suc i" ?t, OF d] i unfolding Suc_le_eq by blast
  ultimately show ?case using i by (intro exI [of _ t']) auto
qed

lemma map_user_addr_ok:
  assumes "unat vaddr + 4096 * unat n \<le> 2 ^ 30" "4096 dvd unat vaddr"
  obtains t' where "map_user_addr t vaddr paddr n = Inr t'" "pml4t t' = pml4t t" "pdpt t' = pdpt t" "pdt t' = pdt t"
    "\<And>k. pt t' k = (if unat vaddr div 4096 \<le> k \<and> k < unat vaddr div 4096 + unat n
       then user_entry (drop_bit 12 paddr + of_nat (k - unat vaddr div 4096)) (pt t k) else pt t k)"
proof -
  have v: "unat (drop_bit 12 vaddr) = unat vaddr div 4096" by (subst unat_drop_bit_eq) (simp add: drop_bit_eq_div)
  have "unat (drop_bit 12 vaddr) + unat n \<le> PROCESS_MAX_USER_PAGES"
    using assms unfolding v by (auto simp: PROCESS_MAX_USER_PAGES_def elim!: dvdE)
  from map_user_loop_ok [OF this, of 0 t paddr] that show thesis unfolding map_user_addr_def v by auto
qed

text \<open>Mapping beyond the tables of the process writes past the array.\<close>

lemma map_user_addr_overrun:
  assumes "PROCESS_MAX_USER_PAGES \<le> unat (drop_bit 12 vaddr)" "0 < unat n"
  shows "map_user_addr t vaddr paddr n = Inl (Undefined ''pts->pt'')"
  using assms by (simp add: map_user_addr_def upt_conv_Cons Let_def)

section \<open>Translation\<close>

text \<open>The indices of an address in the first gigabyte.\<close>

lemma user_indices:
  assumes "unat v < 2 ^ 30"
  shows "level_index 39 v = 0" "level_index 30 v = 0" "level_index 21 v = unat v div 2 ^ 21" "level_index 12 v = unat v div 4096 mod 512"
proof -
  have "unat v div 2 ^ 39 = 0" "unat v div 2 ^ 30 = 0" "unat v div 2 ^ 21 < 512" using assms by (simp_all add: less_mult_imp_div_less)
  then show "level_index 39 v = 0" "level_index 30 v = 0" "level_index 21 v = unat v div 2 ^ 21" "level_index 12 v = unat v div 4096 mod 512"
    by (simp_all add: level_index_div)
qed

lemma user_translate:
  assumes e4: "leads_to (pml4t t 0) (base + 4096)" and e3: "leads_to (pdpt t 0) (base + 8192)"
    and e2: "\<And>q. q < 512 \<Longrightarrow> leads_to (pdt t q) (base + 12288 + 4096 * q)"
    and fits: "base + 2 ^ 30 < 2 ^ 64" and v: "unat v < 2 ^ 30"
  shows "translate (read_tables 512 PROCESS_MAX_USER_PAGES base t) (of_nat base) v =
    (let e = pt t (unat v div 4096) in if pe_p e then Some (push_bit 12 (drop_bit 12 (pte_bits e)) + (v AND 0xfff)) else None)"
proof -
  define k p l where "k = unat v div 2 ^ 21" and "p = unat v div 4096" and "l = p mod 512"
  have b: "k < 512" "l < 512" using v by (simp_all add: less_mult_imp_div_less k_def l_def)
  have "unat v div 2 ^ 21 = unat v div 4096 div 512" using div_mult2_eq [of "unat v" 4096 512] by simp
  then have pp: "512 * k + l = p" by (simp only: mult_div_mod_eq k_def l_def p_def)
  have P: "p < 262144" using v by (simp add: p_def less_mult_imp_div_less)
  have w: "walk (read_tables 512 PROCESS_MAX_USER_PAGES base t) (of_nat base) 0 0 k l =
      (if pe_p (pt t p) then Some (Page4K (drop_bit 12 (pte_bits (pt t p)))) else None)"
    using walk_leads [of t 0 base 0 0 k 512 k l PROCESS_MAX_USER_PAGES, unfolded pp] e4 e3 e2 [OF b(1)] b fits P
    by (simp add: PROCESS_MAX_USER_PAGES_def add.commute)
  show ?thesis
    unfolding translate_def user_indices [OF v] k_def [symmetric] p_def [symmetric] l_def [symmetric] w by (simp add: Let_def)
qed

lemma user_entry_leads:
  assumes "4096 dvd unat paddr" "unat paddr + 4096 * n < 2 ^ 52"
  shows "leads_to (user_entry (drop_bit 12 paddr + of_nat n) zero_entry) (unat paddr + 4096 * n)"
  by (rule leads_to_image [OF assms]) (simp_all add: user_entry_def)

lemma init_pts_levels:
  assumes base: "4096 dvd unat pts_paddr" "unat pts_paddr < 2 ^ 51" and k: "4096 dvd unat kernel_pdpt" "unat kernel_pdpt < 2 ^ 52"
  defines "t \<equiv> init_pts kernel_pdpt pts_paddr"
  shows "leads_to (pml4t t 0) (unat pts_paddr + 4096)" "leads_to (pdpt t 0) (unat pts_paddr + 8192)"
    "leads_to (pml4t t 256) (unat kernel_pdpt)" "pt t j = zero_entry"
    "q < 512 \<Longrightarrow> leads_to (pdt t q) (unat pts_paddr + 12288 + 4096 * q)"
proof -
  have ph: "pts_paddr + of_nat off = of_nat (unat pts_paddr + off)" for off by simp
  have t: "pml4t t 0 = user_entry (drop_bit 12 (of_nat (unat pts_paddr + 4096))) zero_entry"
    "pdpt t 0 = user_entry (drop_bit 12 (of_nat (unat pts_paddr + 8192))) zero_entry"
    "pml4t t 256 = zero_entry\<lparr>pe_p := True, pe_rw := True, pe_base_addr := ucast (drop_bit 12 kernel_pdpt)\<rparr>"
    "q < 512 \<Longrightarrow> pdt t q = user_entry (drop_bit 12 (of_nat (unat pts_paddr + 12288 + 4096 * q))) zero_entry"
    unfolding t_def init_pts_def Let_def ph by (simp_all add: for_upd_apply ac_simps)
  have u: "leads_to (user_entry (drop_bit 12 (of_nat x)) zero_entry) x" if "4096 dvd x" "x < 2 ^ 52" for x
    using that by (intro leads_to_set [OF that(2,1) _ _ _ refl]) (simp_all add: user_entry_def)
  show "leads_to (pml4t t 0) (unat pts_paddr + 4096)" unfolding t(1) using base by (intro u) auto
  show "leads_to (pdpt t 0) (unat pts_paddr + 8192)" unfolding t(2) using base by (intro u) auto
  show "leads_to (pdt t q) (unat pts_paddr + 12288 + 4096 * q)" if "q < 512"
    unfolding t(4) [OF that] using base that by (intro u) auto
  show "leads_to (pml4t t 256) (unat kernel_pdpt)"
    unfolding t(3) using k by (intro leads_to_set [of _ _ kernel_pdpt]) simp_all
  show "pt t j = zero_entry" by (simp add: t_def init_pts_def Let_def)
qed

text \<open>Where a page table entry that \<^const>\<open>map_user_addr\<close> has written leads.\<close>

lemma user_page:
  assumes e: "leads_to e (f + 4096 * n)" and v: "unat v = a + 4096 * n + r" "r < 4096" "4096 dvd a"
  shows "pe_p e" "push_bit 12 (drop_bit 12 (pte_bits e)) + (v AND 0xfff) = of_nat (f + (unat v - a))"
proof -
  show "pe_p e" using e by (simp add: leads_to_def)
  obtain c where "a = 4096 * c" using v(3) by (rule dvdE)
  then have "unat v = 4096 * (c + n) + r" using v(1) by simp
  then have "unat v mod 4096 = r" using v(2) by (simp only: mod_mult_self4) simp
  then show "push_bit 12 (drop_bit 12 (pte_bits e)) + (v AND 0xfff) = of_nat (f + (unat v - a))"
    unfolding low_bits leads_to_page [OF e] using v by simp
qed

end
