(* ===== verification/Process.thy ===== *)
theory Process
  imports Address_Space
begin

text \<open>
  \<^verbatim>\<open>process.cpp\<close> and \<^verbatim>\<open>include/process.h\<close>: processes, their creation and the scheduler.  The objects are values in the
  table \<^verbatim>\<open>processes\<close>; of the memory they lie in only the address is kept.  Function pointers
  are their addresses, and \<open>raw\<close> stands for the contents of the members that the constructor leaves alone.
\<close>

section \<open>Data\<close>

record Context =
  c_ds :: u64
  c_es :: u64
  c_fs :: u64
  c_gs :: u64
  c_cr3 :: u64
  c_r15 :: u64
  c_r14 :: u64
  c_r13 :: u64
  c_r12 :: u64
  c_r11 :: u64
  c_r10 :: u64
  c_r9 :: u64
  c_r8 :: u64
  c_rbp :: u64
  c_rsi :: u64
  c_rdi :: u64
  c_rbx :: u64
  c_rdx :: u64
  c_rcx :: u64
  c_rax :: u64
  c_reserved1 :: "u64 \<times> u64"
  c_rip :: u64
  c_cs :: u64
  c_rflags :: u64
  c_rsp :: u64
  c_ss :: u64

datatype ProcessState = Wait | Running

record Process =
  proc_id :: nat
  proc_state :: ProcessState
  proc_name :: string
  start_phy :: u64
  jiffies :: int
  max_jiffies :: int
  pts :: PageTables
  pts_paddr :: u64
  proc_context :: Context
  user_image_phy_addr :: u64
  user_image_start :: u64
  user_image_size :: u64
  user_stack_phy_addr :: u64
  user_stack :: u64
  user_stack_size :: u64
  brk_start :: u64
  brk_end :: u64
  cookie :: u64
  tmp_start :: u64

definition MAX_PROCESS :: nat where "MAX_PROCESS = 1024"

definition THREAD_KERNEL_STACK_SIZE :: nat where "THREAD_KERNEL_STACK_SIZE = 16 * PAGE_SIZE"

definition USER_STACK_SIZE :: u64 where "USER_STACK_SIZE = 1024 * 1024"

definition USER_BRK_START :: u64 where "USER_BRK_START = 16 * 1024 * 1024"

definition USER_BRK_SIZE :: u64 where "USER_BRK_SIZE = 16 * 1024 * 1024"

text \<open>The offset of \<^verbatim>\<open>kernel_stack_bottom\<close> in the object (the members before it and the stack) and the size of the
  object, with the 32 bytes of a \<^verbatim>\<open>kstring\<close>.\<close>

definition kernel_stack_bottom :: nat where
  "kernel_stack_bottom = 8 + 8 + 32 + 8 + 4 + 4 + 8 + 8 + THREAD_KERNEL_STACK_SIZE"

definition sizeof_Process :: nat where
  "sizeof_Process = kernel_stack_bottom + 27 * 8 + 3 * 8 + 3 * 8 + 2 * 8 + 8 + 8 + 8"

section \<open>Construction\<close>

text \<open>\<open>this\<close> is the address of the object, \<open>entry\<close> that of \<^verbatim>\<open>process_entrypoint\<close> and \<open>kpdpt\<close> the result of
  \<^const>\<open>get_kernel_pdpt_phy_addr\<close>.  The first allocation is that of the member \<^verbatim>\<open>syscall_\<close>, two
  pointers and the one \<^verbatim>\<open>make_kup\<close> adds.\<close>

definition process_new :: "Process \<Rightarrow> u64 \<Rightarrow> u64 \<Rightarrow> BuddyAllocator \<Rightarrow> u64 \<Rightarrow> nat \<Rightarrow> u64 \<Rightarrow> (Process \<times> BuddyAllocator) res" where
  "process_new raw kpdpt entry a this pid start_phy' =
     bindR (kmalloc a (16 + 8)) (\<lambda>(sc, a).
     bindR (kernel_page_alloc a (unat (log2 (of_nat sizeof_pts)) + 1)) (\<lambda>(pts_vaddr, a).
     let paddr = kernel2phy pts_vaddr; t = init_pts kpdpt paddr in
     bindR (physical_page_alloc a (unat (log2 USER_IMAGE_SIZE))) (\<lambda>(image_phy, a).
     bindR (map_user_addr t USER_IMAGE_START image_phy (USER_IMAGE_SIZE div of_nat PAGE_SIZE)) (\<lambda>t.
     bindR (physical_page_alloc a (unat (log2 USER_STACK_SIZE))) (\<lambda>(stack_phy, a).
     bindR (map_user_addr t (33 * 1024 * 1024) stack_phy (USER_STACK_SIZE div of_nat PAGE_SIZE)) (\<lambda>t.
     Inr (raw\<lparr>proc_id := pid, proc_state := Wait, proc_name := [], start_phy := start_phy', jiffies := 0, max_jiffies := 10,
       pts := t, pts_paddr := paddr,
       proc_context := (proc_context raw)\<lparr>c_cr3 := paddr, c_cs := KERNEL_CODE_SELECTOR, c_ds := KERNEL_DATA_SELECTOR,
         c_ss := KERNEL_DATA_SELECTOR, c_es := KERNEL_DATA_SELECTOR, c_fs := KERNEL_DATA_SELECTOR,
         c_gs := KERNEL_DATA_SELECTOR, c_rsp := this + of_nat kernel_stack_bottom, c_rip := entry,
         c_rflags := 0x200, c_rdi := this\<rparr>,
       user_image_phy_addr := image_phy, user_image_start := USER_IMAGE_START, user_image_size := USER_IMAGE_SIZE,
       user_stack_phy_addr := stack_phy, user_stack := 33 * 1024 * 1024, user_stack_size := USER_STACK_SIZE,
       brk_start := USER_BRK_START, brk_end := USER_BRK_START + USER_BRK_SIZE, tmp_start := 0\<rparr>, a)))))))"

section \<open>The process table\<close>

record kstate =
  allocator :: BuddyAllocator
  processes :: "nat \<Rightarrow> Process option"
  next_pid :: nat
  current_pid :: nat

text \<open>An element of the array \<^verbatim>\<open>processes\<close>, and the object it points to.\<close>

definition get_process :: "kstate \<Rightarrow> nat \<Rightarrow> Process option res" where
  "get_process s pid = bindR (guardR (pid < MAX_PROCESS) ''processes'') (\<lambda>_. Inr (processes s pid))"

definition the_process :: "kstate \<Rightarrow> nat \<Rightarrow> Process res" where
  "the_process s pid = bindR (get_process s pid) (\<lambda>p. case p of None \<Rightarrow> Inl (Undefined ''null pointer'') | Some p \<Rightarrow> Inr p)"

definition put_process :: "kstate \<Rightarrow> nat \<Rightarrow> Process \<Rightarrow> kstate" where
  "put_process s pid p = s\<lparr>processes := (processes s)(pid \<mapsto> p)\<rparr>"

lemma put_process_simps [simp]:
  "processes (put_process s pid p) = (processes s)(pid \<mapsto> p)" "next_pid (put_process s pid p) = next_pid s"
  "current_pid (put_process s pid p) = current_pid s" "allocator (put_process s pid p) = allocator s"
  by (simp_all add: put_process_def)

definition current :: "kstate \<Rightarrow> Process res" where
  "current s = the_process s (current_pid s)"

definition create_process :: "Process \<Rightarrow> u64 \<Rightarrow> u64 \<Rightarrow> kstate \<Rightarrow> (nat \<times> kstate) res" where
  "create_process raw kpdpt entry s =
     (let pid = next_pid s; s = s\<lparr>next_pid := next_pid s + 1\<rparr>;
          log2size = unat (log2 (of_nat sizeof_Process)) + 1;
          log2size = (if log2size < Log2MinSize then Log2MinSize else log2size) in
      bindR (kernel_page_alloc (allocator s) log2size) (\<lambda>(process_mem, a).
      bindR (process_new raw kpdpt entry a process_mem pid (kernel2phy process_mem)) (\<lambda>(p, a).
      let s = s\<lparr>allocator := a\<rparr> in
      bindR (get_process s pid) (\<lambda>old.
      bindR (assertR (old = None) ''Process already created'') (\<lambda>_.
      Inr (pid, put_process s pid p))))))"

definition create_kthread :: "Process \<Rightarrow> u64 \<Rightarrow> u64 \<Rightarrow> kstate \<Rightarrow> string \<Rightarrow> u64 \<Rightarrow> u64 \<Rightarrow> (nat \<times> kstate) res" where
  "create_kthread raw kpdpt entry s name start ck =
     bindR (create_process raw kpdpt entry s) (\<lambda>(pid, s).
     bindR (the_process s pid) (\<lambda>p.
     Inr (pid, put_process s pid (p\<lparr>tmp_start := start, proc_name := name, cookie := ck\<rparr>))))"

definition process_init :: "Process \<Rightarrow> u64 \<Rightarrow> u64 \<Rightarrow> u64 \<Rightarrow> kstate \<Rightarrow> kstate res" where
  "process_init raw kpdpt entry main_start s =
     (let s = s\<lparr>processes := (\<lambda>_. None), next_pid := 1, current_pid := 1\<rparr> in
      bindR (create_process raw kpdpt entry s) (\<lambda>(pid, s).
      bindR (the_process s 1) (\<lambda>main_process.
      Inr (put_process s 1 (main_process\<lparr>tmp_start := main_start\<rparr>)))))"

definition store_current_thread_context :: "kstate \<Rightarrow> Context \<Rightarrow> kstate res" where
  "store_current_thread_context s c =
     bindR (current s) (\<lambda>p. Inr (put_process s (current_pid s) (p\<lparr>proc_context := c\<rparr>)))"

definition current_context :: "kstate \<Rightarrow> Context res" where
  "current_context s = bindR (current s) (\<lambda>p. Inr (proc_context p))"

text \<open>The jump to the user program that \<^verbatim>\<open>exec_main\<close> prepares: the file is loaded, and the context is that of user mode.\<close>

definition exec_main :: "kstate \<Rightarrow> mem \<Rightarrow> u64 \<Rightarrow> (kstate \<times> mem) res" where
  "exec_main s m buffer =
     bindR (current s) (\<lambda>proc.
     bindR (load_elf_from_buffer m buffer) (\<lambda>(start_addr, m').
     Inr (put_process s (current_pid s) (proc\<lparr>proc_context := (proc_context proc)\<lparr>c_cs := USER_CODE_SELECTOR, c_ds := USER_DATA_SELECTOR,
       c_ss := USER_DATA_SELECTOR, c_es := USER_DATA_SELECTOR, c_fs := 0, c_gs := 0,
       c_rsp := user_stack proc + user_stack_size proc, c_rip := start_addr, c_rflags := 0x200\<rparr>\<rparr>), m')))"

text \<open>The entry of a kernel thread: \<open>run\<close> is the call of the start function on the state of the kernel.\<close>

definition kernel_entrypoint :: "(u64 \<Rightarrow> u64 \<Rightarrow> kstate \<Rightarrow> kstate res) \<Rightarrow> Process \<Rightarrow> kstate \<Rightarrow> kstate res" where
  "kernel_entrypoint run p s =
     bindR (if tmp_start p \<noteq> 0 then run (tmp_start p) (cookie p) s else Inr s) (\<lambda>_. Inl (Panic ''thread quit''))"

definition phy_addr_in_this :: "Process \<Rightarrow> u64 \<Rightarrow> u64 \<Rightarrow> u64" where
  "phy_addr_in_this p this ptr = start_phy p + (ptr - this)"

section \<open>The scheduler\<close>

partial_function (option) schedule_loop :: "kstate \<Rightarrow> kstate res option" where
  "schedule_loop s =
     (let s = s\<lparr>current_pid := (if current_pid s = next_pid s then 1 else current_pid s + 1)\<rparr> in
      case get_process s (current_pid s) of
        Inl e \<Rightarrow> Some (Inl e)
      | Inr None \<Rightarrow> schedule_loop s
      | Inr (Some process) \<Rightarrow>
          if proc_id process \<noteq> 0 \<and> proc_state process = Wait
          then Some (Inr (put_process s (current_pid s) (process\<lparr>proc_state := Running\<rparr>)))
          else schedule_loop s)"

definition schedule :: "kstate \<Rightarrow> kstate res option" where
  "schedule s =
     (case current s of
        Inl e \<Rightarrow> Some (Inl e)
      | Inr p \<Rightarrow> schedule_loop (put_process s (current_pid s) (p\<lparr>proc_state := Wait\<rparr>)))"

section \<open>A new process\<close>

lemma kernel_page_alloc_frame:
  assumes "frames_ok a" "16 \<le> l"
  shows "\<exists>x a'. kernel_page_alloc a l = Inr (KERNEL_START + x, a') \<and> frames_ok a' \<and> 4096 dvd unat x \<and> unat x < 2 ^ 41"
  by (rule frames.alloc_page [OF assms]) (auto simp: kernel_page_alloc_def)

lemma physical_page_alloc_frame:
  assumes "frames_ok a" "16 \<le> l"
  shows "\<exists>x a'. physical_page_alloc a l = Inr (x, a') \<and> frames_ok a' \<and> 4096 dvd unat x \<and> unat x < 2 ^ 41"
  by (rule frames.alloc_page [OF assms]) (auto simp: physical_page_alloc_def)

lemma kmalloc_frame:
  assumes "frames_ok a"
  shows "\<exists>x a'. kmalloc a sz = Inr (KERNEL_START + x, a') \<and> frames_ok a' \<and> 4096 dvd unat x \<and> unat x < 2 ^ 41"
proof -
  define l where "l = (if unat (log2_ceil sz) < 16 then 16 else unat (log2_ceil sz))"
  have "kmalloc a sz = kernel_page_alloc a l" by (simp add: kmalloc_def Let_def l_def Log2MinSize_def)
  moreover have "16 \<le> l" by (simp add: l_def)
  ultimately show ?thesis using kernel_page_alloc_frame [OF assms] by simp
qed

lemma kernel2phy_start [simp]: "kernel2phy (KERNEL_START + x) = x"
  by (simp only: kernel2phy_def add_diff_cancel_left')

lemma log2_sizes:
  "unat (log2 (of_nat sizeof_pts)) = 21" "unat (log2 USER_IMAGE_SIZE) = 23" "unat (log2 USER_STACK_SIZE) = 20"
  "unat (log2 (of_nat sizeof_Process)) = 16"
  using nlog_unique [of 21 2109440] nlog_unique [of 23 "2 ^ 23"] nlog_unique [of 20 "2 ^ 20"] nlog_unique [of 16 65920]
  by (simp_all add: unat_log2 sizeof_pts_def PROCESS_MAX_USER_PAGES_def USER_IMAGE_SIZE_def USER_STACK_SIZE_def
      sizeof_Process_def kernel_stack_bottom_def THREAD_KERNEL_STACK_SIZE_def)

text \<open>The page table entries of a new process.\<close>

definition process_pt :: "u64 \<Rightarrow> u64 \<Rightarrow> nat \<Rightarrow> PageTableEntry" where
  "process_pt img stk k =
     (if 256 \<le> k \<and> k < 2304 then user_entry (drop_bit 12 img + of_nat (k - 256)) zero_entry
      else if 8448 \<le> k \<and> k < 8704 then user_entry (drop_bit 12 stk + of_nat (k - 8448)) zero_entry
      else zero_entry)"

lemma map_process:
  assumes "\<And>k. pt t k = zero_entry"
  obtains t1 t2 where "map_user_addr t USER_IMAGE_START img (USER_IMAGE_SIZE div of_nat PAGE_SIZE) = Inr t1"
    "map_user_addr t1 (33 * 1024 * 1024) stk (USER_STACK_SIZE div of_nat PAGE_SIZE) = Inr t2"
    "pml4t t2 = pml4t t" "pdpt t2 = pdpt t" "pdt t2 = pdt t" "pt t2 = process_pt img stk"
proof -
  have n: "USER_IMAGE_SIZE div of_nat PAGE_SIZE = 2048" "USER_STACK_SIZE div of_nat PAGE_SIZE = 256" "USER_IMAGE_START = 0x100000"
    by (simp_all add: USER_IMAGE_SIZE_def USER_STACK_SIZE_def USER_IMAGE_START_def)
  have i: "unat (0x100000 :: u64) + 4096 * unat (2048 :: u64) \<le> 2 ^ 30" "4096 dvd unat (0x100000 :: u64)"
    "unat (0x2100000 :: u64) + 4096 * unat (256 :: u64) \<le> 2 ^ 30" "4096 dvd unat (0x2100000 :: u64)" by simp_all
  obtain t1 where t1: "map_user_addr t 0x100000 img 2048 = Inr t1" "pml4t t1 = pml4t t" "pdpt t1 = pdpt t" "pdt t1 = pdt t"
    "\<And>k. pt t1 k = (if unat (0x100000 :: u64) div 4096 \<le> k \<and> k < unat (0x100000 :: u64) div 4096 + unat (2048 :: u64)
       then user_entry (drop_bit 12 img + of_nat (k - unat (0x100000 :: u64) div 4096)) (pt t k) else pt t k)"
    by (rule map_user_addr_ok [OF i(1,2), of t img]) blast
  obtain t2 where t2: "map_user_addr t1 0x2100000 stk 256 = Inr t2" "pml4t t2 = pml4t t1" "pdpt t2 = pdpt t1" "pdt t2 = pdt t1"
    "\<And>k. pt t2 k = (if unat (0x2100000 :: u64) div 4096 \<le> k \<and> k < unat (0x2100000 :: u64) div 4096 + unat (256 :: u64)
       then user_entry (drop_bit 12 stk + of_nat (k - unat (0x2100000 :: u64) div 4096)) (pt t1 k) else pt t1 k)"
    by (rule map_user_addr_ok [OF i(3,4), of t1 stk]) blast
  have "pt t2 = process_pt img stk" by (rule ext) (simp add: t2(5) t1(5) assms process_pt_def)
  then show thesis using t1(1-4) t2(1-4) unfolding n by (intro that [of t1 t2]) (simp_all add: n [simplified])
qed

lemma process_new_ok:
  assumes "frames_ok a"
  obtains p a' where "process_new raw kpdpt entry a this pid ph = Inr (p, a')" "frames_ok a'" "proc_id p = pid" "proc_state p = Wait"
    "4096 dvd unat (pts_paddr p)" "unat (pts_paddr p) < 2 ^ 41" "4096 dvd unat (user_image_phy_addr p)" "unat (user_image_phy_addr p) < 2 ^ 41"
    "4096 dvd unat (user_stack_phy_addr p)" "unat (user_stack_phy_addr p) < 2 ^ 41"
    "pml4t (pts p) = pml4t (init_pts kpdpt (pts_paddr p))" "pdpt (pts p) = pdpt (init_pts kpdpt (pts_paddr p))"
    "pdt (pts p) = pdt (init_pts kpdpt (pts_paddr p))" "pt (pts p) = process_pt (user_image_phy_addr p) (user_stack_phy_addr p)"
    "c_cr3 (proc_context p) = pts_paddr p" "brk_start p = USER_BRK_START" "brk_end p = USER_BRK_START + USER_BRK_SIZE"
proof -
  obtain x1 a1 where 1: "kmalloc a (16 + 8) = Inr (KERNEL_START + x1, a1)" "frames_ok a1" using kmalloc_frame [OF assms] by blast
  obtain x2 a2 where 2: "kernel_page_alloc a1 (unat (log2 (of_nat sizeof_pts)) + 1) = Inr (KERNEL_START + x2, a2)" "frames_ok a2"
    "4096 dvd unat x2" "unat x2 < 2 ^ 41" using kernel_page_alloc_frame [OF 1(2), of 22] by (auto simp: log2_sizes)
  obtain x3 a3 where 3: "physical_page_alloc a2 (unat (log2 USER_IMAGE_SIZE)) = Inr (x3, a3)" "frames_ok a3"
    "4096 dvd unat x3" "unat x3 < 2 ^ 41" using physical_page_alloc_frame [OF 2(2), of 23] by (auto simp: log2_sizes)
  obtain x4 a4 where 4: "physical_page_alloc a3 (unat (log2 USER_STACK_SIZE)) = Inr (x4, a4)" "frames_ok a4"
    "4096 dvd unat x4" "unat x4 < 2 ^ 41" using physical_page_alloc_frame [OF 3(2), of 20] by (auto simp: log2_sizes)
  have z: "pt (init_pts kpdpt x2) k = zero_entry" for k by (simp add: init_pts_def Let_def)
  obtain t1 t2 where t: "map_user_addr (init_pts kpdpt x2) USER_IMAGE_START x3 (USER_IMAGE_SIZE div of_nat PAGE_SIZE) = Inr t1"
    "map_user_addr t1 (33 * 1024 * 1024) x4 (USER_STACK_SIZE div of_nat PAGE_SIZE) = Inr t2"
    "pml4t t2 = pml4t (init_pts kpdpt x2)" "pdpt t2 = pdpt (init_pts kpdpt x2)" "pdt t2 = pdt (init_pts kpdpt x2)" "pt t2 = process_pt x3 x4"
    by (rule map_process [OF z])
  show thesis
    by (rule that, unfold process_new_def 1(1) bindR_simps prod.case 2(1) Let_def kernel2phy_start 3(1) t(1) 4(1) t(2), rule refl)
      (use 2 3 4 t in simp_all)
qed

lemma page_range:
  assumes "4096 dvd a" "a \<le> unat v" "unat v < a + 4096 * m"
  obtains n r where "unat v div 4096 = a div 4096 + n" "n < m" "unat v = a + 4096 * n + r" "r < 4096"
proof -
  obtain c where c: "a = 4096 * c" using assms(1) by (rule dvdE)
  have "c \<le> unat v div 4096" using assms(2) c by (simp add: less_eq_div_iff_mult_less_eq mult.commute)
  moreover have "unat v div 4096 < c + m" using assms(3) c by (simp add: less_mult_imp_div_less)
  moreover have "unat v = 4096 * (unat v div 4096) + unat v mod 4096" by simp
  ultimately show thesis using c by (intro that [of "unat v div 4096 - c" "unat v mod 4096"]) (auto simp: algebra_simps diff_mult_distrib2)
qed

lemma mapped_page:
  assumes f: "4096 dvd unat f" "unat f < 2 ^ 41" and a: "4096 dvd a" "a \<le> unat v" "unat v < a + 4096 * m" "m \<le> 2 ^ 20"
    and e: "\<And>n. n < m \<Longrightarrow> g (a div 4096 + n) = user_entry (drop_bit 12 f + of_nat n) zero_entry"
  shows "(let e = g (unat v div 4096) in if pe_p e then Some (push_bit 12 (drop_bit 12 (pte_bits e)) + (v AND 0xfff)) else None) =
    Some (f + (v - of_nat a))"
proof -
  obtain n r where n: "unat v div 4096 = a div 4096 + n" "n < m" "unat v = a + 4096 * n + r" "r < 4096"
    using page_range [OF a(1-3)] by metis
  have lt: "leads_to (g (unat v div 4096)) (unat f + 4096 * n)"
    unfolding n(1) e [OF n(2)] using f n(2) a(4) by (intro user_entry_leads) simp_all
  have "of_nat (unat f + (unat v - a)) = f + (v - of_nat a)" using a(2) by (simp add: of_nat_diff)
  then show ?thesis using user_page [OF lt n(3,4) a(1)] by (simp add: Let_def)
qed


lemma initial_frames_ok: "\<exists>a. buddy_allocator_init 0x4000000 30 = Inr a \<and> frames_ok a"
  using buddy_allocator_init_ok [of 30 "0x4000000"] by (auto simp: frames_ok_def)


end
