(* ===== verification/Scheduler.thy ===== *)
theory Scheduler
  imports Process
begin

text \<open>
  Properties of the process table and of \<^verbatim>\<open>schedule\<close> of \<^verbatim>\<open>process.cpp\<close>: the invariant of the table, the
  order in which processes are picked, and that every waiting process is picked.
\<close>

section \<open>The invariant\<close>

definition table_ok :: "kstate \<Rightarrow> bool" where
  "table_ok s \<longleftrightarrow> 1 \<le> next_pid s \<and> next_pid s \<le> MAX_PROCESS \<and>
     (\<forall>pid. processes s pid \<noteq> None \<longleftrightarrow> 1 \<le> pid \<and> pid < next_pid s) \<and>
     (\<forall>pid p. processes s pid = Some p \<longrightarrow> proc_id p = pid)"

text \<open>The current process exists, and no other process is running.\<close>

definition current_ok :: "kstate \<Rightarrow> bool" where
  "current_ok s \<longleftrightarrow> 1 \<le> current_pid s \<and> current_pid s < next_pid s \<and>
     (\<forall>pid p. processes s pid = Some p \<and> proc_state p = Running \<longrightarrow> pid = current_pid s)"

definition kernel_ok :: "kstate \<Rightarrow> bool" where
  "kernel_ok s \<longleftrightarrow> frames_ok (allocator s) \<and> table_ok s \<and> current_ok s"

lemma the_process_ok:
  "table_ok s \<Longrightarrow> 1 \<le> pid \<Longrightarrow> pid < next_pid s \<Longrightarrow> \<exists>p. the_process s pid = Inr p \<and> processes s pid = Some p \<and> proc_id p = pid"
proof -
  assume s: "table_ok s" "1 \<le> pid" "pid < next_pid s"
  then obtain p where "processes s pid = Some p" "proc_id p = pid" unfolding table_ok_def by fastforce
  moreover have "pid < MAX_PROCESS" using s by (simp add: table_ok_def)
  ultimately show ?thesis by (simp add: the_process_def get_process_def)
qed

lemma table_ok_put: "table_ok s \<Longrightarrow> processes s pid = Some q \<Longrightarrow> proc_id p = pid \<Longrightarrow> table_ok (put_process s pid p)"
  by (auto simp: table_ok_def)

lemma table_ok_current [simp]: "table_ok (s\<lparr>current_pid := c\<rparr>) = table_ok s"
  by (simp add: table_ok_def)

lemma create_process_ok:
  assumes ok: "frames_ok (allocator s)" "table_ok s" and room: "next_pid s < MAX_PROCESS"
  shows "\<exists>p a. create_process raw kpdpt entry s =
      Inr (next_pid s, put_process (s\<lparr>next_pid := next_pid s + 1, allocator := a\<rparr>) (next_pid s) p) \<and>
    frames_ok a \<and> proc_id p = next_pid s \<and> proc_state p = Wait"
proof -
  obtain x a1 where 1: "kernel_page_alloc (allocator s) 17 = Inr (KERNEL_START + x, a1)" "frames_ok a1"
    using kernel_page_alloc_frame [OF ok(1), of 17] by auto
  obtain p a2 where 2: "process_new raw kpdpt entry a1 (KERNEL_START + x) (next_pid s) x = Inr (p, a2)" "frames_ok a2"
    "proc_id p = next_pid s" "proc_state p = Wait" by (rule process_new_ok [OF 1(2)])
  have "processes s (next_pid s) = None" using ok(2) unfolding table_ok_def by (metis less_irrefl)
  then show ?thesis
    using 1(1) 2 room
    by (intro exI [of _ p] exI [of _ a2]) (simp add: create_process_def Let_def log2_sizes Log2MinSize_def get_process_def)
qed

lemma create_process_kernel_ok:
  assumes "frames_ok a" "table_ok s" "next_pid s < MAX_PROCESS" "proc_id p = next_pid s" "proc_state p = Wait"
    and "s' = put_process (s\<lparr>next_pid := next_pid s + 1, allocator := a\<rparr>) (next_pid s) p"
  shows "table_ok s'" "frames_ok (allocator s')" "current_ok s \<Longrightarrow> current_ok s'"
proof -
  show "table_ok s'" "frames_ok (allocator s')"
    using assms by (auto simp: table_ok_def put_process_def less_Suc_eq split: if_splits)
  show "current_ok s'" if "current_ok s"
    using that assms by (auto simp: current_ok_def put_process_def split: if_splits)
qed

lemma create_kthread_ok:
  assumes ok: "kernel_ok s" and room: "next_pid s < MAX_PROCESS"
  shows "\<exists>s'. create_kthread raw kpdpt entry s name start ck = Inr (next_pid s, s') \<and> kernel_ok s' \<and>
    next_pid s' = next_pid s + 1 \<and> current_pid s' = current_pid s \<and>
    (\<exists>p. processes s' (next_pid s) = Some p \<and> proc_state p = Wait \<and> tmp_start p = start \<and> proc_name p = name \<and> cookie p = ck)"
proof -
  obtain p a where c: "create_process raw kpdpt entry s =
      Inr (next_pid s, put_process (s\<lparr>next_pid := next_pid s + 1, allocator := a\<rparr>) (next_pid s) p)"
    and p: "frames_ok a" "proc_id p = next_pid s" "proc_state p = Wait"
    using create_process_ok [OF _ _ room, of raw kpdpt entry] ok unfolding kernel_ok_def by blast
  let ?p = "p\<lparr>tmp_start := start, proc_name := name, cookie := ck\<rparr>"
  let ?s = "put_process (s\<lparr>next_pid := next_pid s + 1, allocator := a\<rparr>) (next_pid s) ?p"
  have e: "create_kthread raw kpdpt entry s name start ck = Inr (next_pid s, ?s)"
    using c room by (simp add: create_kthread_def the_process_def get_process_def put_process_def)
  have "kernel_ok ?s"
    using create_process_kernel_ok [OF p(1) _ room, of ?p ?s] ok p unfolding kernel_ok_def by simp
  then show ?thesis using e p by (simp add: put_process_def)
qed

lemma store_context_ok:
  assumes "kernel_ok s"
  shows "\<exists>s'. store_current_thread_context s c = Inr s' \<and> kernel_ok s' \<and> current_context s' = Inr c"
proof -
  obtain p where p: "the_process s (current_pid s) = Inr p" "processes s (current_pid s) = Some p" "proc_id p = current_pid s"
    using the_process_ok [of s "current_pid s"] assms by (auto simp: kernel_ok_def current_ok_def)
  let ?s = "put_process s (current_pid s) (p\<lparr>proc_context := c\<rparr>)"
  have "kernel_ok ?s"
    using assms p by (auto simp: kernel_ok_def table_ok_def current_ok_def put_process_def split: if_splits)
  moreover have "current_pid s < MAX_PROCESS" using assms by (auto simp: kernel_ok_def table_ok_def current_ok_def)
  ultimately show ?thesis using p
    by (simp add: store_current_thread_context_def current_def current_context_def the_process_def get_process_def put_process_def)
qed

lemma process_init_ok:
  assumes "frames_ok (allocator s)"
  shows "\<exists>s'. process_init raw kpdpt entry main_start s = Inr s' \<and> kernel_ok s' \<and> next_pid s' = 2 \<and> current_pid s' = 1"
proof -
  let ?s = "s\<lparr>processes := (\<lambda>_. None), next_pid := 1, current_pid := 1\<rparr>"
  have t: "table_ok ?s" by (auto simp: table_ok_def MAX_PROCESS_def)
  obtain p a where c: "create_process raw kpdpt entry ?s = Inr (1, put_process (?s\<lparr>next_pid := 2, allocator := a\<rparr>) 1 p)"
    and p: "frames_ok a" "proc_id p = 1" "proc_state p = Wait"
    using create_process_ok [of ?s raw kpdpt entry] assms t by (auto simp: MAX_PROCESS_def numeral_2_eq_2)
  let ?s' = "put_process (?s\<lparr>next_pid := 2, allocator := a\<rparr>) 1 (p\<lparr>tmp_start := main_start\<rparr>)"
  have "process_init raw kpdpt entry main_start s = Inr ?s'"
    using c by (simp add: process_init_def Let_def the_process_def get_process_def put_process_def MAX_PROCESS_def)
  moreover have "kernel_ok ?s'"
    using p by (auto simp: kernel_ok_def table_ok_def current_ok_def put_process_def MAX_PROCESS_def split: if_splits)
  ultimately show ?thesis by (auto simp: put_process_def)
qed

section \<open>Round robin\<close>

definition next_in_turn :: "kstate \<Rightarrow> nat" where
  "next_in_turn s = (if current_pid s + 1 < next_pid s then current_pid s + 1 else 1)"

lemma schedule_loop_hit:
  assumes "q = (if current_pid s = next_pid s then 1 else current_pid s + 1)" "q < MAX_PROCESS" "processes s q = Some p"
    "proc_id p \<noteq> 0" "proc_state p = Wait"
  shows "schedule_loop s = Some (Inr (put_process (s\<lparr>current_pid := q\<rparr>) q (p\<lparr>proc_state := Running\<rparr>)))"
  using assms by (subst schedule_loop.simps) (auto simp: Let_def get_process_def put_process_def)

lemma schedule_loop_miss:
  assumes "q = (if current_pid s = next_pid s then 1 else current_pid s + 1)" "q < MAX_PROCESS" "processes s q = None"
  shows "schedule_loop s = schedule_loop (s\<lparr>current_pid := q\<rparr>)"
  using assms by (subst schedule_loop.simps) (auto simp: Let_def get_process_def)

text \<open>In a sound state every process but the current one waits, so the loop stops at the next one in turn.\<close>

lemma schedule_loop_next:
  assumes t: "table_ok s" "next_pid s < MAX_PROCESS" and cur: "1 \<le> current_pid s" "current_pid s < next_pid s"
    and wait: "\<forall>pid p. processes s pid = Some p \<longrightarrow> proc_state p = Wait"
  obtains p where "processes s (next_in_turn s) = Some p"
    "schedule_loop s = Some (Inr (put_process (s\<lparr>current_pid := next_in_turn s\<rparr>) (next_in_turn s) (p\<lparr>proc_state := Running\<rparr>)))"
proof -
  let ?q = "next_in_turn s"
  have q: "1 \<le> ?q" "?q < next_pid s" using cur by (auto simp: next_in_turn_def)
  obtain p where p: "processes s ?q = Some p" "proc_id p = ?q" using the_process_ok [OF t(1) q] by blast
  have pw: "proc_state p = Wait" "proc_id p \<noteq> 0" using wait p q by auto
  show thesis
  proof (cases "current_pid s + 1 < next_pid s")
    case True
    then have "?q = (if current_pid s = next_pid s then 1 else current_pid s + 1)" by (simp add: next_in_turn_def)
    from schedule_loop_hit [OF this _ p(1) pw(2,1)] show thesis using q t(2) p(1) by (intro that) auto
  next
    case False
    then have n: "next_pid s = current_pid s + 1" using cur by simp
    have "processes s (next_pid s) = None" using t(1) unfolding table_ok_def by (metis less_irrefl)
    then have "schedule_loop s = schedule_loop (s\<lparr>current_pid := next_pid s\<rparr>)"
      using n t(2) by (intro schedule_loop_miss) auto
    also have "\<dots> = Some (Inr (put_process (s\<lparr>current_pid := ?q\<rparr>) ?q (p\<lparr>proc_state := Running\<rparr>)))"
      using schedule_loop_hit [of ?q "s\<lparr>current_pid := next_pid s\<rparr>" p] False q t(2) p(1) pw by (simp add: next_in_turn_def)
    finally show thesis using p(1) by (rule that [rotated])
  qed
qed

lemma schedule_ok:
  assumes ok: "kernel_ok s" and room: "next_pid s < MAX_PROCESS"
  shows "\<exists>s'. schedule s = Some (Inr s') \<and> kernel_ok s' \<and> current_pid s' = next_in_turn s \<and> next_pid s' = next_pid s \<and>
    map_option proc_state (processes s' (current_pid s')) = Some Running \<and>
    (\<forall>pid. map_option proc_context (processes s' pid) = map_option proc_context (processes s pid))"
proof -
  let ?c = "current_pid s"
  have t: "table_ok s" "current_ok s" "frames_ok (allocator s)" using ok by (auto simp: kernel_ok_def)
  then have cur: "1 \<le> ?c" "?c < next_pid s" by (auto simp: current_ok_def)
  obtain p where p: "the_process s ?c = Inr p" "processes s ?c = Some p" "proc_id p = ?c"
    using the_process_ok [OF t(1) cur] by blast
  let ?s = "put_process s ?c (p\<lparr>proc_state := Wait\<rparr>)"
  have ts: "table_ok ?s" using table_ok_put [OF t(1) p(2)] p(3) by simp
  have wait: "\<forall>pid p. processes ?s pid = Some p \<longrightarrow> proc_state p = Wait"
  proof (intro allI impI)
    fix pid q assume "processes ?s pid = Some q"
    then show "proc_state q = Wait"
      using t(2) by (cases "pid = ?c"; cases "proc_state q") (auto simp: current_ok_def)
  qed
  have st: "next_pid ?s = next_pid s" "current_pid ?s = ?c" "next_in_turn ?s = next_in_turn s" "allocator ?s = allocator s"
    by (simp_all add: next_in_turn_def)
  obtain q where q: "processes ?s (next_in_turn s) = Some q"
    "schedule_loop ?s = Some (Inr (put_process (?s\<lparr>current_pid := next_in_turn s\<rparr>) (next_in_turn s) (q\<lparr>proc_state := Running\<rparr>)))"
    using schedule_loop_next [OF ts _ _ _ wait, unfolded st, OF room cur] by blast
  let ?s' = "put_process (?s\<lparr>current_pid := next_in_turn s\<rparr>) (next_in_turn s) (q\<lparr>proc_state := Running\<rparr>)"
  have "schedule s = Some (Inr ?s')" using p(1) q(2) by (simp add: schedule_def current_def)
  moreover have "table_ok ?s'"
  proof -
    have "proc_id q = next_in_turn s" using ts q(1) unfolding table_ok_def by blast
    then show ?thesis using ts q(1) by (intro table_ok_put [of _ _ q]) simp_all
  qed
  moreover have "current_ok ?s'"
  proof -
    have "pid = next_in_turn s" if "processes ?s' pid = Some r" "proc_state r = Running" for pid r
    proof (rule ccontr)
      assume "pid \<noteq> next_in_turn s"
      then have "processes ?s pid = Some r" using that(1) by simp
      then show False using wait that(2) by (metis ProcessState.distinct(1))
    qed
    moreover have "1 \<le> next_in_turn s" "next_in_turn s < next_pid s" using cur by (auto simp: next_in_turn_def)
    moreover have cs: "current_pid ?s' = next_in_turn s" "next_pid ?s' = next_pid s" by simp_all
    ultimately show ?thesis unfolding current_ok_def cs by blast
  qed
  moreover have "map_option proc_context (processes ?s' pid) = map_option proc_context (processes s pid)" for pid
    using p(2) q(1) by (cases "pid = next_in_turn s"; cases "pid = ?c") auto
  ultimately show ?thesis using t(3) by (intro exI [of _ ?s']) (simp add: kernel_ok_def)
qed

section \<open>Many switches\<close>

primrec schedules :: "nat \<Rightarrow> kstate \<Rightarrow> kstate res option" where
  "schedules 0 s = Some (Inr s)"
| "schedules (Suc k) s =
     (case schedule s of None \<Rightarrow> None | Some (Inl e) \<Rightarrow> Some (Inl e) | Some (Inr s') \<Rightarrow> schedules k s')"

lemma schedules_ok:
  assumes "kernel_ok s" "next_pid s < MAX_PROCESS"
  shows "\<exists>s'. schedules k s = Some (Inr s') \<and> kernel_ok s' \<and> next_pid s' = next_pid s \<and>
    current_pid s' = (current_pid s - 1 + k) mod (next_pid s - 1) + 1 \<and>
    (\<forall>pid. map_option proc_context (processes s' pid) = map_option proc_context (processes s pid))"
  using assms
proof (induction k arbitrary: s)
  case 0
  then have "current_pid s - 1 < next_pid s - 1" "1 \<le> current_pid s" by (auto simp: kernel_ok_def current_ok_def)
  then show ?case using 0 by simp
next
  case (Suc k)
  obtain s1 where s1: "schedule s = Some (Inr s1)" "kernel_ok s1" "current_pid s1 = next_in_turn s" "next_pid s1 = next_pid s"
    "\<forall>pid. map_option proc_context (processes s1 pid) = map_option proc_context (processes s pid)"
    using schedule_ok [OF Suc.prems] by blast
  obtain s2 where s2: "schedules k s1 = Some (Inr s2)" "kernel_ok s2" "next_pid s2 = next_pid s1"
    "current_pid s2 = (current_pid s1 - 1 + k) mod (next_pid s1 - 1) + 1"
    "\<forall>pid. map_option proc_context (processes s2 pid) = map_option proc_context (processes s1 pid)"
    using Suc.IH [OF s1(2)] s1(4) Suc.prems(2) by auto
  have c: "1 \<le> current_pid s" "current_pid s < next_pid s" using Suc.prems by (auto simp: kernel_ok_def current_ok_def)
  have "(current_pid s1 - 1 + k) mod (next_pid s - 1) = (current_pid s - 1 + Suc k) mod (next_pid s - 1)"
  proof (cases "current_pid s + 1 < next_pid s")
    case True
    then show ?thesis using c by (simp add: s1(3) next_in_turn_def)
  next
    case False
    then have n: "current_pid s = next_pid s - 1" using c by simp
    have "current_pid s - 1 + Suc k = k + (next_pid s - 1)" using c n by linarith
    then have "(current_pid s - 1 + Suc k) mod (next_pid s - 1) = k mod (next_pid s - 1)" by (simp only: mod_add_self2)
    then show ?thesis using False by (simp add: s1(3) next_in_turn_def)
  qed
  then show ?case using s1 s2 by simp
qed

text \<open>C7: the scheduler is fair: from any sound state, with fewer than 1024 processes created, process \<open>q\<close> is the running process
  after at most as many switches as there are processes, whatever \<open>q\<close> is; in particular \<^verbatim>\<open>schedule\<close> always returns.\<close>

theorem every_process_runs:
  assumes ok: "kernel_ok s" "next_pid s < MAX_PROCESS" and q: "1 \<le> q" "q < next_pid s"
  shows "\<exists>k s'. 1 \<le> k \<and> k < next_pid s \<and> schedules k s = Some (Inr s') \<and> current_pid s' = q"
proof -
  let ?n = "next_pid s - 1" and ?c = "current_pid s - 1"
  have c: "?c < ?n" "1 \<le> current_pid s" using ok(1) by (auto simp: kernel_ok_def current_ok_def)
  define k where "k = (if ?c < q - 1 then q - 1 - ?c else q - 1 + ?n - ?c)"
  have k: "1 \<le> k" "k < next_pid s" using c q by (auto simp: k_def)
  have "?c + k = q - 1 \<or> ?c + k = q - 1 + ?n" using c by (auto simp: k_def)
  moreover have "q - 1 < ?n" using q by linarith
  ultimately have "(?c + k) mod ?n = q - 1" by (elim disjE) (simp_all only: mod_add_self2 mod_less)
  then have q': "(?c + k) mod ?n + 1 = q" using q by simp
  obtain s' where "schedules k s = Some (Inr s')" "current_pid s' = (?c + k) mod ?n + 1"
    using schedules_ok [OF ok, of k] by blast
  then show ?thesis using k q' by (intro exI [of _ k] exI [of _ s']) simp
qed


section \<open>Reachable states\<close>

inductive kernel_step :: "kstate \<Rightarrow> kstate \<Rightarrow> bool" where
  step_kthread: "create_kthread raw kpdpt entry s name start ck = Inr (pid, s') \<Longrightarrow> next_pid s + 1 < MAX_PROCESS \<Longrightarrow> kernel_step s s'"
| step_schedule: "schedule s = Some (Inr s') \<Longrightarrow> kernel_step s s'"
| step_store: "store_current_thread_context s c = Inr s' \<Longrightarrow> kernel_step s s'"

lemma kernel_step_ok:
  assumes "kernel_step s s'" "kernel_ok s" "next_pid s < MAX_PROCESS"
  shows "kernel_ok s' \<and> next_pid s' < MAX_PROCESS"
  using assms
proof cases
  case (step_kthread raw kpdpt entry name start ck pid)
  then show ?thesis using create_kthread_ok [OF assms(2,3), of raw kpdpt entry name start ck] by auto
next
  case step_schedule
  then show ?thesis using schedule_ok [OF assms(2,3)] assms(3) by auto
next
  case (step_store c)
  then show ?thesis using store_context_ok [OF assms(2), of c] assms(3)
    by (auto simp: store_current_thread_context_def outcome)
qed


text \<open>The table has no room check: the scheduler reads slot 1024 when 1023 processes exist and the last one is current, and
  creating another process writes that slot.\<close>

theorem process_table_overrun:
  assumes ok: "kernel_ok s" and full: "next_pid s = MAX_PROCESS"
  shows "create_process raw kpdpt entry s = Inl (Undefined ''processes'') \<and>
    (current_pid s = MAX_PROCESS - 1 \<longrightarrow> schedule s = Some (Inl (Undefined ''processes'')))"
proof (intro conjI impI)
  obtain x a1 where 1: "kernel_page_alloc (allocator s) 17 = Inr (KERNEL_START + x, a1)" "frames_ok a1"
    using kernel_page_alloc_frame [of "allocator s" 17] ok by (auto simp: kernel_ok_def)
  obtain p a2 where 2: "process_new raw kpdpt entry a1 (KERNEL_START + x) (next_pid s) x = Inr (p, a2)"
    by (rule process_new_ok [OF 1(2)])
  show "create_process raw kpdpt entry s = Inl (Undefined ''processes'')"
    using 1(1) 2 full by (simp add: create_process_def Let_def log2_sizes Log2MinSize_def get_process_def)
next
  assume c: "current_pid s = MAX_PROCESS - 1"
  obtain p where p: "the_process s (current_pid s) = Inr p"
    using the_process_ok [of s "current_pid s"] ok by (auto simp: kernel_ok_def current_ok_def)
  have "schedule_loop (put_process s (current_pid s) (p\<lparr>proc_state := Wait\<rparr>)) = Some (Inl (Undefined ''processes''))"
    using c full by (subst schedule_loop.simps) (simp add: Let_def get_process_def MAX_PROCESS_def)
  then show "schedule s = Some (Inl (Undefined ''processes''))" using p by (simp add: schedule_def current_def)
qed

text \<open>A state with one process, right after \<^verbatim>\<open>process_init\<close>.\<close>

definition boot_state :: "BuddyAllocator \<Rightarrow> kstate" where
  "boot_state a = \<lparr>allocator = a, processes = (\<lambda>_. None), next_pid = 1, current_pid = 0\<rparr>"

lemma boot_state_ok:
  "\<exists>a s. buddy_allocator_init 0x4000000 30 = Inr a \<and> process_init raw 0x3000 0 0 (boot_state a) = Inr s \<and> kernel_ok s \<and>
     next_pid s = 2 \<and> current_pid s = 1 \<and> frames_ok a"
  using initial_frames_ok process_init_ok [of "boot_state a" for a] by (fastforce simp: boot_state_def)

theorem every_process_runs_witness:
  "\<forall>raw. \<exists>a s s'. buddy_allocator_init 0x4000000 30 = Inr a \<and> process_init raw 0x3000 0 0 (boot_state a) = Inr s \<and>
     schedules 1 s = Some (Inr s') \<and> current_pid s' = 1"
proof
  fix raw
  obtain a s where s: "buddy_allocator_init 0x4000000 30 = Inr a" "process_init raw 0x3000 0 0 (boot_state a) = Inr s"
    "kernel_ok s" "next_pid s = 2" using boot_state_ok [of raw] by blast
  obtain k s' where "1 \<le> k" "k < 2" "schedules k s = Some (Inr s')" "current_pid s' = 1"
    using every_process_runs [OF s(3), of 1] s(4) by (auto simp: MAX_PROCESS_def)
  moreover from this have "k = 1" by simp
  ultimately show "\<exists>a s s'. buddy_allocator_init 0x4000000 30 = Inr a \<and> process_init raw 0x3000 0 0 (boot_state a) = Inr s \<and>
     schedules 1 s = Some (Inr s') \<and> current_pid s' = 1" using s(1,2) by blast
qed



definition full_state :: "BuddyAllocator \<Rightarrow> Process \<Rightarrow> kstate" where
  "full_state a raw = \<lparr>allocator = a,
     processes = (\<lambda>pid. if 1 \<le> pid \<and> pid < 1024 then Some (raw\<lparr>proc_id := pid, proc_state := Wait\<rparr>) else None),
     next_pid = 1024, current_pid = 1023\<rparr>"

theorem process_table_overrun_witness:
  "\<forall>raw. \<exists>a. buddy_allocator_init 0x4000000 30 = Inr a \<and>
     create_process raw 0x3000 0 (full_state a raw) = Inl (Undefined ''processes'') \<and>
     schedule (full_state a raw) = Some (Inl (Undefined ''processes''))"
proof
  fix raw
  obtain a where a: "buddy_allocator_init 0x4000000 30 = Inr a" "frames_ok a" using initial_frames_ok by blast
  have "kernel_ok (full_state a raw)"
    using a(2) by (auto simp: full_state_def kernel_ok_def table_ok_def current_ok_def MAX_PROCESS_def split: if_splits)
  moreover have "next_pid (full_state a raw) = MAX_PROCESS" "current_pid (full_state a raw) = MAX_PROCESS - 1"
    by (simp_all add: full_state_def MAX_PROCESS_def)
  ultimately show "\<exists>a. buddy_allocator_init 0x4000000 30 = Inr a \<and>
     create_process raw 0x3000 0 (full_state a raw) = Inl (Undefined ''processes'') \<and>
     schedule (full_state a raw) = Some (Inl (Undefined ''processes''))"
    using process_table_overrun [of "full_state a raw" raw "0x3000" 0] a(1) by blast
qed

end
