(* ===== verification/Syscalls.thy ===== *)
theory Syscalls
  imports Scheduler Serial
begin

text \<open>
  \<^verbatim>\<open>syscall.cpp\<close> and \<^verbatim>\<open>kernel-abi/include/kernel-abi/syscall_nr.h\<close>: the dispatch of system calls and the calls.  The context
  that \<^verbatim>\<open>handle_syscall\<close> is given is the one of the process, because the interrupt handler passes it a
  pointer to that; memory is the address space of the process.
\<close>

section \<open>Numbers\<close>

definition SYSCALL_NR_NULL :: u64 where "SYSCALL_NR_NULL = 0"
definition SYSCALL_NR_READ :: u64 where "SYSCALL_NR_READ = 1"
definition SYSCALL_NR_WRITE :: u64 where "SYSCALL_NR_WRITE = 2"
definition SYSCALL_NR_OPEN :: u64 where "SYSCALL_NR_OPEN = 3"
definition SYSCALL_NR_CLOSE :: u64 where "SYSCALL_NR_CLOSE = 4"
definition SYSCALL_NR_EXIT :: u64 where "SYSCALL_NR_EXIT = 5"
definition SYSCALL_NR_YIELD :: u64 where "SYSCALL_NR_YIELD = 6"
definition SYSCALL_NR_ANON_ALLOCATE :: u64 where "SYSCALL_NR_ANON_ALLOCATE = 7"
definition SYSCALL_NR_MAX :: u64 where "SYSCALL_NR_MAX = 8"

lemmas syscall_nr = SYSCALL_NR_NULL_def SYSCALL_NR_READ_def SYSCALL_NR_WRITE_def SYSCALL_NR_OPEN_def SYSCALL_NR_CLOSE_def
  SYSCALL_NR_EXIT_def SYSCALL_NR_YIELD_def SYSCALL_NR_ANON_ALLOCATE_def SYSCALL_NR_MAX_def

section \<open>The calls\<close>

text \<open>A call returns an \<^verbatim>\<open>int\<close>, or the machine has been halted.\<close>

datatype sys_ret = Ret "32 word" | Halted

definition sys_read :: sys_ret where "sys_read = Ret (- 1)"

definition sys_open :: sys_ret where "sys_open = Ret (- 1)"

definition sys_close :: sys_ret where "sys_close = Ret (- 1)"

definition sys_exit :: sys_ret where "sys_exit = Halted"

definition sys_yield :: sys_ret where "sys_yield = Ret 0"

text \<open>The result and what is printed; \<open>radix\<close> is the one last set on the serial port.\<close>

definition sys_write :: "IntRadix \<Rightarrow> Process \<Rightarrow> mem \<Rightarrow> (sys_ret \<times> char list) res" where
  "sys_write radix p m =
     (let c = proc_context p; fd = (ucast (c_rdi c) :: 32 word); data = c_rsi c; sz = c_rdx c in
      if fd = 0 then Inr (Ret (ucast sz), [])
      else if fd = 1 \<or> fd = 2
      then bindR (print_int radix (of_nat (proc_id p))) (\<lambda>d.
           Inr (Ret (ucast sz), ''process <'' @ d @ ''>: '' @ map (\<lambda>i. char_of (unat (m (data + of_nat i)))) [0..<unat sz] @ [CHR 0x0a]))
      else Inr (Ret (- 1), []))"

text \<open>An 8-byte store.\<close>

definition store_u64 :: "mem \<Rightarrow> u64 \<Rightarrow> u64 \<Rightarrow> mem" where
  "store_u64 m a v = (\<lambda>x. if unat (x - a) < 8 then byte_of v (unat (x - a)) else m x)"

definition aligned_up :: "u64 \<Rightarrow> u64" where
  "aligned_up sz = (sz + (of_nat PAGE_SIZE - 1)) div of_nat PAGE_SIZE * of_nat PAGE_SIZE"

definition sys_anon_allocate :: "Process \<Rightarrow> BuddyAllocator \<Rightarrow> mem \<Rightarrow> (sys_ret \<times> Process \<times> BuddyAllocator \<times> mem) res" where
  "sys_anon_allocate p a m =
     (let c = proc_context p; sz = c_rdi c; ptr = c_rsi c; aligned_size = aligned_up sz in
      bindR (kmalloc a aligned_size) (\<lambda>(buf, a).
      let buf_phy = kernel2phy buf; old_brk = brk_start p; p = p\<lparr>brk_start := brk_start p + aligned_size\<rparr> in
      if brk_start p > brk_end p then Inr (Ret (- 1), p, a, m)
      else bindR (map_user_addr (pts p) old_brk buf_phy (aligned_size div of_nat PAGE_SIZE)) (\<lambda>t.
           Inr (Ret 0, p\<lparr>pts := t\<rparr>, a, store_u64 m ptr old_brk))))"

section \<open>Dispatch\<close>

datatype SyscallFunc = SysRead | SysWrite | SysOpen | SysClose | SysExit | SysYield | SysAnonAllocate

definition syscall_table :: "SyscallFunc option list" where
  "syscall_table = [None, Some SysRead, Some SysWrite, Some SysOpen, Some SysClose, Some SysExit, Some SysYield, Some SysAnonAllocate]"

fun call :: "SyscallFunc \<Rightarrow> IntRadix \<Rightarrow> Process \<Rightarrow> BuddyAllocator \<Rightarrow> mem \<Rightarrow> (sys_ret \<times> Process \<times> BuddyAllocator \<times> mem \<times> char list) res" where
  "call SysRead radix p a m = Inr (sys_read, p, a, m, [])"
| "call SysWrite radix p a m = bindR (sys_write radix p m) (\<lambda>(r, out). Inr (r, p, a, m, out))"
| "call SysOpen radix p a m = Inr (sys_open, p, a, m, [])"
| "call SysClose radix p a m = Inr (sys_close, p, a, m, [])"
| "call SysExit radix p a m = Inr (sys_exit, p, a, m, [])"
| "call SysYield radix p a m = Inr (sys_yield, p, a, m, [])"
| "call SysAnonAllocate radix p a m = bindR (sys_anon_allocate p a m) (\<lambda>(r, p, a, m). Inr (r, p, a, m, []))"

text \<open>The lines that \<^verbatim>\<open>sys_exit\<close> and \<^verbatim>\<open>sys_anon_allocate\<close> print about themselves are left out.  The state after the call, unless the machine was halted, and the output.\<close>

definition handle_syscall :: "IntRadix \<Rightarrow> kstate \<Rightarrow> nat \<Rightarrow> mem \<Rightarrow> ((kstate \<times> mem) option \<times> char list) res" where
  "handle_syscall radix s pid m =
     bindR (the_process s pid) (\<lambda>p.
     let syscall_num = c_rax (proc_context p) in
     if syscall_num = SYSCALL_NR_NULL then Inl (Panic ''Invalid null syscall'')
     else if syscall_num \<ge> SYSCALL_NR_MAX then Inl (Panic ''Invalid syscall >= max'')
     else case syscall_table ! unat syscall_num of
            None \<Rightarrow> Inl (Undefined ''null member pointer'')
          | Some f \<Rightarrow> bindR (call f radix p (allocator s) m) (\<lambda>(r, p, a, m, out).
              case r of
                Halted \<Rightarrow> Inr (None, out)
              | Ret v \<Rightarrow> Inr (Some (put_process (s\<lparr>allocator := a\<rparr>) pid (p\<lparr>proc_context := (proc_context p)\<lparr>c_rax := scast v\<rparr>\<rparr>), m), out)))"

section \<open>Allocation of memory\<close>

lemma aligned_up_eq:
  assumes "unat sz + 4095 < 2 ^ 64"
  shows "unat (aligned_up sz) = (unat sz + 4095) div 4096 * 4096" "4096 dvd unat (aligned_up sz)"
    "unat (aligned_up sz div of_nat PAGE_SIZE) = (unat sz + 4095) div 4096"
proof -
  have s: "unat (sz + 4095) = unat sz + 4095" using assms by (simp add: unat_word_ariths)
  have le: "(unat sz + 4095) div 4096 * 4096 \<le> unat sz + 4095" by simp
  then have m: "(unat sz + 4095) div 4096 * 4096 < 2 ^ 64" using assms by linarith
  show u: "unat (aligned_up sz) = (unat sz + 4095) div 4096 * 4096"
    using m by (simp add: aligned_up_def unat_word_ariths(2) unat_div s)
  then show "4096 dvd unat (aligned_up sz)" by simp
  show "unat (aligned_up sz div of_nat PAGE_SIZE) = (unat sz + 4095) div 4096" by (simp add: unat_div u)
qed

lemma aligned_up_huge: "2 ^ 64 - 4095 \<le> unat sz \<Longrightarrow> aligned_up sz = 0"
proof -
  assume a: "2 ^ 64 - 4095 \<le> unat sz"
  have lt: "unat sz < 2 ^ LENGTH(64)" by (rule unsigned_less)
  have "unat (sz + 4095) = (unat sz + 4095) mod 2 ^ 64" by (simp add: unat_word_ariths)
  also have "\<dots> = unat sz + 4095 - 2 ^ 64" using a lt by (simp add: mod_if)
  finally have "unat (sz + 4095) < 4096" using lt by simp
  then have "unat ((sz + 4095) div 4096) = 0" by (simp add: unat_div)
  then have "(sz + 4095) div 4096 = 0" by (simp only: unat_eq_0)
  then show ?thesis by (simp add: aligned_up_def)
qed

lemma load_le_bytes:
  assumes "\<And>i. i < n \<Longrightarrow> m (a + of_nat i) = byte_of v i"
  shows "load_le m a n = take_bit (8 * n) (v :: 'a::len word)"
proof -
  have "foldr (\<lambda>i w. ucast (m (a + of_nat i)) OR push_bit 8 w) [k..<n] 0 = drop_bit (8 * k) (take_bit (8 * n) v)" if "k \<le> n" for k
    using that
  proof (induction "n - k" arbitrary: k)
    case 0
    then have "k = n" by simp
    then show ?case by (intro bit_word_eqI) (auto simp: bit_simps)
  next
    case (Suc d)
    then have k: "k < n" by simp
    have "foldr (\<lambda>i w. ucast (m (a + of_nat i)) OR push_bit 8 w) [Suc k..<n] 0 = drop_bit (8 * Suc k) (take_bit (8 * n) v)"
      using Suc by (intro Suc.hyps) auto
    then have "foldr (\<lambda>i w. ucast (m (a + of_nat i)) OR push_bit 8 w) [k..<n] 0 =
        ucast (byte_of v k) OR push_bit 8 (drop_bit (8 * Suc k) (take_bit (8 * n) v))"
      using k assms by (simp add: upt_conv_Cons)
    also have "\<dots> = drop_bit (8 * k) (take_bit (8 * n) v)"
    proof (rule bit_word_eqI)
      fix j assume j: "j < LENGTH('a)"
      show "bit (ucast (byte_of v k) OR push_bit 8 (drop_bit (8 * Suc k) (take_bit (8 * n) v))) j = bit (drop_bit (8 * k) (take_bit (8 * n) v)) j"
        using j k by (cases "j < 8") (auto simp: byte_of_def bit_simps dest: bit_imp_le_length)
    qed
    finally show ?case .
  qed
  from this [of 0] show ?thesis by (simp add: load_le_def)
qed

lemma load_store_u64: "load_le (store_u64 m a v) a 8 = v"
proof -
  have "load_le (store_u64 m a v) a 8 = take_bit (8 * 8) v"
    by (rule load_le_bytes) (simp add: store_u64_def unat_of_nat)
  also have "\<dots> = v" by (rule bit_word_eqI) (simp add: bit_simps)
  finally show ?thesis .
qed

text \<open>A process whose tables are those of the constructor in the upper levels.\<close>

definition tables_ok :: "Process \<Rightarrow> bool" where
  "tables_ok p \<longleftrightarrow> leads_to (pml4t (pts p) 0) (unat (pts_paddr p) + 4096) \<and> leads_to (pdpt (pts p) 0) (unat (pts_paddr p) + 8192) \<and>
     (\<forall>q < 512. leads_to (pdt (pts p) q) (unat (pts_paddr p) + 12288 + 4096 * q)) \<and> unat (pts_paddr p) < 2 ^ 41"

definition user_space :: "Process \<Rightarrow> u64 \<Rightarrow> u64 option" where
  "user_space p v = translate (read_tables 512 PROCESS_MAX_USER_PAGES (unat (pts_paddr p)) (pts p)) (pts_paddr p) v"

lemma user_space_pt:
  assumes "tables_ok p" "unat v < 2 ^ 30"
  shows "user_space p v = (let e = pt (pts p) (unat v div 4096) in
    if pe_p e then Some (push_bit 12 (drop_bit 12 (pte_bits e)) + (v AND 0xfff)) else None)"
proof -
  have "unat (pts_paddr p) + 2 ^ 30 < 2 ^ 64" using assms(1) by (simp add: tables_ok_def)
  with user_translate [of "pts p" "unat (pts_paddr p)" v] assms show ?thesis by (simp add: user_space_def tables_ok_def)
qed

lemma anon_allocate_fits:
  assumes p: "tables_ok p" "frames_ok a" "4096 dvd unat (brk_start p)" "unat (brk_end p) \<le> 2 ^ 30"
    and sz: "unat (c_rdi (proc_context p)) + 4095 < 2 ^ 64"
      "unat (brk_start p) + unat (aligned_up (c_rdi (proc_context p))) \<le> unat (brk_end p)"
    and free: "\<forall>k < unat (aligned_up (c_rdi (proc_context p))) div 4096. pt (pts p) (unat (brk_start p) div 4096 + k) = zero_entry"
  shows "\<exists>p' a' f. sys_anon_allocate p a m = Inr (Ret 0, p', a', store_u64 m (c_rsi (proc_context p)) (brk_start p)) \<and>
    brk_start p' = brk_start p + aligned_up (c_rdi (proc_context p)) \<and>
    kmalloc a (aligned_up (c_rdi (proc_context p))) = Inr (KERNEL_START + f, a') \<and>
    (\<forall>v. unat v < 2 ^ 30 \<longrightarrow> user_space p' v =
       (if unat (brk_start p) \<le> unat v \<and> unat v < unat (brk_start p) + unat (aligned_up (c_rdi (proc_context p)))
        then Some (f + (v - brk_start p)) else user_space p v))"
proof -
  let ?al = "aligned_up (c_rdi (proc_context p))" and ?b = "unat (brk_start p)"
  note al = aligned_up_eq [OF sz(1)]
  obtain f a' where f: "kmalloc a ?al = Inr (KERNEL_START + f, a')" "frames_ok a'" "4096 dvd unat f" "unat f < 2 ^ 41"
    using kmalloc_frame [OF p(2)] by blast
  have n: "unat (?al div of_nat PAGE_SIZE) = unat ?al div 4096" "4096 * (unat ?al div 4096) = unat ?al" using al by simp_all
  have fit: "?b + 4096 * unat (?al div of_nat PAGE_SIZE) \<le> 2 ^ 30" using sz(2) p(4) n by simp
  obtain t where t: "map_user_addr (pts p) (brk_start p) f (?al div of_nat PAGE_SIZE) = Inr t" "pml4t t = pml4t (pts p)"
    "pdpt t = pdpt (pts p)" "pdt t = pdt (pts p)"
    "\<And>k. pt t k = (if ?b div 4096 \<le> k \<and> k < ?b div 4096 + unat (?al div of_nat PAGE_SIZE)
       then user_entry (drop_bit 12 f + of_nat (k - ?b div 4096)) (pt (pts p) k) else pt (pts p) k)"
    by (rule map_user_addr_ok [OF fit p(3), of "pts p" f]) blast
  let ?p' = "p\<lparr>brk_start := brk_start p + ?al, pts := t\<rparr>"
  have le: "\<not> brk_start p + ?al > brk_end p"
    using sz(2) p(4) by (simp add: word_less_nat_alt unat_word_ariths)
  have call: "sys_anon_allocate p a m = Inr (Ret 0, ?p', a', store_u64 m (c_rsi (proc_context p)) (brk_start p))"
    using f(1) le t(1) by (simp add: sys_anon_allocate_def Let_def)
  have ok': "tables_ok ?p'" using p(1) t by (simp add: tables_ok_def)
  have "user_space ?p' v = (if ?b \<le> unat v \<and> unat v < ?b + unat ?al then Some (f + (v - brk_start p)) else user_space p v)"
    if v: "unat v < 2 ^ 30" for v
  proof (cases "?b \<le> unat v \<and> unat v < ?b + unat ?al")
    case True
    have e: "pt t (?b div 4096 + k) = user_entry (drop_bit 12 f + of_nat k) zero_entry" if "k < unat ?al div 4096" for k
      unfolding t(5) n(1) using free that by simp
    have "unat ?al div 4096 \<le> 2 ^ 20" using sz(2) p(4) by simp
    then have "(let e = pt t (unat v div 4096) in if pe_p e then Some (push_bit 12 (drop_bit 12 (pte_bits e)) + (v AND 0xfff)) else None) =
        Some (f + (v - of_nat ?b))"
      using True n(2) by (intro mapped_page [OF f(3,4) p(3) _ _ _ e]) auto
    then show ?thesis using True by (subst user_space_pt [OF ok' v]) simp
  next
    case False
    have "\<not> (?b div 4096 \<le> unat v div 4096 \<and> unat v div 4096 < ?b div 4096 + unat ?al div 4096)"
      using False p(3) n(2) by (auto elim!: dvdE simp: div_less_iff_less_mult)
    then have "pt t (unat v div 4096) = pt (pts p) (unat v div 4096)" unfolding t(5) n(1) by (rule if_not_P)
    then have "user_space ?p' v = user_space p v" by (simp add: user_space_pt [OF ok' v] user_space_pt [OF p(1) v])
    then show ?thesis unfolding if_not_P [OF False] .
  qed
  then show ?thesis using call f(1) by (intro exI [of _ ?p'] exI [of _ a'] exI [of _ f]) simp
qed

lemma anon_allocate_overflow:
  assumes "frames_ok a" "brk_start p + aligned_up (c_rdi (proc_context p)) > brk_end p"
  shows "\<exists>a'. sys_anon_allocate p a m = Inr (Ret (- 1), p\<lparr>brk_start := brk_start p + aligned_up (c_rdi (proc_context p))\<rparr>, a', m) \<and> frames_ok a'"
proof -
  obtain f a' where f: "kmalloc a (aligned_up (c_rdi (proc_context p))) = Inr (KERNEL_START + f, a')" "frames_ok a'"
    using kmalloc_frame [OF assms(1)] by blast
  then show ?thesis using assms(2) by (simp add: sys_anon_allocate_def Let_def)
qed

lemma sys_anon_allocate_frames:
  assumes "frames_ok a" "sys_anon_allocate p a m = Inr (r, p', a', m')"
  shows "frames_ok a'" "proc_id p' = proc_id p" "proc_state p' = proc_state p"
proof -
  obtain f a1 where f: "kmalloc a (aligned_up (c_rdi (proc_context p))) = Inr (KERNEL_START + f, a1)" "frames_ok a1"
    using kmalloc_frame [OF assms(1)] by blast
  show "frames_ok a'" "proc_id p' = proc_id p" "proc_state p' = proc_state p"
    using assms(2) f by (auto simp: sys_anon_allocate_def Let_def outcome split: if_splits)
qed

lemma call_frames:
  assumes "frames_ok a" "call f radix p a m = Inr (r, p', a', m', out)"
  shows "frames_ok a' \<and> proc_id p' = proc_id p \<and> proc_state p' = proc_state p"
proof (cases f)
  case SysAnonAllocate
  then show ?thesis using assms sys_anon_allocate_frames [OF assms(1)] by (auto simp: outcome)
qed (use assms in \<open>auto simp: outcome\<close>)

section \<open>Properties\<close>

text \<open>C23: an anonymous allocation that fits returns 0, stores the old break at the caller's pointer, moves the break by
  the size rounded up to pages, and maps exactly the new pages, to the buffer it took from the page
  allocator; every other user address is translated as before.\<close>

theorem anon_allocate_maps:
  assumes "tables_ok p" "frames_ok a" "4096 dvd unat (brk_start p)" "unat (brk_end p) \<le> 2 ^ 30"
    and "unat (c_rdi (proc_context p)) + 4095 < 2 ^ 64"
      "unat (brk_start p) + unat (aligned_up (c_rdi (proc_context p))) \<le> unat (brk_end p)"
    and "\<forall>k < unat (aligned_up (c_rdi (proc_context p))) div 4096. pt (pts p) (unat (brk_start p) div 4096 + k) = zero_entry"
  shows "\<exists>p' a' m' f. sys_anon_allocate p a m = Inr (Ret 0, p', a', m') \<and>
    load_le m' (c_rsi (proc_context p)) 8 = brk_start p \<and>
    unat (brk_start p') = unat (brk_start p) + (unat (c_rdi (proc_context p)) + 4095) div 4096 * 4096 \<and>
    kmalloc a (aligned_up (c_rdi (proc_context p))) = Inr (KERNEL_START + f, a') \<and>
    (\<forall>v. unat v < 2 ^ 30 \<longrightarrow> user_space p' v =
       (if unat (brk_start p) \<le> unat v \<and> unat v < unat (brk_start p') then Some (f + (v - brk_start p)) else user_space p v))"
proof -
  note al = aligned_up_eq [OF assms(5)]
  obtain p' a' f where c: "sys_anon_allocate p a m = Inr (Ret 0, p', a', store_u64 m (c_rsi (proc_context p)) (brk_start p))"
    and b: "brk_start p' = brk_start p + aligned_up (c_rdi (proc_context p))"
    and k: "kmalloc a (aligned_up (c_rdi (proc_context p))) = Inr (KERNEL_START + f, a')"
    and tr: "\<forall>v. unat v < 2 ^ 30 \<longrightarrow> user_space p' v =
       (if unat (brk_start p) \<le> unat v \<and> unat v < unat (brk_start p) + unat (aligned_up (c_rdi (proc_context p)))
        then Some (f + (v - brk_start p)) else user_space p v)"
    using anon_allocate_fits [OF assms, of m] by blast
  have u: "unat (brk_start p') = unat (brk_start p) + unat (aligned_up (c_rdi (proc_context p)))"
    using assms(4,6) by (simp add: b unat_word_ariths)
  show ?thesis
    using c k tr u al(1) load_store_u64 [of m "c_rsi (proc_context p)" "brk_start p"] by (intro exI conjI) auto
qed

text \<open>The error paths of an anonymous allocation.  A request that does not fit returns -1, but the break stays moved and the
  memory taken for it is not given back, so that from then on every request fails as long as the sum does not
  wrap.  A request in the last page of the address range is rounded to 0 and succeeds without
  mapping anything.\<close>

theorem anon_allocate_errors:
  assumes "frames_ok a"
  shows "(brk_start p + aligned_up (c_rdi (proc_context p)) > brk_end p \<longrightarrow>
      (\<exists>p' a'. sys_anon_allocate p a m = Inr (Ret (- 1), p', a', m) \<and> pts p' = pts p \<and>
         brk_start p' = brk_start p + aligned_up (c_rdi (proc_context p)) \<and>
         (\<forall>c. brk_start p' \<le> brk_start p' + aligned_up (c_rdi c) \<longrightarrow>
            (\<exists>p'' a''. sys_anon_allocate (p'\<lparr>proc_context := c\<rparr>) a' m = Inr (Ret (- 1), p'', a'', m))))) \<and>
    (2 ^ 64 - 4095 \<le> unat (c_rdi (proc_context p)) \<and> brk_start p \<le> brk_end p \<longrightarrow>
      (\<exists>p' a' m'. sys_anon_allocate p a m = Inr (Ret 0, p', a', m') \<and> pts p' = pts p \<and> brk_start p' = brk_start p))"
proof (intro conjI impI)
  assume over: "brk_start p + aligned_up (c_rdi (proc_context p)) > brk_end p"
  obtain a' where a': "sys_anon_allocate p a m =
      Inr (Ret (- 1), p\<lparr>brk_start := brk_start p + aligned_up (c_rdi (proc_context p))\<rparr>, a', m)" "frames_ok a'"
    using anon_allocate_overflow [OF assms over] by blast
  let ?p = "p\<lparr>brk_start := brk_start p + aligned_up (c_rdi (proc_context p))\<rparr>"
  have "\<exists>p'' a''. sys_anon_allocate (?p\<lparr>proc_context := c\<rparr>) a' m = Inr (Ret (- 1), p'', a'', m)"
    if "brk_start ?p \<le> brk_start ?p + aligned_up (c_rdi c)" for c
  proof -
    have "brk_end p < brk_start ?p + aligned_up (c_rdi c)" using over that by (auto intro: less_le_trans)
    then show ?thesis using anon_allocate_overflow [OF a'(2), of "?p\<lparr>proc_context := c\<rparr>" m] by auto
  qed
  then show "\<exists>p' a'. sys_anon_allocate p a m = Inr (Ret (- 1), p', a', m) \<and> pts p' = pts p \<and>
      brk_start p' = brk_start p + aligned_up (c_rdi (proc_context p)) \<and>
      (\<forall>c. brk_start p' \<le> brk_start p' + aligned_up (c_rdi c) \<longrightarrow>
         (\<exists>p'' a''. sys_anon_allocate (p'\<lparr>proc_context := c\<rparr>) a' m = Inr (Ret (- 1), p'', a'', m)))"
    using a'(1) by (intro exI [of _ ?p] exI [of _ a']) auto
next
  assume h: "2 ^ 64 - 4095 \<le> unat (c_rdi (proc_context p)) \<and> brk_start p \<le> brk_end p"
  then have z: "aligned_up (c_rdi (proc_context p)) = 0" by (intro aligned_up_huge) simp
  obtain f a' where f: "kmalloc a 0 = Inr (KERNEL_START + f, a')" using kmalloc_frame [OF assms, of 0] by blast
  have "\<not> brk_end p < brk_start p" using h by auto
  then show "\<exists>p' a' m'. sys_anon_allocate p a m = Inr (Ret 0, p', a', m') \<and> pts p' = pts p \<and> brk_start p' = brk_start p"
    using f by (simp add: sys_anon_allocate_def Let_def z map_user_addr_def)
qed

lemma syscall_table_nth:
  assumes "0 < n" "n < 8"
  shows "\<exists>f. syscall_table ! n = Some f"
proof -
  have "n = 1 \<or> n = 2 \<or> n = 3 \<or> n = 4 \<or> n = 5 \<or> n = 6 \<or> n = 7" using assms by linarith
  then show ?thesis by (elim disjE) (simp_all add: syscall_table_def)
qed

lemma handle_syscall_kernel_ok:
  assumes ok: "kernel_ok s" and p: "processes s pid = Some p" and r: "handle_syscall radix s pid m = Inr (Some (s', m'), out)"
  shows "kernel_ok s' \<and> next_pid s' = next_pid s \<and> current_pid s' = current_pid s \<and> (\<forall>q. q \<noteq> pid \<longrightarrow> processes s' q = processes s q)"
proof -
  let ?n = "c_rax (proc_context p)"
  have pid: "1 \<le> pid" "pid < next_pid s" "proc_id p = pid" using ok p unfolding kernel_ok_def table_ok_def by blast+
  then have tp: "the_process s pid = Inr p" using the_process_ok [of s pid] ok p by (auto simp: kernel_ok_def)
  have n: "?n \<noteq> 0" "\<not> 8 \<le> ?n" using r tp by (auto simp: handle_syscall_def Let_def syscall_nr split: if_splits)
  then obtain f where f: "syscall_table ! unat ?n = Some f" using syscall_table_nth [of "unat ?n"] by (auto simp: word_le_nat_alt unat_gt_0)
  obtain v p' a' where c: "call f radix p (allocator s) m = Inr (Ret v, p', a', m', out)"
    and s': "s' = put_process (s\<lparr>allocator := a'\<rparr>) pid (p'\<lparr>proc_context := (proc_context p')\<lparr>c_rax := scast v\<rparr>\<rparr>)"
  proof -
    have b: "bindR (call f radix p (allocator s) m) (\<lambda>(r, p, a, m, out). case r of Halted \<Rightarrow> Inr (None, out)
        | Ret v \<Rightarrow> Inr (Some (put_process (s\<lparr>allocator := a\<rparr>) pid (p\<lparr>proc_context := (proc_context p)\<lparr>c_rax := scast v\<rparr>\<rparr>), m), out)) =
      Inr (Some (s', m'), out)" using r tp n f by (simp add: handle_syscall_def Let_def syscall_nr)
    then obtain w p' a' mm oo where c: "call f radix p (allocator s) m = Inr (w, p', a', mm, oo)" by (auto simp: outcome)
    then show thesis using b that by (cases w) auto
  qed
  have fr: "frames_ok a'" "proc_id p' = pid""proc_state p' = proc_state p"
    using call_frames [OF _ c] ok pid(3) by (auto simp: kernel_ok_def)
  have "table_ok s'" unfolding s' using ok p fr by (intro table_ok_put [of _ _ p]) (auto simp: kernel_ok_def table_ok_def)
  moreover have "current_ok s'"
  proof -
    have "q = current_pid s" if "processes s' q = Some r" "proc_state r = Running" for q r
      using that ok p fr unfolding kernel_ok_def current_ok_def s' by (cases "q = pid") auto
    moreover have cs: "current_pid s' = current_pid s" "next_pid s' = next_pid s" by (simp_all add: s')
    moreover have "1 \<le> current_pid s" "current_pid s < next_pid s" using ok by (auto simp: kernel_ok_def current_ok_def)
    ultimately show ?thesis unfolding current_ok_def cs by blast
  qed
  ultimately show ?thesis using fr by (simp add: kernel_ok_def s')
qed


lemma new_process_ready:
  assumes "frames_ok a" "4096 dvd unat kpdpt" "unat kpdpt < 2 ^ 52"
  shows "\<exists>p a'. process_new raw kpdpt entry a this pid ph = Inr (p, a') \<and> frames_ok a' \<and> tables_ok p \<and>
    unat (brk_start p) = 0x1000000 \<and> unat (brk_end p) = 0x2000000 \<and> (\<forall>k < 4096. pt (pts p) (4096 + k) = zero_entry)"
proof -
  obtain p a' where p: "process_new raw kpdpt entry a this pid ph = Inr (p, a')" "frames_ok a'" "brk_start p = USER_BRK_START"
      "brk_end p = USER_BRK_START + USER_BRK_SIZE"
    and base: "4096 dvd unat (pts_paddr p)" "unat (pts_paddr p) < 2 ^ 41"
    and t: "pml4t (pts p) = pml4t (init_pts kpdpt (pts_paddr p))" "pdpt (pts p) = pdpt (init_pts kpdpt (pts_paddr p))"
      "pdt (pts p) = pdt (init_pts kpdpt (pts_paddr p))" "pt (pts p) = process_pt (user_image_phy_addr p) (user_stack_phy_addr p)"
    by (rule process_new_ok [OF assms(1), of raw kpdpt entry this pid ph])
  have b51: "unat (pts_paddr p) < 2 ^ 51" using base(2) by simp
  note lv = init_pts_levels [OF base(1) b51 assms(2,3), folded t]
  have "tables_ok p" using lv base(2) by (simp add: tables_ok_def)
  moreover have "pt (pts p) (4096 + k) = zero_entry" if "k < 4096" for k using that by (simp add: t(4) process_pt_def)
  ultimately show ?thesis using p by (auto simp: USER_BRK_START_def USER_BRK_SIZE_def)
qed

lemma tables_ok_context [simp]: "tables_ok (p\<lparr>proc_context := c\<rparr>) = tables_ok p"
  by (simp add: tables_ok_def)

theorem anon_allocate_maps_witness:
  "\<forall>raw c m. \<exists>a p a1 p' a' m'. buddy_allocator_init 0x4000000 30 = Inr a \<and> process_new raw 0x3000 0 a KERNEL_START 1 0 = Inr (p, a1) \<and>
     sys_anon_allocate (p\<lparr>proc_context := c\<lparr>c_rdi := 5000, c_rsi := 0x200000\<rparr>\<rparr>) a1 m = Inr (Ret 0, p', a', m') \<and>
     load_le m' 0x200000 8 = brk_start p \<and> unat (brk_start p') = 0x1002000"
proof (intro allI)
  fix raw c m
  obtain a where a: "buddy_allocator_init 0x4000000 30 = Inr a" "frames_ok a" using initial_frames_ok by blast
  obtain p a1 where p: "process_new raw 0x3000 0 a KERNEL_START 1 0 = Inr (p, a1)" "frames_ok a1" "tables_ok p"
    "unat (brk_start p) = 0x1000000" "unat (brk_end p) = 0x2000000" "\<forall>k < 4096. pt (pts p) (4096 + k) = zero_entry"
    using new_process_ready [OF a(2), of "0x3000" raw 0 KERNEL_START 1 0] by auto
  have "unat (aligned_up 5000) = 8192" using aligned_up_eq(1) [of 5000] by simp
  then obtain p' a' m' where "sys_anon_allocate (p\<lparr>proc_context := c\<lparr>c_rdi := 5000, c_rsi := 0x200000\<rparr>\<rparr>) a1 m = Inr (Ret 0, p', a', m')"
    "load_le m' 0x200000 8 = brk_start p" "unat (brk_start p') = 0x1002000"
    using anon_allocate_maps [of "p\<lparr>proc_context := c\<lparr>c_rdi := 5000, c_rsi := 0x200000\<rparr>\<rparr>" a1 m] p by auto
  then show "\<exists>a p a1 p' a' m'. buddy_allocator_init 0x4000000 30 = Inr a \<and> process_new raw 0x3000 0 a KERNEL_START 1 0 = Inr (p, a1) \<and>
     sys_anon_allocate (p\<lparr>proc_context := c\<lparr>c_rdi := 5000, c_rsi := 0x200000\<rparr>\<rparr>) a1 m = Inr (Ret 0, p', a', m') \<and>
     load_le m' 0x200000 8 = brk_start p \<and> unat (brk_start p') = 0x1002000"
    using a(1) p(1) by blast
qed

theorem anon_allocate_errors_witness:
  "\<forall>raw c m. \<exists>a p a1 p' a'. buddy_allocator_init 0x4000000 30 = Inr a \<and> process_new raw 0x3000 0 a KERNEL_START 1 0 = Inr (p, a1) \<and>
     sys_anon_allocate (p\<lparr>proc_context := c\<lparr>c_rdi := 0x2000000\<rparr>\<rparr>) a1 m = Inr (Ret (- 1), p', a', m) \<and> unat (brk_start p') = 0x3000000"
proof (intro allI)
  fix raw c m
  obtain a where a: "buddy_allocator_init 0x4000000 30 = Inr a" "frames_ok a" using initial_frames_ok by blast
  obtain p a1 where p: "process_new raw 0x3000 0 a KERNEL_START 1 0 = Inr (p, a1)" "frames_ok a1"
    "unat (brk_start p) = 0x1000000" "unat (brk_end p) = 0x2000000"
    using new_process_ready [OF a(2), of "0x3000" raw 0 KERNEL_START 1 0] by auto
  have u: "unat (aligned_up 0x2000000) = 0x2000000" using aligned_up_eq(1) [of "0x2000000"] by simp
  have s: "unat (brk_start p + aligned_up 0x2000000) = 0x3000000" by (simp add: unat_word_ariths u p(3))
  have "brk_end p < brk_start p + aligned_up 0x2000000" unfolding word_less_nat_alt s p(4) by simp
  then obtain p' a' where "sys_anon_allocate (p\<lparr>proc_context := c\<lparr>c_rdi := 0x2000000\<rparr>\<rparr>) a1 m = Inr (Ret (- 1), p', a', m)"
    "brk_start p' = brk_start p + aligned_up 0x2000000"
    using anon_allocate_errors [OF p(2), of "p\<lparr>proc_context := c\<lparr>c_rdi := 0x2000000\<rparr>\<rparr>" m] by auto
  then show "\<exists>a p a1 p' a'. buddy_allocator_init 0x4000000 30 = Inr a \<and> process_new raw 0x3000 0 a KERNEL_START 1 0 = Inr (p, a1) \<and>
     sys_anon_allocate (p\<lparr>proc_context := c\<lparr>c_rdi := 0x2000000\<rparr>\<rparr>) a1 m = Inr (Ret (- 1), p', a', m) \<and> unat (brk_start p') = 0x3000000"
    using a(1) p(1) s by auto
qed


end
