(* ===== verification/Unwind.thy ===== *)
theory Unwind
  imports Small_Vec
begin

text \<open>
  \<^verbatim>\<open>common/unwind.cpp\<close> and \<^verbatim>\<open>include/common/unwind.hpp\<close>: the walk along the chain of saved frame pointers.
  \<open>rd\<close> is the 8-byte load from memory; the callback is a function on a state of the
  caller's choice that also says whether to go on.
\<close>

section \<open>Operations\<close>

record Unwind =
  uw_rbp :: u64
  uw_valid_stacks :: "(u64 \<times> u64) SmallVec"
  uw_kthread_stack_range :: "u64 \<times> u64"

definition in_stack :: "u64 \<Rightarrow> u64 \<times> u64 \<Rightarrow> bool" where
  "in_stack rbp r = (fst r \<le> rbp \<and> rbp + 16 \<le> snd r)"

definition ValidRbp :: "Unwind \<Rightarrow> u64 \<Rightarrow> bool" where
  "ValidRbp u rbp = (if in_stack rbp (uw_kthread_stack_range u) then True else list_ex (in_stack rbp) (sv_list (uw_valid_stacks u)))"

partial_function (option) Iterate :: "(u64 \<Rightarrow> u64) \<Rightarrow> ('s \<Rightarrow> u64 \<Rightarrow> u64 \<Rightarrow> bool \<times> 's) \<Rightarrow> Unwind \<Rightarrow> 's \<Rightarrow> (Unwind \<times> 's) option" where
  "Iterate rd callback u s =
     (if \<not> ValidRbp u (uw_rbp u) then Some (u, s)
      else let prev_rbp = rd (uw_rbp u); ret_addr = rd (uw_rbp u + 8); r = callback s prev_rbp ret_addr
           in if \<not> fst r then Some (u, snd r)
              else Iterate rd callback (u\<lparr>uw_rbp := prev_rbp\<rparr>) (snd r))"

section \<open>Valid frames\<close>

lemma in_stack_exact:
  assumes "unat rbp + 16 < 2 ^ 64"
  shows "in_stack rbp r \<longleftrightarrow> unat (fst r) \<le> unat rbp \<and> unat rbp + 16 \<le> unat (snd r)"
proof -
  have "unat (rbp + 16) = unat rbp + 16" using assms by (simp add: unat_word_ariths)
  then show ?thesis by (simp add: in_stack_def word_le_nat_alt)
qed

text \<open>The set of addresses whose 16 bytes lie in one of the stacks.\<close>

definition stack_frames :: "Unwind \<Rightarrow> u64 set" where
  "stack_frames u = {rbp. \<exists>r \<in> insert (uw_kthread_stack_range u) (set (sv_list (uw_valid_stacks u))).
     unat (fst r) \<le> unat rbp \<and> unat rbp + 16 \<le> unat (snd r)}"

text \<open>For a frame pointer at least 16 below the end of the address space, the check accepts exactly the frames
  whose two words lie inside one of the known stacks.  In the last 16 bytes the sum wraps and
  any frame pointer at or above the start of a nonempty stack at most that high is accepted.\<close>

theorem ValidRbp_exact:
  "(unat rbp + 16 < 2 ^ 64 \<longrightarrow> ValidRbp u rbp = (rbp \<in> stack_frames u)) \<and>
   (2 ^ 64 \<le> unat rbp + 16 \<longrightarrow> fst (uw_kthread_stack_range u) \<le> rbp \<longrightarrow> 16 \<le> snd (uw_kthread_stack_range u) \<longrightarrow>
      ValidRbp u rbp \<and> rbp \<notin> stack_frames u)"
proof (intro conjI impI)
  assume "unat rbp + 16 < 2 ^ 64"
  then show "ValidRbp u rbp = (rbp \<in> stack_frames u)"
    by (auto simp: ValidRbp_def stack_frames_def in_stack_exact list_ex_iff)
next
  assume w: "2 ^ 64 \<le> unat rbp + 16" and r: "fst (uw_kthread_stack_range u) \<le> rbp" "16 \<le> snd (uw_kthread_stack_range u)"
  have lt: "unat rbp < 2 ^ 64" using unsigned_less [of rbp] by simp
  have "unat (rbp + 16) = (unat rbp + 16) mod 2 ^ 64" by (simp add: unat_word_ariths)
  also have "\<dots> = unat rbp + 16 - 2 ^ 64" using w lt by (simp add: mod_if)
  finally have "unat (rbp + 16) \<le> 16" using lt by simp
  then have "rbp + 16 \<le> snd (uw_kthread_stack_range u)" using r(2) by (simp add: word_le_nat_alt)
  then show "ValidRbp u rbp" using r by (simp add: ValidRbp_def in_stack_def)
next
  assume w: "2 ^ 64 \<le> unat rbp + 16"
  have "unat y < 2 ^ 64" for y :: u64 using unsigned_less [of y] by simp
  then have "\<not> unat rbp + 16 \<le> unat y" for y :: u64 using w by (meson leD le_trans)
  then show "rbp \<notin> stack_frames u" by (simp add: stack_frames_def)
qed

theorem ValidRbp_exact_witness:
  "(ValidRbp \<lparr>uw_rbp = 0, uw_valid_stacks = sv_new 32 (\<lambda>_. (0, 0)), uw_kthread_stack_range = (0x1000, 0x2000)\<rparr> 0x1ff0 \<longleftrightarrow>
    0x1ff0 \<in> stack_frames \<lparr>uw_rbp = 0, uw_valid_stacks = sv_new 32 (\<lambda>_. (0, 0)), uw_kthread_stack_range = (0x1000, 0x2000)\<rparr>) \<and>
   ValidRbp \<lparr>uw_rbp = 0, uw_valid_stacks = sv_new 32 (\<lambda>_. (0, 0)), uw_kthread_stack_range = (0x1000, 0x2000)\<rparr> 0xfffffffffffffff8"
  using ValidRbp_exact [of "0x1ff0" "\<lparr>uw_rbp = 0, uw_valid_stacks = sv_new 32 (\<lambda>_. (0, 0)), uw_kthread_stack_range = (0x1000, 0x2000)\<rparr>"]
    ValidRbp_exact [of "0xfffffffffffffff8" "\<lparr>uw_rbp = 0, uw_valid_stacks = sv_new 32 (\<lambda>_. (0, 0)), uw_kthread_stack_range = (0x1000, 0x2000)\<rparr>"]
  by (simp add: word_le_nat_alt)

section \<open>The walk\<close>

definition frames_go_up :: "(u64 \<Rightarrow> u64) \<Rightarrow> Unwind \<Rightarrow> bool" where
  "frames_go_up rd u \<longleftrightarrow> unat (uw_rbp u) + 16 < 2 ^ 64 \<and>
     (\<forall>rbp \<in> stack_frames u. rbp < rd rbp \<and> unat (rd rbp) + 16 < 2 ^ 64)"

lemma Iterate_up: "frames_go_up rd u \<Longrightarrow> \<exists>res. Iterate rd callback u s = Some res"
proof (induction "2 ^ 64 - unat (uw_rbp u)" arbitrary: u s rule: less_induct)
  case less
  let ?rbp = "uw_rbp u"
  show ?case
  proof (cases "ValidRbp u ?rbp \<and> fst (callback s (rd ?rbp) (rd (?rbp + 8)))")
    case True
    then have "?rbp \<in> stack_frames u" using less.prems
      by (auto simp: frames_go_up_def ValidRbp_def stack_frames_def in_stack_exact list_ex_iff split: if_splits)
    then have up: "unat ?rbp < unat (rd ?rbp)" "unat (rd ?rbp) + 16 < 2 ^ 64"
      using less.prems by (auto simp: frames_go_up_def word_less_nat_alt)
    then have "2 ^ 64 - unat (rd ?rbp) < 2 ^ 64 - unat ?rbp" by linarith
    moreover have "frames_go_up rd (u\<lparr>uw_rbp := rd ?rbp\<rparr>)"
      using less.prems up(2) by (simp add: frames_go_up_def stack_frames_def)
    ultimately show ?thesis using less.hyps [of "u\<lparr>uw_rbp := rd ?rbp\<rparr>"] True by (subst Iterate.simps) (simp add: Let_def)
  next
    case False
    then show ?thesis by (subst Iterate.simps) (auto simp: Let_def)
  qed
qed

lemma Iterate_self:
  "Iterate rd callback u s = Some res \<Longrightarrow> (\<forall>s p a. fst (callback s p a)) \<Longrightarrow> ValidRbp u (uw_rbp u) \<Longrightarrow> rd (uw_rbp u) = uw_rbp u \<Longrightarrow> False"
proof (induction rule: Iterate.raw_induct [rotated 1, consumes 1])
  case (1 Iterate' rd callback u s res)
  have "Iterate' rd callback u (snd (callback s (uw_rbp u) (rd (uw_rbp u + 8)))) = Some res"
    using 1(2-) by (simp add: Let_def)
  then show ?case using 1 by blast
qed

text \<open>The walk ends if on the known stacks every saved frame pointer is above the frame it is saved in, as it is
  for the frames of a stack that grows down, and none is in the last bytes of the address space; it does
  not end if a frame names itself as its caller and the callback asks for more.\<close>

theorem Iterate_terminates:
  "(frames_go_up rd u \<longrightarrow> Iterate rd callback u s \<noteq> None) \<and>
   (ValidRbp u (uw_rbp u) \<and> rd (uw_rbp u) = uw_rbp u \<and> (\<forall>s p a. fst (callback s p a)) \<longrightarrow> Iterate rd callback u s = None)"
proof (intro conjI impI)
  show "frames_go_up rd u \<Longrightarrow> Iterate rd callback u s \<noteq> None" using Iterate_up [of rd u callback s] by auto
next
  assume a: "ValidRbp u (uw_rbp u) \<and> rd (uw_rbp u) = uw_rbp u \<and> (\<forall>s p a. fst (callback s p a))"
  show "Iterate rd callback u s = None"
  proof (cases "Iterate rd callback u s")
    case (Some r)
    then show ?thesis using Iterate_self [OF Some] a by blast
  qed simp
qed

theorem Iterate_terminates_witness:
  "Iterate (\<lambda>a. a + 16) (\<lambda>s p a. (True, a # s))
     \<lparr>uw_rbp = 0x1000, uw_valid_stacks = sv_new 32 (\<lambda>_. (0, 0)), uw_kthread_stack_range = (0x1000, 0x2000)\<rparr> [] \<noteq> None \<and>
   Iterate id (\<lambda>s p a. (True, a # s))
     \<lparr>uw_rbp = 0x1000, uw_valid_stacks = sv_new 32 (\<lambda>_. (0, 0)), uw_kthread_stack_range = (0x1000, 0x2000)\<rparr> [] = None"
proof
  let ?u = "\<lparr>uw_rbp = 0x1000, uw_valid_stacks = sv_new 32 (\<lambda>_. (0, 0)), uw_kthread_stack_range = (0x1000, 0x2000)\<rparr>"
  have "ValidRbp ?u 0x1000" by (simp add: ValidRbp_def in_stack_def word_le_nat_alt)
  then show "Iterate id (\<lambda>s p a. (True, a # s)) ?u [] = None"
    using Iterate_terminates [of id ?u "\<lambda>s p a. (True, a # s)" "[]"] by simp
  have "frames_go_up (\<lambda>a. a + 16) ?u"
    by (auto simp: frames_go_up_def stack_frames_def word_less_nat_alt unat_word_ariths)
  then show "Iterate (\<lambda>a. a + 16) (\<lambda>s p a. (True, a # s)) ?u [] \<noteq> None"
    using Iterate_terminates [of "\<lambda>a. a + 16" ?u "\<lambda>s p a. (True, a # s)" "[]"] by blast
qed

end
