(* ===== verification/Irq.thy ===== *)
theory Irq
  imports Syscalls Unwind
begin

text \<open>
  \<^verbatim>\<open>irq.cpp\<close>, \<^verbatim>\<open>include/irq.hpp\<close> and the interrupt descriptor of \<^verbatim>\<open>include/cpu_defs.h\<close>: the descriptor table, the
  registration of handlers and their dispatch.  The addresses of the assembly entry points are a
  parameter; a handler is a function on the state of the kernel that may halt the machine.
\<close>

section \<open>Descriptors\<close>

record InterruptDescriptor =
  offset_lo16 :: u16
  gate_selector :: u16
  gate_ist :: "4 word"
  gate_type :: "4 word"
  gate_dpl :: "2 word"
  gate_p :: bool
  offset_mid16 :: u16
  offset_hi32 :: u32

definition zero_gate :: InterruptDescriptor where
  "zero_gate = \<lparr>offset_lo16 = 0, gate_selector = 0, gate_ist = 0, gate_type = 0, gate_dpl = 0, gate_p = False,
     offset_mid16 = 0, offset_hi32 = 0\<rparr>"

text \<open>The two words of a gate in memory.\<close>

definition gate_bits :: "InterruptDescriptor \<Rightarrow> u64 \<times> u64" where
  "gate_bits d =
     (ucast (offset_lo16 d) OR push_bit 16 (ucast (gate_selector d)) OR push_bit 32 (ucast (gate_ist d)) OR
      push_bit 40 (ucast (gate_type d)) OR push_bit 45 (ucast (gate_dpl d)) OR push_bit 47 (of_bool (gate_p d)) OR
      push_bit 48 (ucast (offset_mid16 d)), ucast (offset_hi32 d))"

definition set_idt_offset :: "u64 \<Rightarrow> bool \<Rightarrow> InterruptDescriptor \<Rightarrow> InterruptDescriptor" where
  "set_idt_offset ptr user_mode desc =
     desc\<lparr>offset_lo16 := ucast (ptr AND 0xffff), offset_mid16 := ucast (drop_bit 16 ptr AND 0xffff),
       offset_hi32 := ucast (drop_bit 32 ptr AND 0xffffffff), gate_dpl := (if user_mode then 3 else 0)\<rparr>"

section \<open>The table\<close>

text \<open>The entry points: the default one, the named ones, and those of the vectors from \<^verbatim>\<open>0x40\<close> on.\<close>

datatype irq_entry = Default_irq | De_irq | Db_irq | Nmi_irq | Bp_irq | Of_irq | Br_irq | Ud_irq | Nm_irq | Df_irq | Ts_irq | Np_irq
  | Ss_irq | Gp_irq | Pf_irq | Timer_irq | Spurious_irq | Syscall_irq | Vector_irq nat

definition IRQ_SYSCALL :: nat where "IRQ_SYSCALL = 42"

definition MaxInterrupts :: nat where "MaxInterrupts = 256"

definition MaxHandlersPerInterrupt :: nat where "MaxHandlersPerInterrupt = 16"

text \<open>The calls of \<^verbatim>\<open>set_idt_offset\<close> after the loop, in their order.\<close>

definition idt_writes :: "(nat \<times> irq_entry \<times> bool) list" where
  "idt_writes =
     [(0, De_irq, False), (1, Db_irq, False), (2, Nmi_irq, False), (3, Bp_irq, True), (4, Of_irq, False), (5, Br_irq, False),
      (6, Ud_irq, False), (7, Nm_irq, False), (8, Df_irq, False), (10, Ts_irq, False), (11, Np_irq, False), (12, Ss_irq, False),
      (13, Gp_irq, False), (14, Pf_irq, False), (32, Timer_irq, False), (37, Spurious_irq, False), (42, Syscall_irq, True)] @
     map (\<lambda>v. (v, Vector_irq v, False)) [0x40..<0x51] @
     [(0x50, Vector_irq 0x51, False), (0x51, Vector_irq 0x52, False), (0x52, Vector_irq 0x53, False), (0x53, Vector_irq 0x54, False),
      (0x54, Vector_irq 0x55, False), (0x56, Vector_irq 0x56, False), (0x57, Vector_irq 0x57, False)]"

definition write_gate :: "(irq_entry \<Rightarrow> u64) \<Rightarrow> (nat \<Rightarrow> InterruptDescriptor) \<Rightarrow> nat \<times> irq_entry \<times> bool \<Rightarrow> nat \<Rightarrow> InterruptDescriptor" where
  "write_gate addr idt w = (case w of (v, e, user) \<Rightarrow> idt(v := set_idt_offset (addr e) user (idt v)))"

definition setup_idt :: "(irq_entry \<Rightarrow> u64) \<Rightarrow> u16 \<Rightarrow> u64 \<Rightarrow> nat \<Rightarrow> InterruptDescriptor" where
  "setup_idt addr selector default_handler =
     (let idt = for_upd MaxInterrupts (\<lambda>i e. (set_idt_offset default_handler False e)\<lparr>gate_selector := selector,
           gate_type := descriptor_type LongInterruptGate, gate_dpl := 0, gate_p := True\<rparr>) (\<lambda>_. zero_gate)
      in foldl (write_gate addr) idt idt_writes)"

section \<open>Handlers\<close>

record IrqHandlerInfo =
  irq_num :: nat
  error_code :: u64
  info_context :: nat
  info_pid :: nat

text \<open>The pointer to a context is represented by the id of the process it belongs to.\<close>

type_synonym 's handler = "IrqHandlerInfo \<Rightarrow> 's \<Rightarrow> 's option res"

type_synonym 's interrupts = "nat \<Rightarrow> 's handler SmallVec"

definition no_interrupts :: "'s interrupts" where
  "no_interrupts = (\<lambda>_. sv_new MaxHandlersPerInterrupt (\<lambda>_. undefined))"

definition Register :: "'s interrupts \<Rightarrow> nat \<Rightarrow> 's handler \<Rightarrow> 's interrupts res" where
  "Register ints n h =
     bindR (guardR (n < MaxInterrupts) ''interrupts_'') (\<lambda>_. bindR (sv_emplace_back (ints n) h) (\<lambda>v. Inr (ints(n := v))))"

fun Register_from :: "'s interrupts \<Rightarrow> nat list \<Rightarrow> 's handler \<Rightarrow> 's interrupts res" where
  "Register_from ints [] h = Inr ints"
| "Register_from ints (n # ns) h = bindR (Register ints n h) (\<lambda>ints'. Register_from ints' ns h)"

definition Register_range :: "'s interrupts \<Rightarrow> nat \<Rightarrow> nat \<Rightarrow> 's handler \<Rightarrow> 's interrupts res" where
  "Register_range ints start_id count h = Register_from ints (map (\<lambda>i. start_id + i) [0..<count]) h"

text \<open>The loop over the handlers of an interrupt; \<open>cur\<close> reads the current process id, which a handler may change.\<close>

fun run_handlers :: "('s \<Rightarrow> nat) \<Rightarrow> nat \<Rightarrow> u64 \<Rightarrow> nat \<Rightarrow> 's handler list \<Rightarrow> 's \<Rightarrow> 's option res" where
  "run_handlers cur n err ctx [] s = Inr (Some s)"
| "run_handlers cur n err ctx (h # hs) s =
     bindR (h \<lparr>irq_num = n, error_code = err, info_context = ctx, info_pid = cur s\<rparr> s)
       (\<lambda>r. case r of None \<Rightarrow> Inr None | Some s' \<Rightarrow> run_handlers cur n err ctx hs s')"

text \<open>An interrupt without handlers is reported and the machine halts.\<close>

definition HandleInterrupt :: "('s \<Rightarrow> nat) \<Rightarrow> 's interrupts \<Rightarrow> nat \<Rightarrow> u64 \<Rightarrow> 's \<Rightarrow> 's option res" where
  "HandleInterrupt cur ints n err s =
     bindR (guardR (n < MaxInterrupts) ''interrupts_'') (\<lambda>_.
     if sv_empty (ints n) then Inr None else run_handlers cur n err (cur s) (sv_list (ints n)) s)"

text \<open>The handler that \<^verbatim>\<open>Syscall::SetupSyscall\<close> registers, on the kernel's state, memory and output.\<close>

definition syscall_handler :: "IntRadix \<Rightarrow> (kstate \<times> mem \<times> char list) handler" where
  "syscall_handler radix info st =
     (case st of (s, m, out) \<Rightarrow>
        bindR (handle_syscall radix s (info_pid info) m) (\<lambda>(r, out').
        Inr (case r of None \<Rightarrow> None | Some (s', m') \<Rightarrow> Some (s', m', out @ out'))))"

definition SetupSyscall :: "IntRadix \<Rightarrow> (kstate \<times> mem \<times> char list) interrupts \<Rightarrow> (kstate \<times> mem \<times> char list) interrupts res" where
  "SetupSyscall radix ints = Register ints IRQ_SYSCALL (syscall_handler radix)"

section \<open>The gates\<close>

text \<open>The handler address that the processor assembles from the two words of a gate.\<close>

definition gate_offset :: "u64 \<times> u64 \<Rightarrow> u64" where
  "gate_offset w = (fst w AND 0xffff) OR push_bit 16 (drop_bit 48 (fst w)) OR push_bit 32 (snd w)"

lemma gate_offset_bits:
  "gate_offset (gate_bits d) = ucast (offset_lo16 d) OR push_bit 16 (ucast (offset_mid16 d)) OR push_bit 32 (ucast (offset_hi32 d))"
proof (rule bit_word_eqI)
  fix n
  assume n: "n < LENGTH(64)"
  consider "n < 16" | "16 \<le> n" "n < 32" | "32 \<le> n" by linarith
  then show "bit (gate_offset (gate_bits d)) n =
      bit (ucast (offset_lo16 d) OR push_bit 16 (ucast (offset_mid16 d)) OR push_bit 32 (ucast (offset_hi32 d)) :: u64) n"
    unfolding gate_offset_def masks gate_bits_def by cases (use n in \<open>simp_all add: bit_simps bit_beyond\<close>)
qed

lemma gate_offset_set: "gate_offset (gate_bits (set_idt_offset ptr user d)) = ptr"
proof -
  have f: "offset_lo16 (set_idt_offset ptr user d) = ucast ptr" "offset_mid16 (set_idt_offset ptr user d) = ucast (drop_bit 16 ptr)"
    "offset_hi32 (set_idt_offset ptr user d) = ucast (drop_bit 32 ptr)"
    unfolding set_idt_offset_def masks by (simp_all add: ucast_mask)
  show ?thesis
    unfolding gate_offset_bits f
  proof (rule bit_word_eqI)
    fix n
    assume n: "n < LENGTH(64)"
    consider "n < 16" | "16 \<le> n" "n < 32" | "32 \<le> n" by linarith
    then show "bit (ucast (ucast ptr :: u16) OR push_bit 16 (ucast (ucast (drop_bit 16 ptr) :: u16)) OR
        push_bit 32 (ucast (ucast (drop_bit 32 ptr) :: u32)) :: u64) n = bit ptr n"
      by cases (use n in \<open>auto simp: bit_simps\<close>)
  qed
qed

text \<open>What the table should hold for each vector, with the shift of the vectors from \<^verbatim>\<open>0x50\<close> to \<^verbatim>\<open>0x55\<close> that it has.\<close>

definition named_entries :: "irq_entry list" where
  "named_entries = [De_irq, Db_irq, Nmi_irq, Bp_irq, Of_irq, Br_irq, Ud_irq, Nm_irq, Df_irq, Default_irq, Ts_irq, Np_irq, Ss_irq, Gp_irq, Pf_irq]"

definition vector_entry :: "nat \<Rightarrow> irq_entry" where
  "vector_entry v =
     (if v < 15 then named_entries ! v else if v = 32 then Timer_irq else if v = 37 then Spurious_irq else if v = 42 then Syscall_irq
      else if 0x40 \<le> v \<and> v < 0x50 \<or> v = 0x56 \<or> v = 0x57 then Vector_irq v
      else if 0x50 \<le> v \<and> v < 0x55 then Vector_irq (v + 1) else Default_irq)"

definition last_write :: "nat \<Rightarrow> (nat \<times> irq_entry \<times> bool) list \<Rightarrow> irq_entry \<times> bool" where
  "last_write v ws = foldl (\<lambda>r (w, e, u). if w = v then (e, u) else r) (Default_irq, False) ws"

lemma last_write_snoc: "last_write v (ws @ [(w, e, u)]) = (if w = v then (e, u) else last_write v ws)"
  by (simp add: last_write_def)

lemma set_idt_offset_keeps [simp]:
  "gate_type (set_idt_offset ptr user d) = gate_type d" "gate_p (set_idt_offset ptr user d) = gate_p d"
  "gate_selector (set_idt_offset ptr user d) = gate_selector d" "gate_dpl (set_idt_offset ptr user d) = (if user then 3 else 0)"
  by (simp_all add: set_idt_offset_def)

lemma write_gate_apply: "write_gate addr idt (w, e, u) v = (if v = w then set_idt_offset (addr e) u (idt v) else idt v)"
  by (simp add: write_gate_def)

lemma foldl_idt:
  assumes "idt v = set_idt_offset (addr Default_irq) False g"
  shows "\<exists>d. foldl (write_gate addr) idt ws v = set_idt_offset (addr (fst (last_write v ws))) (snd (last_write v ws)) d \<and>
    gate_type d = gate_type g \<and> gate_p d = gate_p g \<and> gate_selector d = gate_selector g"
proof (induction ws rule: rev_induct)
  case Nil
  then show ?case using assms by (intro exI [of _ g]) (simp add: last_write_def)
next
  case (snoc x ws)
  obtain w e u where x: "x = (w, e, u)" by (cases x)
  from snoc obtain d where d: "foldl (write_gate addr) idt ws v = set_idt_offset (addr (fst (last_write v ws))) (snd (last_write v ws)) d"
    "gate_type d = gate_type g" "gate_p d = gate_p g" "gate_selector d = gate_selector g" by blast
  show ?case
  proof (cases "w = v")
    case True
    then show ?thesis using d by (intro exI [of _ "foldl (write_gate addr) idt ws v"]) (simp add: x last_write_snoc write_gate_apply)
  next
    case False
    then show ?thesis using d by (intro exI [of _ d]) (simp add: x last_write_snoc write_gate_apply)
  qed
qed

lemma last_write_default: "v \<notin> fst ` set ws \<Longrightarrow> last_write v ws = (Default_irq, False)"
proof (induction ws rule: rev_induct)
  case (snoc x ws)
  then show ?case by (cases x) (auto simp: last_write_snoc)
qed (simp add: last_write_def)

lemma last_write_Cons: "last_write v (x # ws) = (if v \<in> fst ` set ws then last_write v ws else if fst x = v then snd x else (Default_irq, False))"
proof (induction ws rule: rev_induct)
  case Nil
  then show ?case by (cases x) (simp add: last_write_def)
next
  case (snoc y ws)
  obtain w e u where y: "y = (w, e, u)" by (cases y)
  have "last_write v ((x # ws) @ [(w, e, u)]) = (if w = v then (e, u) else last_write v (x # ws))" by (rule last_write_snoc)
  then show ?case using snoc by (auto simp: y last_write_snoc)
qed

text \<open>The writes whose vector is not written again later decide.\<close>

lemma idt_writes_list: "idt_writes =
     [(0, De_irq, False), (1, Db_irq, False), (2, Nmi_irq, False), (3, Bp_irq, True), (4, Of_irq, False), (5, Br_irq, False),
      (6, Ud_irq, False), (7, Nm_irq, False), (8, Df_irq, False), (10, Ts_irq, False), (11, Np_irq, False), (12, Ss_irq, False),
      (13, Gp_irq, False), (14, Pf_irq, False), (32, Timer_irq, False), (37, Spurious_irq, False), (42, Syscall_irq, True)] @
     map (\<lambda>v. (v, Vector_irq v, False)) [64, 65, 66, 67, 68, 69, 70, 71, 72, 73, 74, 75, 76, 77, 78, 79, 80] @
     [(80, Vector_irq 81, False), (81, Vector_irq 82, False), (82, Vector_irq 83, False), (83, Vector_irq 84, False),
      (84, Vector_irq 85, False), (86, Vector_irq 86, False), (87, Vector_irq 87, False)]"
  by (simp add: idt_writes_def upt_rec)

lemma last_write_append:
  "last_write v (xs @ ys) = (if v \<in> fst ` set ys then last_write v ys else last_write v xs)"
proof (induction ys rule: rev_induct)
  case (snoc y ys)
  obtain w e u where y: "y = (w, e, u)" by (cases y)
  have "last_write v ((xs @ ys) @ [(w, e, u)]) = (if w = v then (e, u) else last_write v (xs @ ys))" by (rule last_write_snoc)
  then show ?case using snoc by (auto simp: y last_write_snoc)
qed (simp add: last_write_def)

lemma last_write_map: "last_write v (map (\<lambda>v. (v, Vector_irq v, False)) xs) = (if v \<in> set xs then (Vector_irq v, False) else (Default_irq, False))"
  by (induction xs rule: rev_induct) (simp_all add: last_write_def)

lemma below_15: "v < 15 \<Longrightarrow> v = 0 \<or> v = 1 \<or> v = 2 \<or> v = 3 \<or> v = 4 \<or> v = 5 \<or> v = 6 \<or> v = 7 \<or> v = 8 \<or> v = 9 \<or> v = 10 \<or>
    v = 11 \<or> v = 12 \<or> v = 13 \<or> v = (14::nat)"
  by (simp add: numeral_eq_Suc less_Suc_eq)

lemma last_write_named:
  "last_write v [(0, De_irq, False), (1, Db_irq, False), (2, Nmi_irq, False), (3, Bp_irq, True), (4, Of_irq, False), (5, Br_irq, False),
      (6, Ud_irq, False), (7, Nm_irq, False), (8, Df_irq, False), (10, Ts_irq, False), (11, Np_irq, False), (12, Ss_irq, False),
      (13, Gp_irq, False), (14, Pf_irq, False), (32, Timer_irq, False), (37, Spurious_irq, False), (42, Syscall_irq, True)] =
   (if v < 15 then (named_entries ! v, v = 3) else if v = 32 then (Timer_irq, False) else if v = 37 then (Spurious_irq, False)
    else if v = 42 then (Syscall_irq, True) else (Default_irq, False))"
proof (cases "v < 15")
  case True
  from below_15 [OF this] show ?thesis by (elim disjE) (simp_all add: last_write_def named_entries_def)
next
  case False
  then show ?thesis by (auto simp: last_write_def)
qed

lemma last_write_slip:
  "last_write v [(80, Vector_irq 81, False), (81, Vector_irq 82, False), (82, Vector_irq 83, False), (83, Vector_irq 84, False),
      (84, Vector_irq 85, False), (86, Vector_irq 86, False), (87, Vector_irq 87, False)] =
   (if 80 \<le> v \<and> v < 85 then (Vector_irq (v + 1), False) else if v = 86 \<or> v = 87 then (Vector_irq v, False) else (Default_irq, False))"
proof (cases "80 \<le> v \<and> v < 88")
  case True
  then have "v = 80 \<or> v = 81 \<or> v = 82 \<or> v = 83 \<or> v = 84 \<or> v = 85 \<or> v = 86 \<or> v = 87" by linarith
  then show ?thesis by (elim disjE) (simp_all add: last_write_def)
next
  case False
  then show ?thesis by (auto simp: last_write_def)
qed

lemma vector_members: "v \<in> set [64, 65, 66, 67, 68, 69, 70, 71, 72, 73, 74, 75, 76, 77, 78, 79, 80::nat] \<longleftrightarrow> 64 \<le> v \<and> v < 81"
proof -
  have "[64, 65, 66, 67, 68, 69, 70, 71, 72, 73, 74, 75, 76, 77, 78, 79, 80] = [64..<81::nat]" by (simp add: upt_rec)
  then show ?thesis by (simp only: set_upt atLeastLessThan_iff)
qed

lemma last_write_vector: "last_write v idt_writes = (vector_entry v, v = 3 \<or> v = 42)"
proof -
  have k: "v \<in> fst ` set [(80, Vector_irq 81, False), (81, Vector_irq 82, False), (82, Vector_irq 83, False), (83, Vector_irq 84, False),
      (84, Vector_irq 85, False), (86, Vector_irq 86, False), (87, Vector_irq 87, False)] \<longleftrightarrow> (80 \<le> v \<and> v < 85) \<or> v = 86 \<or> v = 87" by auto
  have m: "fst ` set (map (\<lambda>v. (v, Vector_irq v, False)) xs @ ys) = set xs \<union> fst ` set ys" for xs ys by force
  show ?thesis
    unfolding idt_writes_list last_write_append last_write_map last_write_named last_write_slip m k Un_iff vector_members
    by (auto simp: vector_entry_def)
qed

section \<open>Properties\<close>

text \<open>C38: after \<^verbatim>\<open>setup_idt\<close> every vector has a present interrupt gate in the given segment whose split offset reads back as
  the address of an entry point, and only the breakpoint and the system call vector may be raised from user mode.  The vectors
  from \<^verbatim>\<open>0x40\<close> to \<^verbatim>\<open>0x4f\<close>, \<^verbatim>\<open>0x56\<close> and \<^verbatim>\<open>0x57\<close> have their own entry points; those from \<^verbatim>\<open>0x50\<close> to \<^verbatim>\<open>0x54\<close> have the entry
  point of the next vector, and \<^verbatim>\<open>0x55\<close> has the default one.\<close>

theorem setup_idt_gates:
  assumes "v < 256"
  shows "let g = setup_idt addr selector (addr Default_irq) v in
    gate_offset (gate_bits g) = addr (vector_entry v) \<and> gate_p g \<and> gate_type g = 0xe \<and> gate_selector g = selector \<and>
    gate_dpl g = (if v = 3 \<or> v = 42 then 3 else 0)"
proof -
  let ?d = "zero_gate\<lparr>gate_selector := selector, gate_type := descriptor_type LongInterruptGate, gate_p := True\<rparr>"
  let ?idt = "for_upd MaxInterrupts (\<lambda>i e. (set_idt_offset (addr Default_irq) False e)\<lparr>gate_selector := selector,
           gate_type := descriptor_type LongInterruptGate, gate_dpl := 0, gate_p := True\<rparr>) (\<lambda>_. zero_gate)"
  have i: "?idt v = set_idt_offset (addr Default_irq) False ?d"
    using assms by (simp add: for_upd_apply MaxInterrupts_def set_idt_offset_def zero_gate_def)
  obtain d where d: "foldl (write_gate addr) ?idt idt_writes v =
      set_idt_offset (addr (fst (last_write v idt_writes))) (snd (last_write v idt_writes)) d"
    "gate_type d = gate_type ?d" "gate_p d = gate_p ?d" "gate_selector d = gate_selector ?d"
    using foldl_idt [of ?idt v addr ?d idt_writes, OF i] by blast
  have s: "setup_idt addr selector (addr Default_irq) v = set_idt_offset (addr (vector_entry v)) (v = 3 \<or> v = 42) d"
    using d(1) unfolding setup_idt_def Let_def last_write_vector by simp
  show ?thesis unfolding s using d(2-) by (simp add: gate_offset_set Let_def)
qed

theorem setup_idt_gates_witness:
  "\<forall>addr. gate_offset (gate_bits (setup_idt addr 0x10 (addr Default_irq) 0x50)) = addr (Vector_irq 0x51) \<and>
     gate_offset (gate_bits (setup_idt addr 0x10 (addr Default_irq) 42)) = addr Syscall_irq"
proof
  fix addr
  show "gate_offset (gate_bits (setup_idt addr 0x10 (addr Default_irq) 0x50)) = addr (Vector_irq 0x51) \<and>
     gate_offset (gate_bits (setup_idt addr 0x10 (addr Default_irq) 42)) = addr Syscall_irq"
    using setup_idt_gates [of "0x50" addr "0x10"] setup_idt_gates [of 42 addr "0x10"] by (simp add: Let_def vector_entry_def)
qed

lemma Register_ok:
  assumes "n < 256" "vec_size (ints n) < slots_N (ints n)"
  shows "\<exists>v. Register ints n h = Inr (ints(n := v)) \<and> sv_list v = sv_list (ints n) @ [h] \<and> slots_N v = slots_N (ints n) \<and>
    vec_size v = Suc (vec_size (ints n))"
proof -
  obtain v where v: "sv_emplace_back (ints n) h = Inr v" "sv_list v = sv_list (ints n) @ [h]" "slots_N v = slots_N (ints n)"
    using sv_emplace_back_ok [OF assms(2)] by blast
  have "vec_size v = Suc (vec_size (ints n))" using arg_cong [OF v(2), of length] by simp
  then show ?thesis using v assms(1) by (intro exI [of _ v]) (simp add: Register_def MaxInterrupts_def)
qed

lemma Register_from_ok:
  "distinct ns \<Longrightarrow> (\<And>n. n \<in> set ns \<Longrightarrow> n < 256 \<and> vec_size (ints n) < slots_N (ints n)) \<Longrightarrow>
   \<exists>ints'. Register_from ints ns h = Inr ints' \<and> (\<forall>n. if n \<in> set ns then sv_list (ints' n) = sv_list (ints n) @ [h] else ints' n = ints n)"
proof (induction ns arbitrary: ints)
  case (Cons n ns)
  obtain v where v: "Register ints n h = Inr (ints(n := v))" "sv_list v = sv_list (ints n) @ [h]"
    using Register_ok [of n ints h] Cons.prems(2) [of n] by auto
  obtain ints' where "Register_from (ints(n := v)) ns h = Inr ints'"
    "\<And>k. if k \<in> set ns then sv_list (ints' k) = sv_list ((ints(n := v)) k) @ [h] else ints' k = (ints(n := v)) k"
    using Cons.IH [of "ints(n := v)"] Cons.prems by fastforce
  then show ?case using v Cons.prems(1) by (intro exI [of _ ints']) (auto split: if_splits)
qed simp

fun register_all :: "'s interrupts \<Rightarrow> nat \<Rightarrow> 's handler list \<Rightarrow> 's interrupts res" where
  "register_all ints n [] = Inr ints"
| "register_all ints n (h # hs) = bindR (Register ints n h) (\<lambda>ints'. register_all ints' n hs)"

lemma register_all_ok:
  "n < 256 \<Longrightarrow> vec_size (ints n) + length hs \<le> slots_N (ints n) \<Longrightarrow>
   \<exists>ints'. register_all ints n hs = Inr ints' \<and> sv_list (ints' n) = sv_list (ints n) @ hs \<and> (\<forall>k. k \<noteq> n \<longrightarrow> ints' k = ints k) \<and>
     slots_N (ints' n) = slots_N (ints n) \<and> vec_size (ints' n) = vec_size (ints n) + length hs"
proof (induction hs arbitrary: ints)
  case (Cons h hs)
  obtain v where v: "Register ints n h = Inr (ints(n := v))" "sv_list v = sv_list (ints n) @ [h]" "slots_N v = slots_N (ints n)"
    "vec_size v = Suc (vec_size (ints n))" using Register_ok [of n ints h] Cons.prems by auto
  have "vec_size ((ints(n := v)) n) + length hs \<le> slots_N ((ints(n := v)) n)" using Cons.prems(2) v(3,4) by simp
  from Cons.IH [of "ints(n := v)", OF Cons.prems(1) this] obtain ints' where i: "register_all (ints(n := v)) n hs = Inr ints'"
    "sv_list (ints' n) = sv_list v @ hs" "\<forall>k. k \<noteq> n \<longrightarrow> ints' k = (ints(n := v)) k" "slots_N (ints' n) = slots_N v"
    "vec_size (ints' n) = vec_size v + length hs" unfolding fun_upd_same by blast
  then show ?case using v by (intro exI [of _ ints']) simp
qed simp

lemma Register_full:
  "n < 256 \<Longrightarrow> slots_N (ints n) \<le> vec_size (ints n) \<Longrightarrow> Register ints n h = Inl (Undefined ''SmallVec slot'')"
  by (simp add: Register_def MaxInterrupts_def sv_emplace_back_full)





end
