(* ===== verification/Boot.thy ===== *)
theory Boot
  imports Mm Serial
begin

text \<open>
  The boot loader, \<^verbatim>\<open>boot_loader.c\<close>: its serial output, the loader of the kernel image and \<^verbatim>\<open>efi_main\<close>, which takes the
  machine from the firmware to the first instruction of the kernel.  The firmware services it calls are the
  fields of a record that the definitions take as an argument; a call takes the state of the firmware and returns its status,
  its outputs and the new state.  The structure \<^verbatim>\<open>efi_info\<close> is passed along; the loader's own variables do not
  overlap the pages it allocates.  Text output is left out.
\<close>

section \<open>Serial output\<close>

definition port :: u16 where "port = 0x3f8"

definition init_serial :: "(u16 \<times> u8) list" where
  "init_serial =
     [(port + 1, 0x00), (port + 3, 0x80), (port + 0, 0x01), (port + 1, 0x00), (port + 3, 0x03), (port + 2, 0xC7), (port + 4, 0x0B)]"

text \<open>\<open>lsr\<close> is the sequence of line status values, as for the kernel's port.\<close>

definition putb :: "(nat \<Rightarrow> u8) \<Rightarrow> nat \<Rightarrow> nat option" where
  "putb lsr t = put lsr t"

fun puts :: "(nat \<Rightarrow> u8) \<Rightarrow> char list \<Rightarrow> nat \<Rightarrow> nat option" where
  "puts lsr [] t = Some t"
| "puts lsr (c # s) t = (case putb lsr t of None \<Rightarrow> None | Some t' \<Rightarrow> puts lsr s t')"

text \<open>The digits go into 32 slots and from there, last first, to the port.\<close>

function puti_loop :: "nat \<Rightarrow> char list \<Rightarrow> char list res" where
  "puti_loop remain temp =
     (if remain \<noteq> 0
      then bindR (guardR (length temp < 32) ''temp'') (\<lambda>_. puti_loop (remain div 16) (temp @ [alphabet ! (remain mod 16)]))
      else Inr temp)"
  by pat_completeness auto
termination
  by (relation "measure (\<lambda>(remain, temp). remain)") auto

declare puti_loop.simps [simp del]

definition puti :: "u64 \<Rightarrow> char list res" where
  "puti n = (if n = 0 then Inr ''0'' else bindR (puti_loop (unat n) []) (\<lambda>temp. Inr (rev temp)))"

section \<open>The screen\<close>

text \<open>The display protocols, null when they were not found: the graphics output with the resolution of its mode, and the older one with what its
  \<^verbatim>\<open>GetMode\<close> returns, a status, a width and a height.\<close>

type_synonym graphics = "u32 \<times> u32"
type_synonym uga = "u64 \<times> u32 \<times> u32"

record screen =
  ConsoleControl :: "unit option"
  UgaDraw :: "uga option"
  GraphicsOutput :: "graphics option"
  egHasGraphics :: bool
  egScreenWidth :: u64
  egScreenHeight :: u64

definition EFI_SUCCESS :: u64 where "EFI_SUCCESS = 0"

definition EFI_ERROR :: "u64 \<Rightarrow> bool" where "EFI_ERROR st = bit st 63"

definition egDetermineScreenSize :: "screen \<Rightarrow> screen" where
  "egDetermineScreenSize s =
     (let s = s\<lparr>egHasGraphics := False\<rparr> in
      case GraphicsOutput s of
        Some (w, h) \<Rightarrow> s\<lparr>egScreenWidth := ucast w, egScreenHeight := ucast h, egHasGraphics := True\<rparr>
      | None \<Rightarrow> (case UgaDraw s of
          Some (Status, UGAWidth, UGAHeight) \<Rightarrow>
            if EFI_ERROR Status then s\<lparr>UgaDraw := None\<rparr>
            else s\<lparr>egScreenWidth := ucast UGAWidth, egScreenHeight := ucast UGAHeight, egHasGraphics := True\<rparr>
        | None \<Rightarrow> s))"

text \<open>Each argument is what the search for the protocol gives, a status and the interface.\<close>

definition located :: "u64 \<times> 'a \<Rightarrow> 'a option" where
  "located r = (if EFI_ERROR (fst r) then None else Some (snd r))"

definition egInitScreen :: "u64 \<times> unit \<Rightarrow> u64 \<times> uga \<Rightarrow> u64 \<times> graphics \<Rightarrow> screen \<Rightarrow> screen" where
  "egInitScreen console uga_draw graphics_output s =
     egDetermineScreenSize (s\<lparr>ConsoleControl := located console, UgaDraw := located uga_draw, GraphicsOutput := located graphics_output\<rparr>)"

datatype blt = GraphicsBlt u64 u64 | UgaBlt u64 u64

text \<open>The fill operation on the whole screen, if there is one.\<close>

definition egClearScreen :: "screen \<Rightarrow> blt option" where
  "egClearScreen s =
     (if GraphicsOutput s \<noteq> None then Some (GraphicsBlt (egScreenWidth s) (egScreenHeight s))
      else if UgaDraw s \<noteq> None then Some (UgaBlt (egScreenWidth s) (egScreenHeight s))
      else None)"

text \<open>There are graphics exactly if the screen can be cleared; without them the size is left as it was.\<close>

lemma egInitScreen_graphics:
  assumes "s' = egInitScreen c u g s"
  shows "egHasGraphics s' \<longleftrightarrow> egClearScreen s' \<noteq> None"
    and "\<not> egHasGraphics s' \<Longrightarrow> egScreenWidth s' = egScreenWidth s \<and> egScreenHeight s' = egScreenHeight s"
  using assms by (auto simp: egInitScreen_def egDetermineScreenSize_def egClearScreen_def Let_def split: option.splits prod.splits if_splits)

section \<open>Loading the kernel\<close>

definition copy :: "mem \<Rightarrow> u64 \<Rightarrow> u64 \<Rightarrow> u64 \<Rightarrow> mem" where
  "copy m target src sz = memcpy_loop m target src (unat sz) 0"

text \<open>One program header; \<^const>\<open>False\<close> stands for \<^verbatim>\<open>return 0\<close>.\<close>

definition load_kernel_segment :: "u64 \<Rightarrow> u64 \<Rightarrow> mem \<Rightarrow> u64 \<Rightarrow> Elf64_Ehdr \<Rightarrow> nat \<Rightarrow> (bool \<times> mem) res" where
  "load_kernel_segment phyKernelStart kernel_max_size m buffer ehdr i =
     bindR (guardR (unat (e_phentsize ehdr) * i < 2 ^ 31) ''signed overflow'') (\<lambda>_.
     let phdr = read_phdr m (phdr_addr buffer ehdr i) in
     if p_type phdr = PT_LOAD \<and> p_memsz phdr > 0
     then if p_filesz phdr \<le> p_memsz phdr
          then let section_offset = p_vaddr phdr - KERNEL_START in
               if section_offset + p_memsz phdr > kernel_max_size then Inr (False, m)
               else Inr (True, copy m (phyKernelStart + section_offset) (buffer + p_offset phdr) (p_memsz phdr))
          else Inr (False, m)
     else Inr (True, m))"

function load_kernel_segments :: "u64 \<Rightarrow> u64 \<Rightarrow> mem \<Rightarrow> u64 \<Rightarrow> nat \<Rightarrow> (bool \<times> mem) res" where
  "load_kernel_segments phyKernelStart kernel_max_size m buffer i =
     (let ehdr = read_ehdr m buffer in
      if i < unat (e_phnum ehdr)
      then bindR (load_kernel_segment phyKernelStart kernel_max_size m buffer ehdr i) (\<lambda>r.
           if \<not> fst r then Inr (False, snd r)
           else load_kernel_segments phyKernelStart kernel_max_size (snd r) buffer (Suc i))
      else Inr (True, m))"
  by pat_completeness auto
termination
proof (relation "measure (\<lambda>(s, z, m, buffer, i). 65536 - i)")
  fix s z m buffer i ehdr and r :: "bool \<times> mem"
  assume "ehdr = read_ehdr m buffer" "i < unat (e_phnum ehdr)"
  then have "i < 65536" using e_phnum_bound [of ehdr] by simp
  then show "((s, z, snd r, buffer, Suc i), s, z, m, buffer, i) \<in> measure (\<lambda>(s, z, m, buffer, i). 65536 - i)" by simp
qed simp

declare load_kernel_segments.simps [simp del]

text \<open>The regions that are printed: all but the reserved ones.\<close>

definition EfiReservedMemoryType :: u32 where "EfiReservedMemoryType = 0"

fun dump_memory_map_loop :: "EFIServicesInfo \<Rightarrow> nat list \<Rightarrow> EFI_MEMORY_DESCRIPTOR list res" where
  "dump_memory_map_loop efi_info [] = Inr []"
| "dump_memory_map_loop efi_info (i # is) =
     bindR (descriptor_at efi_info i) (\<lambda>md.
     bindR (dump_memory_map_loop efi_info is) (\<lambda>mds.
     Inr (if md_Type md \<noteq> EfiReservedMemoryType then md # mds else mds)))"

definition dump_memory_map :: "EFIServicesInfo \<Rightarrow> EFI_MEMORY_DESCRIPTOR list res" where
  "dump_memory_map efi_info = dump_memory_map_loop efi_info [0..<unat (descriptor_count efi_info)]"

text \<open>The entry point, 0 for a file that is not loaded, with the new \<^verbatim>\<open>efi_info\<close> and memory.  The assertion on
  \<^verbatim>\<open>e_phoff\<close> only prints.\<close>

definition LoadKernel :: "u64 \<Rightarrow> u64 \<Rightarrow> u64 \<Rightarrow> EFIServicesInfo \<Rightarrow> mem \<Rightarrow> (u64 \<times> EFIServicesInfo \<times> mem) res" where
  "LoadKernel phyKernelStart kernel_max_size buffer efi_info m =
     (if \<not> magic_ok m buffer then Inr (0, efi_info, m)
      else bindR (load_kernel_segments phyKernelStart kernel_max_size m buffer 0) (\<lambda>(ok, m').
           if \<not> ok then Inr (0, efi_info, m')
           else let entrypoint = e_entry (read_ehdr m' buffer);
                    efi_info' = efi_info\<lparr>kernel_physical_start := phyKernelStart, kernel_physical_size := kernel_max_size\<rparr>
                in bindR (dump_memory_map efi_info') (\<lambda>_. Inr (entrypoint, efi_info', m'))))"

section \<open>The firmware\<close>

record EFI_GUID =
  Data1 :: u32
  Data2 :: u16
  Data3 :: u16
  Data4 :: "u8 list"

record memory_map =
  map_size :: u64
  map_bytes :: mem
  map_key :: u64
  map_descriptor_size :: u64
  map_descriptor_version :: u64

record 'f firmware =
  LocateTextOut :: "'f \<Rightarrow> u64 \<times> 'f"
  LocateFileSystem :: "'f \<Rightarrow> u64 \<times> 'f"
  AllocatePages :: "u64 \<Rightarrow> 'f \<Rightarrow> u64 \<times> u64 \<times> 'f"
  GetMemoryMap :: "u64 \<Rightarrow> 'f \<Rightarrow> u64 \<times> memory_map \<times> 'f"
  OpenVolume :: "'f \<Rightarrow> u64 \<times> 'f"
  GetVolumeInfo :: "u64 \<Rightarrow> u64 \<Rightarrow> mem \<Rightarrow> 'f \<Rightarrow> u64 \<times> mem \<times> 'f"
  OpenKernel :: "'f \<Rightarrow> u64 \<times> 'f"
  GetKernelInfo :: "u64 \<Rightarrow> u64 \<Rightarrow> mem \<Rightarrow> 'f \<Rightarrow> u64 \<times> mem \<times> 'f"
  ReadKernel :: "u64 \<Rightarrow> u64 \<Rightarrow> mem \<Rightarrow> 'f \<Rightarrow> u64 \<times> mem \<times> 'f"
  ExitBootServices :: "u64 \<Rightarrow> 'f \<Rightarrow> u64 \<times> 'f"
  SetVirtualAddressMap :: "EFIServicesInfo \<Rightarrow> 'f \<Rightarrow> u64 \<times> 'f"
  ConfigurationTable :: "(EFI_GUID \<times> u64) list"
  CompareGuid :: "EFI_GUID \<Rightarrow> EFI_GUID \<Rightarrow> int"
  first_pml4e :: PageMappingL4Entry

text \<open>A step of \<^verbatim>\<open>efi_main\<close> goes on with a value or returns a status.\<close>

type_synonym 'a stage = "(u64 + 'a) res"

definition bindS :: "'a stage \<Rightarrow> ('a \<Rightarrow> 'b stage) \<Rightarrow> 'b stage" where
  "bindS s f = bindR s (\<lambda>r. case r of Inl st \<Rightarrow> Inr (Inl st) | Inr x \<Rightarrow> f x)"

definition returnS :: "u64 \<Rightarrow> 'a stage" where "returnS st = Inr (Inl st)"

definition unless :: "bool \<Rightarrow> u64 \<Rightarrow> unit stage" where
  "unless failed st = (if failed then returnS st else Inr (Inr ()))"

lemma bindS_simps [simp]:
  "bindS (Inl e) f = Inl e" "bindS (Inr (Inl st)) f = Inr (Inl st)" "bindS (Inr (Inr x)) f = f x"
  by (simp_all add: bindS_def)

lemma unless_simps [simp]: "unless True st = Inr (Inl st)" "unless False st = Inr (Inr ())"
  by (simp_all add: unless_def returnS_def)

section \<open>The start of the kernel\<close>

definition AllocSize :: u64 where "AllocSize = (1 + 64) * 1024 * 1024"

definition KernelFileMaxSize :: u64 where "KernelFileMaxSize = 8 * 1024 * 1024"

definition stackSize :: u64 where "stackSize = 1024 * 1024"

definition KernelMaxSize :: u64 where "KernelMaxSize = AllocSize - stackSize"

text \<open>The two allocations.\<close>

definition allocate_buffers :: "'f firmware \<Rightarrow> 'f \<Rightarrow> (u64 \<times> u64 \<times> 'f) stage" where
  "allocate_buffers fw f0 =
     (case AllocatePages fw (AllocSize div 4096) f0 of (st, PhysicalBuffer, f1) \<Rightarrow>
      bindS (unless (st \<noteq> EFI_SUCCESS) st) (\<lambda>_.
      case AllocatePages fw (KernelFileMaxSize div 4096) f1 of (st, PhysicalBufferKernelFile, f2) \<Rightarrow>
      bindS (unless (st \<noteq> EFI_SUCCESS) st) (\<lambda>_. Inr (Inr (PhysicalBuffer, PhysicalBufferKernelFile, f2)))))"

text \<open>The firmware writes its outputs into \<^verbatim>\<open>efi_info\<close>; a failure is printed and ignored.\<close>

definition print_memory_map :: "'f firmware \<Rightarrow> EFIServicesInfo \<Rightarrow> 'f \<Rightarrow> (EFIServicesInfo \<times> 'f) res" where
  "print_memory_map fw efi_info f0 =
     (case GetMemoryMap fw 8192 f0 of (st, mm, f1) \<Rightarrow>
      let efi_info' = efi_info\<lparr>memory_descriptors := map_bytes mm, descriptor_size := map_descriptor_size mm,
            descriptor_version := map_descriptor_version mm\<rparr>
      in if st \<noteq> EFI_SUCCESS then Inr (efi_info', f1)
         else bindR (guardR (map_descriptor_size mm \<noteq> 0) ''division by zero'') (\<lambda>_.
              let efi_info'' = efi_info'\<lparr>descriptor_count := map_size mm div map_descriptor_size mm\<rparr>
              in bindR (dump_memory_map efi_info'') (\<lambda>_. Inr (efi_info'', f1))))"

text \<open>The status of the search for the file system is not looked at; without it the next call goes through a null
  pointer.  The size of the file is the second field of its \<^verbatim>\<open>EFI_FILE_INFO\<close>.\<close>

definition read_kernel_file :: "'f firmware \<Rightarrow> u64 \<Rightarrow> mem \<Rightarrow> 'f \<Rightarrow> (mem \<times> 'f) stage" where
  "read_kernel_file fw Buffer m0 f0 =
     (case LocateFileSystem fw f0 of (st, f1) \<Rightarrow>
      bindR (guardR (\<not> EFI_ERROR st) ''SimpleFileSystem'') (\<lambda>_.
      case OpenVolume fw f1 of (st, f2) \<Rightarrow>
      bindS (unless (st \<noteq> EFI_SUCCESS) 1) (\<lambda>_.
      case GetVolumeInfo fw Buffer KernelFileMaxSize m0 f2 of (st, m1, f3) \<Rightarrow>
      bindS (unless (st \<noteq> EFI_SUCCESS) 1) (\<lambda>_.
      case OpenKernel fw f3 of (st, f4) \<Rightarrow>
      bindS (unless (st \<noteq> EFI_SUCCESS) 1) (\<lambda>_.
      case GetKernelInfo fw Buffer KernelMaxSize m1 f4 of (st, m2, f5) \<Rightarrow>
      bindS (unless (st \<noteq> EFI_SUCCESS) 1) (\<lambda>_.
      bindS (unless (load_le m2 (Buffer + 8) 8 > KernelFileMaxSize) 1) (\<lambda>_.
      case ReadKernel fw Buffer KernelFileMaxSize m2 f5 of (st, m3, f6) \<Rightarrow>
      bindS (unless (st \<noteq> EFI_SUCCESS) 1) (\<lambda>_. Inr (Inr (m3, f6))))))))))"

definition ACPI20_GUID :: EFI_GUID where
  "ACPI20_GUID = \<lparr>Data1 = 0x8868e871, Data2 = 0xe4f1, Data3 = 0x11d3, Data4 = [0xbc, 0x22, 0x00, 0x80, 0xc7, 0x3c, 0x88, 0x81]\<rparr>"

text \<open>The address of the root pointer, 0 when there is none.\<close>

fun find_rsdp :: "(EFI_GUID \<Rightarrow> EFI_GUID \<Rightarrow> int) \<Rightarrow> (EFI_GUID \<times> u64) list \<Rightarrow> u64" where
  "find_rsdp compare [] = 0"
| "find_rsdp compare ((VendorGuid, VendorTable) # es) =
     (if compare VendorGuid ACPI20_GUID = 0 then VendorTable else find_rsdp compare es)"

definition rsdp_magic :: "u8 list" where
  "rsdp_magic = [0x52, 0x53, 0x44, 0x20, 0x50, 0x54, 0x52, 0x20]"

definition locate_acpi :: "'f firmware \<Rightarrow> mem \<Rightarrow> EFIServicesInfo \<Rightarrow> EFIServicesInfo stage" where
  "locate_acpi fw m efi_info =
     (let rsdp = find_rsdp (CompareGuid fw) (ConfigurationTable fw) in
      bindS (unless (rsdp = 0) 1) (\<lambda>_.
      bindS (unless (\<not> list_all (\<lambda>i. m (rsdp + of_nat i) = rsdp_magic ! i) [0..<8]) 1) (\<lambda>_.
      Inr (Inr (efi_info\<lparr>rsdt_phy_addr := load_le m (rsdp + 16) 4, xsdt_phy_addr := load_le m (rsdp + 24) 8\<rparr>)))))"

text \<open>The second memory map is only asked for to get its key.\<close>

definition exit_boot_services :: "'f firmware \<Rightarrow> 'f \<Rightarrow> 'f stage" where
  "exit_boot_services fw f0 =
     (case GetMemoryMap fw 8192 f0 of (st, mm, f1) \<Rightarrow>
      bindS (unless (st \<noteq> EFI_SUCCESS) st) (\<lambda>_.
      bindR (guardR (map_descriptor_size mm \<noteq> 0) ''division by zero'') (\<lambda>_.
      case ExitBootServices fw (map_key mm) f1 of (st, f2) \<Rightarrow>
      bindS (unless (st \<noteq> EFI_SUCCESS) st) (\<lambda>_. Inr (Inr f2)))))"

text \<open>What the processor has when the kernel starts.\<close>

record handover =
  entry_point :: u64
  boot_info :: EFIServicesInfo
  boot_memory :: mem
  boot_page_tables :: PageTables
  boot_cr3 :: u64

text \<open>\<open>t_addr\<close> is the address of the loader's page tables.\<close>

definition efi_main :: "'f firmware \<Rightarrow> u64 \<Rightarrow> EFIServicesInfo \<Rightarrow> mem \<Rightarrow> 'f \<Rightarrow> handover stage" where
  "efi_main fw t_addr efi_info m f0 =
     (case LocateTextOut fw f0 of (st, f1) \<Rightarrow>
      bindS (unless (EFI_ERROR st) st) (\<lambda>_.
      bindS (allocate_buffers fw f1) (\<lambda>(PhysicalBuffer, Buffer, f2).
      let kernelStart = PhysicalBuffer + stackSize in
      bindR (print_memory_map fw efi_info f2) (\<lambda>(efi_info1, f3).
      bindS (read_kernel_file fw Buffer m f3) (\<lambda>(m1, f4).
      bindR (LoadKernel kernelStart KernelMaxSize Buffer efi_info1 m1) (\<lambda>(entrypoint, efi_info2, m2).
      bindS (unless (entrypoint = 0) 1) (\<lambda>_.
      bindS (locate_acpi fw m2 efi_info2) (\<lambda>efi_info3.
      bindS (exit_boot_services fw f4) (\<lambda>f5.
      bindS (unless (fst (SetVirtualAddressMap fw efi_info3 f5) \<noteq> EFI_SUCCESS) 1) (\<lambda>_.
      let tables = setup_kernel_image_page_table t_addr (first_pml4e fw) kernelStart in
      Inr (Inr \<lparr>entry_point = entrypoint, boot_info = efi_info3, boot_memory = m2, boot_page_tables = fst tables, boot_cr3 = snd tables\<rparr>)))))))))))"

section \<open>The kernel image\<close>

definition kernel_area :: "u64 \<Rightarrow> u64 \<Rightarrow> u64 set" where
  "kernel_area start sz = {a. unat start \<le> unat a \<and> unat a < unat start + unat sz}"

definition kernel_target :: "u64 \<Rightarrow> Elf64_Phdr \<Rightarrow> u64" where
  "kernel_target start p = start + (p_vaddr p - KERNEL_START)"

definition kernel_segment_ok :: "u64 \<Rightarrow> u64 \<Rightarrow> u64 \<Rightarrow> Elf64_Phdr \<Rightarrow> bool" where
  "kernel_segment_ok start sz buffer p \<longleftrightarrow>
     unat start + unat sz \<le> 2 ^ 64 \<and> p_filesz p \<le> p_memsz p \<and>
     unat KERNEL_START \<le> unat (p_vaddr p) \<and> unat (p_vaddr p) - unat KERNEL_START + unat (p_memsz p) \<le> unat sz \<and>
     (\<forall>k < unat (p_memsz p). buffer + p_offset p + of_nat k \<notin> kernel_area start sz)"

lemma kernel_offset:
  assumes "kernel_segment_ok start sz buffer p" "k \<le> unat (p_memsz p)"
  shows "unat (p_vaddr p - KERNEL_START) = unat (p_vaddr p) - unat KERNEL_START"
    and "unat (p_vaddr p - KERNEL_START + of_nat k) = unat (p_vaddr p) - unat KERNEL_START + k"
    and "k < unat (p_memsz p) \<Longrightarrow> unat (kernel_target start p + of_nat k) = unat start + (unat (p_vaddr p) - unat KERNEL_START) + k"
proof -
  let ?o = "unat (p_vaddr p) - unat KERNEL_START"
  have b: "?o + unat (p_memsz p) \<le> unat sz" "unat start + unat sz \<le> 2 ^ 64" "KERNEL_START \<le> p_vaddr p"
    using assms(1) by (auto simp: kernel_segment_ok_def word_le_nat_alt)
  have sz: "unat sz < 2 ^ 64" using unsigned_less [of sz] by simp
  show o: "unat (p_vaddr p - KERNEL_START) = ?o" using b(3) by (rule unat_sub)
  have "unat (p_memsz p) < 2 ^ LENGTH(64)" by (rule unsigned_less)
  then have k: "unat (of_nat k :: u64) = k" using assms(2) by (simp add: unat_of_nat)
  show "unat (p_vaddr p - KERNEL_START + of_nat k) = ?o + k"
    using o k b(1) sz assms(2) by (simp add: unat_word_ariths(1))
  show "unat (kernel_target start p + of_nat k) = unat start + ?o + k" if "k < unat (p_memsz p)"
    using o k b that by (simp add: kernel_target_def unat_word_ariths(1))
qed

interpretation kl: image_loader "kernel_area start sz" "kernel_target start" "\<lambda>p. unat (p_memsz p)" "kernel_segment_ok start sz"
  "\<lambda>m buffer ehdr i m'. load_kernel_segment start sz m buffer ehdr i = Inr (True, m')"
  "\<lambda>m buffer i m'. load_kernel_segments start sz m buffer i = Inr (True, m')" for start sz
proof
  show "kernel_target start p + of_nat k \<in> kernel_area start sz" if "kernel_segment_ok start sz buffer p" "k < unat (p_memsz p)" for buffer p k
    using kernel_offset(3) [OF that(1), of k] that by (auto simp: kernel_area_def kernel_segment_ok_def)
  show "load_kernel_segment start sz m buffer ehdr i =
      Inr (True, memcpy_loop m (kernel_target start p) (buffer + p_offset p) (unat (p_memsz p)) 0)"
    if "unat (e_phentsize ehdr) * i < 2 ^ 31" "p = read_phdr m (phdr_addr buffer ehdr i)" "loadable p" "kernel_segment_ok start sz buffer p"
    for ehdr i p m buffer
  proof -
    have "unat (p_vaddr p - KERNEL_START + p_memsz p) = unat (p_vaddr p) - unat KERNEL_START + unat (p_memsz p)"
      using kernel_offset(2) [OF that(4), of "unat (p_memsz p)"] by simp
    then have "\<not> sz < p_vaddr p - KERNEL_START + p_memsz p" using that(4) by (auto simp: kernel_segment_ok_def word_less_nat_alt)
    then show ?thesis using that by (simp add: load_kernel_segment_def loadable_def kernel_segment_ok_def Let_def copy_def kernel_target_def)
  qed
  show "unat (p_memsz p) < 2 ^ 64" for p using unsigned_less [of "p_memsz p"] by simp
qed (auto simp: kernel_segment_ok_def load_kernel_segment_def loadable_def Let_def load_kernel_segments.simps)

text \<open>A kernel file in memory: the headers and the data are outside the area the kernel goes to, the segments are linked into
  the first \<open>sz\<close> bytes from \<^verbatim>\<open>KERNEL_START\<close> on, and no two of them overlap.\<close>

definition kernel_bytes :: "u64 \<Rightarrow> Elf64_Phdr \<Rightarrow> u64 set" where
  "kernel_bytes start p = (\<lambda>k. kernel_target start p + of_nat k) ` {..<unat (p_memsz p)}"

definition kernel_file_ok :: "u64 \<Rightarrow> u64 \<Rightarrow> u64 \<Rightarrow> mem \<Rightarrow> bool" where
  "kernel_file_ok start sz buffer m \<longleftrightarrow>
     (let ehdr = read_ehdr m buffer; n = unat (e_phnum ehdr) in
      magic_ok m buffer \<and> unat (e_phentsize ehdr) * n < 2 ^ 31 \<and>
      (\<forall>j < 64. buffer + of_nat j \<notin> kernel_area start sz) \<and>
      (\<forall>i < n. \<forall>j < 56. phdr_addr buffer ehdr i + of_nat j \<notin> kernel_area start sz) \<and>
      (\<forall>i < n. loadable (segment m buffer i) \<longrightarrow> kernel_segment_ok start sz buffer (segment m buffer i)) \<and>
      (\<forall>i < n. \<forall>k < i. loadable (segment m buffer i) \<longrightarrow> loadable (segment m buffer k) \<longrightarrow>
         kernel_bytes start (segment m buffer i) \<inter> kernel_bytes start (segment m buffer k) = {}))"

lemma kernel_file_okD:
  assumes "kernel_file_ok start sz buffer m"
  shows "magic_ok m buffer" "kl.image_ok start sz m buffer"
  using assms unfolding kernel_file_ok_def kl.image_ok_def Let_def kl.target_def kernel_bytes_def by blast+

lemma kernel_loaded:
  assumes "kernel_file_ok start sz buffer m" "dump_memory_map (info\<lparr>kernel_physical_start := start, kernel_physical_size := sz\<rparr>) = Inr mds"
  shows "\<exists>m'. LoadKernel start sz buffer info m =
      Inr (e_entry (read_ehdr m buffer), info\<lparr>kernel_physical_start := start, kernel_physical_size := sz\<rparr>, m') \<and>
    (\<forall>x. x \<notin> kernel_area start sz \<longrightarrow> m' x = m x) \<and>
    (\<forall>i < unat (e_phnum (read_ehdr m buffer)). loadable (segment m buffer i) \<longrightarrow> (\<forall>k < unat (p_memsz (segment m buffer i)).
        m' (kernel_target start (segment m buffer i) + of_nat k) = m (buffer + p_offset (segment m buffer i) + of_nat k)))"
proof -
  obtain m' where m': "load_kernel_segments start sz m buffer 0 = Inr (True, m')"
    "kl.loaded start sz m buffer (unat (e_phnum (read_ehdr m buffer))) m'" "read_ehdr m' buffer = read_ehdr m buffer"
    using kl.load_all kernel_file_okD(2) [OF assms(1)] by blast
  then have "LoadKernel start sz buffer info m =
      Inr (e_entry (read_ehdr m buffer), info\<lparr>kernel_physical_start := start, kernel_physical_size := sz\<rparr>, m')"
    using kernel_file_okD(1) [OF assms(1)] assms(2) by (simp add: LoadKernel_def Let_def)
  then show ?thesis using m'(2) unfolding kl.loaded_def by blast
qed

section \<open>Serial output returns\<close>

lemma puti_loop_digits:
  "length temp + length (digits 16 n) \<le> 32 \<Longrightarrow> puti_loop n temp = Inr (temp @ map ((!) alphabet) (digits 16 n))"
proof (induction n temp rule: puti_loop.induct)
  case (1 n temp)
  show ?case
  proof (cases "n = 0")
    case False
    then have "digits 16 n = n mod 16 # digits 16 (n div 16)" by (subst digits.simps) simp
    then show ?thesis using False 1 by (subst puti_loop.simps) simp
  qed (simp add: puti_loop.simps)
qed

text \<open>The loader prints hexadecimal numbers as the kernel does.\<close>

lemma puti_print_int: "puti n = print_int Hex n"
proof (cases "n = 0")
  case False
  have r: "radix_of Hex = 16" by (simp add: radix_of_def)
  have "puti_loop (unat n) [] = Inr (map ((!) alphabet) (digits 16 (unat n)))"
    using print_int_digits(2) [OF False, of Hex] puti_loop_digits [of "[]" "unat n"] by (simp add: r)
  then show ?thesis using False print_int_digits(1) [OF False, of Hex] by (simp add: puti_def r rev_map)
qed (simp add: puti_def print_int_def)

lemma puts_returns: "(\<And>t. \<exists>k. is_transmit_empty lsr (t + k)) \<Longrightarrow> \<exists>t'. puts lsr str t = Some t'"
proof (induction str arbitrary: t)
  case (Cons c str)
  obtain k where "is_transmit_empty lsr (t + k)" using Cons.prems by blast
  then obtain t1 where "putb lsr t = Some t1" using put_returns [of lsr t k] by (auto simp: putb_def)
  then show ?case using Cons by simp
qed simp

section \<open>Outcomes of the stages\<close>

lemma bindS_eq_value: "bindS s f = Inr (Inr y) \<longleftrightarrow> (\<exists>x. s = Inr (Inr x) \<and> f x = Inr (Inr y))"
proof (cases s)
  case (Inr x)
  then show ?thesis by (cases x) simp_all
qed simp

lemma bindS_eq_status: "bindS s f = Inr (Inl st) \<longleftrightarrow> s = Inr (Inl st) \<or> (\<exists>x. s = Inr (Inr x) \<and> f x = Inr (Inl st))"
proof (cases s)
  case (Inr x)
  then show ?thesis by (cases x) simp_all
qed simp

lemma unless_eq: "unless b st = Inr (Inl st') \<longleftrightarrow> b \<and> st' = st" "unless b st = Inr (Inr u) \<longleftrightarrow> \<not> b"
  by (auto simp: unless_def returnS_def)

lemmas stages = bindS_eq_value bindS_eq_status unless_eq EFI_SUCCESS_def

lemma dump_memory_map_cong:
  assumes "memory_descriptors info' = memory_descriptors info" "descriptor_size info' = descriptor_size info"
    "descriptor_count info' = descriptor_count info"
  shows "dump_memory_map info' = dump_memory_map info"
proof -
  have "descriptor_at info' = descriptor_at info" unfolding descriptor_at_def assms by simp
  then have "dump_memory_map_loop info' is = dump_memory_map_loop info is" for "is" by (induction "is") simp_all
  then show ?thesis using assms(3) by (simp add: dump_memory_map_def)
qed

lemma stage_status:
  "allocate_buffers fw f = Inr (Inl st) \<Longrightarrow> st \<noteq> 0" "read_kernel_file fw buffer m f = Inr (Inl st) \<Longrightarrow> st \<noteq> 0"
  "locate_acpi fw m info = Inr (Inl st) \<Longrightarrow> st \<noteq> 0" "exit_boot_services fw f = Inr (Inl st) \<Longrightarrow> st \<noteq> 0"
  by (auto simp: allocate_buffers_def read_kernel_file_def locate_acpi_def exit_boot_services_def stages outcome Let_def split: prod.splits)

section \<open>Properties\<close>

text \<open>C26: a kernel file that is well formed is loaded: \<^verbatim>\<open>LoadKernel\<close> returns its entry point, every byte of a loadable segment is copied to
  its place in the area, and nothing outside the area changes.  The copy has the length the segment has in memory, so the part that
  the file does not hold gets the bytes that follow in the buffer and is not cleared.  A file with another magic number
  changes nothing and gives the entry point 0.\<close>

theorem LoadKernel_correct:
  "(kernel_file_ok start sz buffer m \<and> (\<exists>mds. dump_memory_map info = Inr mds) \<longrightarrow>
    (\<exists>m'. LoadKernel start sz buffer info m =
        Inr (e_entry (read_ehdr m buffer), info\<lparr>kernel_physical_start := start, kernel_physical_size := sz\<rparr>, m') \<and>
      (\<forall>x. x \<notin> kernel_area start sz \<longrightarrow> m' x = m x) \<and>
      (\<forall>i < unat (e_phnum (read_ehdr m buffer)). let p = read_phdr m (phdr_addr buffer (read_ehdr m buffer) i) in
         p_type p = PT_LOAD \<and> p_memsz p > 0 \<longrightarrow>
         (\<forall>k < unat (p_memsz p). m' (start + (p_vaddr p - KERNEL_START) + of_nat k) = m (buffer + p_offset p + of_nat k))))) \<and>
   (\<not> magic_ok m buffer \<longrightarrow> LoadKernel start sz buffer info m = Inr (0, info, m))"
proof (intro conjI impI)
  assume "kernel_file_ok start sz buffer m \<and> (\<exists>mds. dump_memory_map info = Inr mds)"
  then obtain mds where ok: "kernel_file_ok start sz buffer m" "dump_memory_map info = Inr mds" by blast
  have "dump_memory_map (info\<lparr>kernel_physical_start := start, kernel_physical_size := sz\<rparr>) = Inr mds"
    using ok(2) by (subst dump_memory_map_cong [of _ info]) simp_all
  from kernel_loaded [OF ok(1) this] show "\<exists>m'. LoadKernel start sz buffer info m =
        Inr (e_entry (read_ehdr m buffer), info\<lparr>kernel_physical_start := start, kernel_physical_size := sz\<rparr>, m') \<and>
      (\<forall>x. x \<notin> kernel_area start sz \<longrightarrow> m' x = m x) \<and>
      (\<forall>i < unat (e_phnum (read_ehdr m buffer)). let p = read_phdr m (phdr_addr buffer (read_ehdr m buffer) i) in
         p_type p = PT_LOAD \<and> p_memsz p > 0 \<longrightarrow>
         (\<forall>k < unat (p_memsz p). m' (start + (p_vaddr p - KERNEL_START) + of_nat k) = m (buffer + p_offset p + of_nat k)))"
    by (simp add: loadable_def segment_def kernel_target_def Let_def)
qed (simp add: LoadKernel_def)

text \<open>An address in the kernel's segments, through the loader's page tables.\<close>

lemma kernel_byte_mapped:
  assumes s: "setup_kernel_image_page_table t_addr c start = (t, cr3)"
    and base: "unat t_addr = base" "4096 dvd base" "base + 0x1000000 < 2 ^ 52"
    and start: "4096 dvd unat start" "unat start + 0x4000000 < 2 ^ 52"
    and p: "kernel_segment_ok start 0x4000000 buffer p" "k < unat (p_memsz p)"
  shows "translate (read_tables 512 KERNEL_SPACE_PAGES base t) cr3 (p_vaddr p + of_nat k) = Some (kernel_target start p + of_nat k)"
proof -
  let ?off = "unat (p_vaddr p) - unat KERNEL_START + k"
  have off: "?off < 0x4000000" using p by (auto simp: kernel_segment_ok_def)
  have v: "p_vaddr p + of_nat k = KERNEL_START + of_nat ?off"
  proof -
    have "of_nat (unat (p_vaddr p - KERNEL_START + of_nat k)) = p_vaddr p - KERNEL_START + of_nat k" by simp
    then have "of_nat ?off = p_vaddr p - KERNEL_START + of_nat k" using kernel_offset(2) [OF p(1), of k] p(2) by simp
    then show ?thesis by simp
  qed
  have f: "kernel_frame start ?off = unat (kernel_target start p + of_nat k)"
    using kernel_offset(3) [OF p(1), of k] p(2) off by (simp add: kernel_frame_def add.assoc)
  have "of_nat (kernel_frame start ?off) = kernel_target start p + of_nat k" unfolding f by simp
  then show ?thesis unfolding v using boot_translate [OF s base start, of ?off] off by simp
qed

text \<open>C21: when the firmware serves every request and the file is a well-formed kernel, \<^verbatim>\<open>efi_main\<close> starts it: with the page tables it has
  installed, every byte of every segment of the file is found at the address the kernel is linked to, the
  processor continues at the entry point, and the kernel is told where its image lies and where the ACPI tables are.
  The memory map it is given is the one from before the file was read, not the one with which the boot services were left.\<close>

theorem efi_main_starts_kernel:
  assumes text_out: "LocateTextOut fw f0 = (st, f1)" "\<not> EFI_ERROR st"
    and buffers: "allocate_buffers fw f1 = Inr (Inr (PhysicalBuffer, Buffer, f2))"
    and memmap: "print_memory_map fw info f2 = Inr (info1, f3)" "dump_memory_map info1 = Inr mds"
    and content: "read_kernel_file fw Buffer m f3 = Inr (Inr (m1, f4))"
    and kernel: "kernel_file_ok (PhysicalBuffer + stackSize) KernelMaxSize Buffer m1" "e_entry (read_ehdr m1 Buffer) \<noteq> 0"
    and acpi: "rsdp = find_rsdp (CompareGuid fw) (ConfigurationTable fw)" "rsdp \<noteq> 0"
      "\<forall>i < 8. m1 (rsdp + of_nat i) = rsdp_magic ! i" "\<forall>i < 32. rsdp + of_nat i \<notin> kernel_area (PhysicalBuffer + stackSize) KernelMaxSize"
    and leave: "exit_boot_services fw f4 = Inr (Inr f5)" "\<forall>i. fst (SetVirtualAddressMap fw i f5) = EFI_SUCCESS"
    and pages: "4096 dvd unat PhysicalBuffer" "unat PhysicalBuffer + 0x4100000 < 2 ^ 52" "4096 dvd unat t_addr" "unat t_addr + 0x1000000 < 2 ^ 52"
  shows "\<exists>h. efi_main fw t_addr info m f0 = Inr (Inr h) \<and> entry_point h = e_entry (read_ehdr m1 Buffer) \<and>
    memory_descriptors (boot_info h) = memory_descriptors info1 \<and> descriptor_count (boot_info h) = descriptor_count info1 \<and>
    unat (kernel_physical_start (boot_info h)) = unat PhysicalBuffer + 0x100000 \<and> kernel_physical_size (boot_info h) = 0x4000000 \<and>
    rsdt_phy_addr (boot_info h) = load_le m1 (rsdp + 16) 4 \<and> xsdt_phy_addr (boot_info h) = load_le m1 (rsdp + 24) 8 \<and>
    (\<forall>i < unat (e_phnum (read_ehdr m1 Buffer)). let p = read_phdr m1 (phdr_addr Buffer (read_ehdr m1 Buffer) i) in
       p_type p = PT_LOAD \<and> p_memsz p > 0 \<longrightarrow>
       (\<forall>k < unat (p_memsz p). \<exists>pa.
          translate (read_tables 512 KERNEL_SPACE_PAGES (unat t_addr) (boot_page_tables h)) (boot_cr3 h) (p_vaddr p + of_nat k) = Some pa \<and>
          boot_memory h pa = m1 (Buffer + p_offset p + of_nat k)))"
proof -
  let ?s = "PhysicalBuffer + stackSize" and ?e = "read_ehdr m1 Buffer"
  let ?info2 = "info1\<lparr>kernel_physical_start := ?s, kernel_physical_size := KernelMaxSize\<rparr>"
  let ?info3 = "?info2\<lparr>rsdt_phy_addr := load_le m1 (rsdp + 16) 4, xsdt_phy_addr := load_le m1 (rsdp + 24) 8\<rparr>"
  have sz: "KernelMaxSize = 0x4000000" by (simp add: KernelMaxSize_def AllocSize_def stackSize_def)
  have start: "unat ?s = unat PhysicalBuffer + 0x100000" using pages(2) by (simp add: stackSize_def unat_word_ariths)
  have "dump_memory_map ?info2 = Inr mds" using memmap(2) by (subst dump_memory_map_cong [of _ info1]) simp_all
  from kernel_loaded [OF kernel(1) this] obtain m2 where m2: "LoadKernel ?s KernelMaxSize Buffer info1 m1 = Inr (e_entry ?e, ?info2, m2)"
    "\<And>x. x \<notin> kernel_area ?s KernelMaxSize \<Longrightarrow> m2 x = m1 x"
    "\<And>i k. i < unat (e_phnum ?e) \<Longrightarrow> loadable (segment m1 Buffer i) \<Longrightarrow> k < unat (p_memsz (segment m1 Buffer i)) \<Longrightarrow>
        m2 (kernel_target ?s (segment m1 Buffer i) + of_nat k) = m1 (Buffer + p_offset (segment m1 Buffer i) + of_nat k)" by blast
  have same: "m2 (rsdp + of_nat i) = m1 (rsdp + of_nat i)" if "i < 32" for i using m2(2) acpi(4) that by blast
  have "load_le m2 (rsdp + 16) 4 = (load_le m1 (rsdp + 16) 4 :: u32)" "load_le m2 (rsdp + 24) 8 = (load_le m1 (rsdp + 24) 8 :: u64)"
    by (rule load_le_field [of 32 m2 rsdp m1, OF same]; simp)+
  then have "locate_acpi fw m2 ?info2 = Inr (Inr ?info3)"
    using acpi(2,3) same unfolding locate_acpi_def acpi(1) [symmetric] by (simp add: Let_def list_all_iff)
  moreover obtain t cr3 where t: "setup_kernel_image_page_table t_addr (first_pml4e fw) ?s = (t, cr3)" by fastforce
  ultimately have "efi_main fw t_addr info m f0 = Inr (Inr \<lparr>entry_point = e_entry ?e, boot_info = ?info3, boot_memory = m2,
      boot_page_tables = t, boot_cr3 = cr3\<rparr>)"
    using text_out buffers memmap(1) content kernel(2) m2(1) leave by (simp add: efi_main_def Let_def)
  moreover have "\<exists>pa. translate (read_tables 512 KERNEL_SPACE_PAGES (unat t_addr) t) cr3 (p_vaddr p + of_nat k) = Some pa \<and>
      m2 pa = m1 (Buffer + p_offset p + of_nat k)"
    if "i < unat (e_phnum ?e)" "p = segment m1 Buffer i" "loadable p" "k < unat (p_memsz p)" for i p k
  proof -
    have "kernel_segment_ok ?s 0x4000000 Buffer p" using kernel(1) that by (auto simp: kernel_file_ok_def Let_def sz)
    from kernel_byte_mapped [OF t refl pages(3,4) _ _ this that(4)] show ?thesis
      using start pages(1,2) m2(3) that by simp
  qed
  ultimately show ?thesis using start
    by (intro exI [of _ "\<lparr>entry_point = e_entry ?e, boot_info = ?info3, boot_memory = m2, boot_page_tables = t, boot_cr3 = cr3\<rparr>"])
      (simp add: sz loadable_def segment_def Let_def)
qed

text \<open>\<^verbatim>\<open>efi_main\<close> returns only with a status other than 0, and starts the kernel only when the file had the magic number of an
  executable, its entry point is not 0 and the root pointer of the ACPI tables has its signature.\<close>

theorem efi_main_outcomes:
  "(efi_main fw t_addr info m f0 = Inr (Inl st) \<longrightarrow> st \<noteq> 0) \<and>
   (efi_main fw t_addr info m f0 = Inr (Inr h) \<longrightarrow>
      entry_point h \<noteq> 0 \<and>
      (\<exists>Buffer f1 m1 f2. read_kernel_file fw Buffer m f1 = Inr (Inr (m1, f2)) \<and> magic_ok m1 Buffer) \<and>
      (let rsdp = find_rsdp (CompareGuid fw) (ConfigurationTable fw) in
         rsdp \<noteq> 0 \<and> map (\<lambda>i. boot_memory h (rsdp + of_nat i)) [0..<8] = rsdp_magic))"
proof (intro conjI impI)
  assume "efi_main fw t_addr info m f0 = Inr (Inl st)"
  then show "st \<noteq> 0"
    by (auto simp: efi_main_def stages outcome Let_def EFI_ERROR_def dest: stage_status split: prod.splits)
next
  assume h: "efi_main fw t_addr info m f0 = Inr (Inr h)"
  then show "entry_point h \<noteq> 0"
    by (auto simp: efi_main_def stages outcome Let_def split: prod.splits)
  from h show "\<exists>Buffer f1 m1 f2. read_kernel_file fw Buffer m f1 = Inr (Inr (m1, f2)) \<and> magic_ok m1 Buffer"
    by (auto simp: efi_main_def stages outcome Let_def LoadKernel_def split: prod.splits if_splits)
  from h show "let rsdp = find_rsdp (CompareGuid fw) (ConfigurationTable fw) in
      rsdp \<noteq> 0 \<and> map (\<lambda>i. boot_memory h (rsdp + of_nat i)) [0..<8] = rsdp_magic"
    by (auto simp: efi_main_def stages outcome Let_def locate_acpi_def list_all_iff rsdp_magic_def upt_rec split: prod.splits)
qed

section \<open>A sample machine\<close>

text \<open>A kernel of one segment with one byte of data at \<^verbatim>\<open>0x1000\<close>, and a root pointer at \<^verbatim>\<open>0x2000\<close>.\<close>

definition sample_kernel :: mem where
  "sample_kernel a =
     (if a < 0x1040
      then ((\<lambda>_. 0)(0x1000 := 0x7f, 0x1001 := 0x45, 0x1002 := 0x4c, 0x1003 := 0x46, 0x101a := 0x10, 0x101d := 0x80, 0x101e := 0xff,
        0x101f := 0xff, 0x1020 := 64, 0x1036 := 56, 0x1038 := 1)) a
      else if a < 0x1080
      then ((\<lambda>_. 0)(0x1040 := 1, 0x1048 := 120, 0x1052 := 0x10, 0x1055 := 0x80, 0x1056 := 0xff, 0x1057 := 0xff, 0x1060 := 1,
        0x1068 := 2, 0x1078 := 0xc3)) a
      else ((\<lambda>_. 0)(0x2000 := 0x52, 0x2001 := 0x53, 0x2002 := 0x44, 0x2003 := 0x20, 0x2004 := 0x50, 0x2005 := 0x54, 0x2006 := 0x52,
        0x2007 := 0x20, 0x2019 := 0x70)) a)"

definition sample_firmware :: "unit firmware" where
  "sample_firmware = \<lparr>LocateTextOut = (\<lambda>f. (0, f)), LocateFileSystem = (\<lambda>f. (0, f)),
     AllocatePages = (\<lambda>n f. (0, if n = 0x4100 then 0x1000000 else 0x1000, f)),
     GetMemoryMap = (\<lambda>n f. (0, \<lparr>map_size = 0, map_bytes = (\<lambda>_. 0), map_key = 1, map_descriptor_size = 48, map_descriptor_version = 1\<rparr>, f)),
     OpenVolume = (\<lambda>f. (0, f)), GetVolumeInfo = (\<lambda>b n m f. (0, m, f)), OpenKernel = (\<lambda>f. (0, f)), GetKernelInfo = (\<lambda>b n m f. (0, m, f)),
     ReadKernel = (\<lambda>b n m f. (0, sample_kernel, f)), ExitBootServices = (\<lambda>k f. (0, f)), SetVirtualAddressMap = (\<lambda>i f. (0, f)),
     ConfigurationTable = [(ACPI20_GUID, 0x2000)], CompareGuid = (\<lambda>a b. if a = b then 0 else 1), first_pml4e = zero_entry\<rparr>"

definition no_info :: EFIServicesInfo where
  "no_info = \<lparr>memory_descriptors = (\<lambda>_. 0), descriptor_size = 0, descriptor_count = 0, descriptor_version = 0,
     kernel_physical_start = 0, kernel_physical_size = 0, rsdt_phy_addr = 0, xsdt_phy_addr = 0\<rparr>"

lemma sample_kernel_ehdr: "e_entry (read_ehdr sample_kernel 0x1000) = 0xffff800000100000" "e_phoff (read_ehdr sample_kernel 0x1000) = 64"
    "e_phentsize (read_ehdr sample_kernel 0x1000) = 56" "e_phnum (read_ehdr sample_kernel 0x1000) = 1"
  unfolding read_ehdr_def Elf64_Ehdr.select_convs by (simp_all add: load_le_def sample_kernel_def upt_rec)

lemma sample_kernel_phdr: "read_phdr sample_kernel 0x1040 = \<lparr>p_type = 1, p_flags = 0, p_offset = 120, p_vaddr = 0xffff800000100000, p_paddr = 0,
    p_filesz = 1, p_memsz = 2, p_align = 0\<rparr>"
  by (simp add: read_phdr_def load_le_def sample_kernel_def upt_rec)

lemma sample_kernel_addr: "phdr_addr 0x1000 (read_ehdr sample_kernel 0x1000) 0 = 0x1040"
  using sample_kernel_ehdr by (simp add: phdr_addr_def)

lemma below_area: "unat x + j < 0x1100000 \<Longrightarrow> x + of_nat j \<notin> kernel_area 0x1100000 0x4000000"
proof -
  assume b: "unat x + j < 0x1100000"
  then have "unat (x + of_nat j) = unat x + j" by (simp add: unat_word_ariths unat_of_nat)
  then show ?thesis using b by (simp add: kernel_area_def)
qed

lemma sample_kernel_ok: "kernel_file_ok 0x1100000 0x4000000 0x1000 sample_kernel"
proof -
  have seg: "segment sample_kernel 0x1000 0 = \<lparr>p_type = 1, p_flags = 0, p_offset = 120, p_vaddr = 0xffff800000100000, p_paddr = 0,
    p_filesz = 1, p_memsz = 2, p_align = 0\<rparr>" unfolding segment_def sample_kernel_addr by (rule sample_kernel_phdr)
  have "magic_ok sample_kernel 0x1000" by (simp add: magic_ok_def ElfMagic_def sample_kernel_def upt_rec)
  then show ?thesis
    using sample_kernel_ehdr below_area
    by (simp add: kernel_file_ok_def Let_def seg sample_kernel_addr kernel_segment_ok_def word_le_nat_alt KERNEL_START_def)
qed

theorem LoadKernel_correct_witness:
  "\<exists>info' m'. LoadKernel 0x1100000 0x4000000 0x1000 no_info sample_kernel = Inr (0xffff800000100000, info', m') \<and> m' 0x1200000 = 0xc3"
proof -
  let ?e = "read_ehdr sample_kernel 0x1000"
  have d: "dump_memory_map no_info = Inr []" by (simp add: dump_memory_map_def no_info_def)
  obtain m' where m': "LoadKernel 0x1100000 0x4000000 0x1000 no_info sample_kernel =
      Inr (e_entry ?e, no_info\<lparr>kernel_physical_start := 0x1100000, kernel_physical_size := 0x4000000\<rparr>, m')"
    "\<forall>i < unat (e_phnum ?e). let p = read_phdr sample_kernel (phdr_addr 0x1000 ?e i) in p_type p = PT_LOAD \<and> p_memsz p > 0 \<longrightarrow>
         (\<forall>k < unat (p_memsz p). m' (0x1100000 + (p_vaddr p - KERNEL_START) + of_nat k) = sample_kernel (0x1000 + p_offset p + of_nat k))"
    using LoadKernel_correct [of "0x1100000" "0x4000000" "0x1000" sample_kernel no_info] sample_kernel_ok d by blast
  have "\<forall>k < 2. m' (0x1200000 + of_nat k) = sample_kernel (0x1078 + of_nat k)"
    using m'(2) by (simp add: sample_kernel_ehdr(4) sample_kernel_addr sample_kernel_phdr Let_def PT_LOAD_def KERNEL_START_def)
  then have "m' 0x1200000 = sample_kernel 0x1078" by (auto dest: spec [of _ 0])
  moreover have "sample_kernel 0x1078 = 0xc3" by (simp add: sample_kernel_def)
  ultimately show ?thesis using m'(1) by (auto simp: sample_kernel_ehdr(1))
qed

lemma load_le_zero: "load_le (\<lambda>_. 0) a n = 0"
proof -
  have "foldr (\<lambda>i w. ucast (0 :: u8) OR push_bit 8 w) xs 0 = 0" for xs :: "nat list" by (induction xs) simp_all
  then show ?thesis by (simp add: load_le_def)
qed

lemma boot_sizes: "AllocSize div 4096 = 0x4100" "KernelFileMaxSize div 4096 = 0x800" "0x1000000 + stackSize = 0x1100000" "KernelMaxSize = 0x4000000"
  by (simp_all add: AllocSize_def KernelFileMaxSize_def stackSize_def KernelMaxSize_def)

lemma sample_buffers: "allocate_buffers (sample_firmware\<lparr>OpenKernel := g\<rparr>) () = Inr (Inr (0x1000000, 0x1000, ()))"
  unfolding allocate_buffers_def boot_sizes by (simp add: sample_firmware_def EFI_SUCCESS_def)

lemma sample_memory_map: "print_memory_map (sample_firmware\<lparr>OpenKernel := g\<rparr>) no_info () =
    Inr (no_info\<lparr>descriptor_size := 48, descriptor_version := 1\<rparr>, ())"
  by (simp add: print_memory_map_def sample_firmware_def EFI_SUCCESS_def no_info_def Let_def dump_memory_map_def)

theorem efi_main_outcomes_witness:
  "efi_main (sample_firmware\<lparr>OpenKernel := \<lambda>f. (14, f)\<rparr>) 0x6000000 no_info (\<lambda>_. 0) () = Inr (Inl 1) \<and> (1::u64) \<noteq> 0"
proof -
  let ?fw = "sample_firmware\<lparr>OpenKernel := \<lambda>f. (14, f)\<rparr>"
  have "read_kernel_file ?fw 0x1000 (\<lambda>_. 0) () = Inr (Inl 1)"
    by (simp add: read_kernel_file_def sample_firmware_def EFI_SUCCESS_def EFI_ERROR_def)
  moreover have "LocateTextOut ?fw () = (0, ())" "\<not> EFI_ERROR 0" by (simp_all add: sample_firmware_def EFI_ERROR_def)
  ultimately have "efi_main ?fw 0x6000000 no_info (\<lambda>_. 0) () = Inr (Inl 1)"
    by (simp add: efi_main_def sample_buffers sample_memory_map)
  then show ?thesis using efi_main_outcomes [of ?fw "0x6000000" no_info "\<lambda>_. 0" "()" 1] by blast
qed

theorem efi_main_starts_kernel_witness:
  "\<exists>h pa. efi_main sample_firmware 0x6000000 no_info (\<lambda>_. 0) () = Inr (Inr h) \<and> entry_point h = 0xffff800000100000 \<and>
     translate (read_tables 512 KERNEL_SPACE_PAGES 0x6000000 (boot_page_tables h)) (boot_cr3 h) 0xffff800000100000 = Some pa \<and>
     boot_memory h pa = 0xc3 \<and> rsdt_phy_addr (boot_info h) = 0 \<and> xsdt_phy_addr (boot_info h) = 0x7000"
proof -
  let ?info = "no_info\<lparr>descriptor_size := 48, descriptor_version := 1\<rparr>"
  have a: "allocate_buffers sample_firmware () = Inr (Inr (0x1000000, 0x1000, ()))"
    using sample_buffers [of "OpenKernel sample_firmware"] by simp
  have b: "print_memory_map sample_firmware no_info () = Inr (?info, ())" "dump_memory_map ?info = Inr []"
    using sample_memory_map [of "OpenKernel sample_firmware"] by (simp_all add: no_info_def dump_memory_map_def)
  have d: "read_kernel_file sample_firmware 0x1000 (\<lambda>_. 0) () = Inr (Inr (sample_kernel, ()))"
    by (simp add: read_kernel_file_def sample_firmware_def EFI_SUCCESS_def EFI_ERROR_def KernelFileMaxSize_def load_le_zero)
  have e: "find_rsdp (CompareGuid sample_firmware) (ConfigurationTable sample_firmware) = 0x2000" by (simp add: sample_firmware_def)
  have "list_all (\<lambda>i. sample_kernel (0x2000 + of_nat i) = rsdp_magic ! i) [0..<8]"
    by (simp add: sample_kernel_def rsdp_magic_def upt_rec)
  then have f: "\<forall>i < 8. sample_kernel (0x2000 + of_nat i) = rsdp_magic ! i" by (simp add: list_all_iff)
  have g: "exit_boot_services sample_firmware () = Inr (Inr ())" "\<forall>i. fst (SetVirtualAddressMap sample_firmware i ()) = EFI_SUCCESS"
    by (simp_all add: exit_boot_services_def sample_firmware_def EFI_SUCCESS_def)
  have l: "LocateTextOut sample_firmware () = (0, ())" "\<not> EFI_ERROR 0" by (simp_all add: sample_firmware_def EFI_ERROR_def)
  have x: "sample_kernel 0x1078 = 0xc3" "load_le sample_kernel 0x2010 4 = (0 :: u32)" "load_le sample_kernel 0x2018 8 = (0x7000 :: u64)"
    by (simp_all add: sample_kernel_def load_le_def upt_rec)
  have y: "e_entry (read_ehdr sample_kernel 0x1000) \<noteq> 0" "(0x2000::u64) \<noteq> 0" "\<forall>i < 32. 0x2000 + of_nat i \<notin> kernel_area 0x1100000 0x4000000"
    using below_area [of "0x2000"] by (simp_all add: sample_kernel_ehdr)
  obtain h where h: "efi_main sample_firmware 0x6000000 no_info (\<lambda>_. 0) () = Inr (Inr h)" "entry_point h = 0xffff800000100000"
    "rsdt_phy_addr (boot_info h) = 0" "xsdt_phy_addr (boot_info h) = 0x7000"
    "\<forall>i < unat (e_phnum (read_ehdr sample_kernel 0x1000)). let p = read_phdr sample_kernel (phdr_addr 0x1000 (read_ehdr sample_kernel 0x1000) i) in
       p_type p = PT_LOAD \<and> p_memsz p > 0 \<longrightarrow>
       (\<forall>k < unat (p_memsz p). \<exists>pa.
          translate (read_tables 512 KERNEL_SPACE_PAGES 0x6000000 (boot_page_tables h)) (boot_cr3 h) (p_vaddr p + of_nat k) = Some pa \<and>
          boot_memory h pa = sample_kernel (0x1000 + p_offset p + of_nat k))"
    using efi_main_starts_kernel [OF l a b d, unfolded boot_sizes, OF sample_kernel_ok y(1) e [symmetric] y(2) f y(3) g, of "0x6000000"] x(2,3)
    by (auto simp: sample_kernel_ehdr(1))
  from h(5) obtain pa where
    "translate (read_tables 512 KERNEL_SPACE_PAGES 0x6000000 (boot_page_tables h)) (boot_cr3 h) 0xffff800000100000 = Some pa"
    "boot_memory h pa = sample_kernel 0x1078"
    by (auto simp: sample_kernel_ehdr(4) sample_kernel_addr sample_kernel_phdr Let_def PT_LOAD_def dest: spec [of _ 0])
  then show ?thesis using h(1-4) x(1) by auto
qed

end
