(* ===== verification/Ordered_Map.thy ===== *)
theory Ordered_Map
  imports Main
begin

text \<open>
  The ordered map of the standard library, \<^verbatim>\<open>std::map\<close>, as \<^verbatim>\<open>include/common/kmap.hpp\<close> uses it: a sequence of entries and the comparison that
  the class of the keys defines.  Two keys are the same for the map when neither is less than the other.  What a map
  promises to its users depends on the comparison; the locales say what is needed.
\<close>

section \<open>Operations\<close>

fun om_find :: "('k \<Rightarrow> 'k \<Rightarrow> bool) \<Rightarrow> ('k \<times> 'v) list \<Rightarrow> 'k \<Rightarrow> 'v option" where
  "om_find lt [] k = None"
| "om_find lt ((k', v) # m) k = (if lt k' k then om_find lt m k else if lt k k' then None else Some v)"

text \<open>\<^verbatim>\<open>m[k] = v\<close>: an entry that is there keeps its key.\<close>

fun om_put :: "('k \<Rightarrow> 'k \<Rightarrow> bool) \<Rightarrow> ('k \<times> 'v) list \<Rightarrow> 'k \<Rightarrow> 'v \<Rightarrow> ('k \<times> 'v) list" where
  "om_put lt [] k v = [(k, v)]"
| "om_put lt ((k', v') # m) k v =
     (if lt k' k then (k', v') # om_put lt m k v
      else if lt k k' then (k, v) # (k', v') # m
      else (k', v) # m)"

section \<open>What a dictionary promises\<close>

locale dictionary =
  fixes lookup :: "'m \<Rightarrow> 'k \<Rightarrow> 'v option" and update :: "'m \<Rightarrow> 'k \<Rightarrow> 'v \<Rightarrow> 'm" and inv :: "'m \<Rightarrow> bool" and empty :: 'm
  assumes inv_empty: "inv empty"
    and lookup_empty: "lookup empty k = None"
    and inv_update: "inv m \<Longrightarrow> inv (update m k v)"
    and lookup_update: "inv m \<Longrightarrow> lookup (update m k v) k' = (if k' = k then Some v else lookup m k')"
begin

definition updates :: "'m \<Rightarrow> ('k \<times> 'v) list \<Rightarrow> 'm" where
  "updates = foldl (\<lambda>m (k, v). update m k v)"

lemma updates_lookup:
  "inv m \<Longrightarrow> inv (updates m kvs) \<and> lookup (updates m kvs) k = (case map_of (rev kvs) k of Some v \<Rightarrow> Some v | None \<Rightarrow> lookup m k)"
proof (induction kvs rule: rev_induct)
  case Nil
  then show ?case by (simp add: updates_def)
next
  case (snoc kv kvs)
  then have "inv (updates m kvs)" "lookup (updates m kvs) k = (case map_of (rev kvs) k of Some v \<Rightarrow> Some v | None \<Rightarrow> lookup m k)" by auto
  then show ?case by (cases kv) (simp add: updates_def inv_update lookup_update)
qed

text \<open>From the empty dictionary on, the last value put under a key is the one found.\<close>

lemma last_put_found: "lookup (updates empty kvs) k = map_of (rev kvs) k"
  using updates_lookup [OF inv_empty, of kvs k] by (simp add: lookup_empty split: option.splits)

end

section \<open>Maps over a linear order\<close>

locale comparator =
  fixes lt :: "'k \<Rightarrow> 'k \<Rightarrow> bool"
  assumes irrefl: "\<not> lt k k"
    and trans: "lt a b \<Longrightarrow> lt b c \<Longrightarrow> lt a c"
    and connex: "a \<noteq> b \<Longrightarrow> lt a b \<or> lt b a"
begin

definition in_order :: "('k \<times> 'v) list \<Rightarrow> bool" where
  "in_order = sorted_wrt (\<lambda>(a, _) (b, _). lt a b)"

lemma asym: "lt a b \<Longrightarrow> \<not> lt b a"
  using trans irrefl by blast

lemma set_om_put: "in_order m \<Longrightarrow> fst ` set (om_put lt m k v) = insert k (fst ` set m)"
proof (induction m)
  case (Cons e m)
  then show ?case using connex [of k "fst e"] by (cases e) (auto simp: in_order_def insert_commute)
qed simp

lemma om_put_in_order: "in_order m \<Longrightarrow> in_order (om_put lt m k v)"
proof (induction m)
  case (Cons e m)
  obtain k' v' where e: "e = (k', v')" by (cases e)
  have m: "in_order m" "\<And>x. x \<in> fst ` set m \<Longrightarrow> lt k' x" using Cons.prems by (auto simp: in_order_def e)
  show ?case
  proof (cases "lt k' k")
    case True
    have "lt k' (fst x)" if "x \<in> set (om_put lt m k v)" for x
    proof -
      have "fst x \<in> insert k (fst ` set m)" using set_om_put [OF m(1)] that by blast
      then show ?thesis using True m(2) by auto
    qed
    then show ?thesis using Cons.IH [OF m(1)] True by (auto simp: e in_order_def)
  next
    case False
    then show ?thesis using Cons.prems trans [of k k'] connex [of k k'] by (auto simp: e in_order_def)
  qed
qed (simp add: in_order_def)

lemma om_find_put: "in_order m \<Longrightarrow> om_find lt (om_put lt m k v) k' = (if k' = k then Some v else om_find lt m k')"
proof (induction m)
  case Nil
  then show ?case using connex [of k k'] irrefl by auto
next
  case (Cons e m)
  obtain k1 v1 where e: "e = (k1, v1)" by (cases e)
  have m: "in_order m" using Cons.prems by (auto simp: in_order_def)
  show ?case
  proof (cases "lt k1 k")
    case True
    then show ?thesis using Cons.IH [OF m] asym [OF True] by (auto simp: e)
  next
    case False
    show ?thesis
    proof (cases "lt k k1")
      case True
      then have "lt k' k \<Longrightarrow> om_find lt (e # m) k' = None" using trans [of k' k k1] asym [of k' k1] by (simp add: e)
      then show ?thesis using False True connex [of k k'] asym [of k k'] irrefl by (auto simp: e)
    next
      case False
      then have "k1 = k" using \<open>\<not> lt k1 k\<close> connex by blast
      then show ?thesis using connex [of k k'] irrefl by (auto simp: e)
    qed
  qed
qed

end

sublocale comparator \<subseteq> om: dictionary "om_find lt" "om_put lt" in_order "[]"
  by unfold_locales (simp_all add: in_order_def om_put_in_order [unfolded in_order_def] om_find_put [unfolded in_order_def])

end
