(* ===== verification/Net.thy ===== *)
theory Net
  imports Lib Serial Ss_Queue Ordered_Map
begin

text \<open>
  The network layer: the addresses and frames of \<^verbatim>\<open>include/net/ethernet.hpp\<close>, \<^verbatim>\<open>include/net/ipv4.hpp\<close> with \<^verbatim>\<open>net/ipv4.cpp\<close>, and the address
  resolution of \<^verbatim>\<open>include/net/arp.hpp\<close> and \<^verbatim>\<open>net/arp.cpp\<close>.  A received payload is the list of its bytes; what is handed to the
  Ethernet driver for sending is returned.  The two tables of the resolver are ordered maps over the comparisons of their
  keys.  The locks around the tables are left out: the operations run one at a time.
\<close>

section \<open>Ethernet\<close>

definition EtherTypeIPv4 :: u16 where "EtherTypeIPv4 = 0x0800"

definition EtherTypeARP :: u16 where "EtherTypeARP = 0x0806"

datatype EthernetAddress = EthernetAddress u8 u8 u8 u8 u8 u8

fun eth_data :: "EthernetAddress \<Rightarrow> u8 list" where
  "eth_data (EthernetAddress a b c d e f) = [a, b, c, d, e, f]"

text \<open>The comparisons by \<^verbatim>\<open>memcmp\<close> on the six bytes.\<close>

definition eth_less :: "EthernetAddress \<Rightarrow> EthernetAddress \<Rightarrow> bool" where
  "eth_less x y = (cmp_bytes (eth_data x) (eth_data y) < 0)"

definition eth_eq :: "EthernetAddress \<Rightarrow> EthernetAddress \<Rightarrow> bool" where
  "eth_eq x y = (cmp_bytes (eth_data x) (eth_data y) = 0)"

definition eth_print :: "EthernetAddress \<Rightarrow> char list" where
  "eth_print a = concat (map (\<lambda>i. (if i \<noteq> 0 then '':'' else []) @ hex01 (eth_data a ! i)) [0..<6])"

definition IsBroadcast :: "EthernetAddress \<Rightarrow> bool" where
  "IsBroadcast a = list_all (\<lambda>v. v = 0xff) (eth_data a)"

definition Broadcast :: EthernetAddress where
  "Broadcast = EthernetAddress 0xff 0xff 0xff 0xff 0xff 0xff"

definition read_eth :: "u8 list \<Rightarrow> EthernetAddress" where
  "read_eth xs = EthernetAddress (xs ! 0) (xs ! 1) (xs ! 2) (xs ! 3) (xs ! 4) (xs ! 5)"

text \<open>A frame in memory; the protocol is in network order.\<close>

record KEthernetPacket =
  pkt_size :: nat
  pkt_max_size :: nat
  pkt_dst :: EthernetAddress
  pkt_src :: EthernetAddress
  pkt_protocol :: u16
  pkt_data :: "u8 list"

definition EthernetHeaderSize :: nat where "EthernetHeaderSize = 6 * 2 + 2"

definition L2MTU :: nat where "L2MTU = 1500"

text \<open>\<open>raw\<close> is what the allocated memory held before.\<close>

definition create_packet :: "KEthernetPacket \<Rightarrow> KEthernetPacket" where
  "create_packet raw = raw\<lparr>pkt_size := 0, pkt_max_size := L2MTU\<rparr>"

section \<open>IPv4\<close>

datatype IPv4Address = IPv4Address u8 u8 u8 u8

fun ip_data :: "IPv4Address \<Rightarrow> u8 list" where
  "ip_data (IPv4Address a b c d) = [a, b, c, d]"

text \<open>The constructor from four bytes.\<close>

definition ip_of :: "u8 list \<Rightarrow> IPv4Address" where
  "ip_of xs = IPv4Address (xs ! 0) (xs ! 1) (xs ! 2) (xs ! 3)"

definition to_u32 :: "IPv4Address \<Rightarrow> u32" where
  "to_u32 x = swap_endian32 (foldr (\<lambda>b w. ucast b OR push_bit 8 w) (ip_data x) 0)"

text \<open>The comparison of the class: both sides of it are the left operand.\<close>

definition ip_less :: "IPv4Address \<Rightarrow> IPv4Address \<Rightarrow> bool" where
  "ip_less x y = (to_u32 x < to_u32 x)"

definition ip_address :: IPv4Address where "ip_address = IPv4Address 172 20 0 3"

definition gateway_address :: IPv4Address where "gateway_address = IPv4Address 172 20 0 1"

section \<open>ARP packets\<close>

definition ArpOpcodeRequest :: u16 where "ArpOpcodeRequest = 1"

definition ArpOpcodeReply :: u16 where "ArpOpcodeReply = 2"

definition ArpHwAddressSpaceEthernet :: u16 where "ArpHwAddressSpaceEthernet = 1"

definition ArpProtoAddressSpaceIPv4 :: u16 where "ArpProtoAddressSpaceIPv4 = 0x0800"

text \<open>The fields hold what is in memory, so the words of 16 bits are in network order.\<close>

record ArpPacket =
  hardware_address_space :: u16
  protocol_address_space :: u16
  hw_len :: u8
  proto_len :: u8
  opcode :: u16
  hw_sender :: EthernetAddress
  proto_sender :: "u8 list"
  hw_target :: EthernetAddress
  proto_target :: "u8 list"

definition sizeof_ArpPacket :: nat where "sizeof_ArpPacket = 28"

definition le16 :: "u8 list \<Rightarrow> nat \<Rightarrow> u16" where
  "le16 xs i = ucast (xs ! i) OR push_bit 8 (ucast (xs ! (i + 1)))"

definition le16_bytes :: "u16 \<Rightarrow> u8 list" where
  "le16_bytes v = [byte_of v 0, byte_of v 1]"

text \<open>The packet at the start of a buffer.\<close>

definition arp_at :: "u8 list \<Rightarrow> ArpPacket" where
  "arp_at xs =
     \<lparr>hardware_address_space = le16 xs 0, protocol_address_space = le16 xs 2, hw_len = xs ! 4, proto_len = xs ! 5, opcode = le16 xs 6,
      hw_sender = read_eth (drop 8 xs), proto_sender = take 4 (drop 14 xs), hw_target = read_eth (drop 18 xs),
      proto_target = take 4 (drop 24 xs)\<rparr>"

definition arp_bytes :: "ArpPacket \<Rightarrow> u8 list" where
  "arp_bytes p = le16_bytes (hardware_address_space p) @ le16_bytes (protocol_address_space p) @ [hw_len p, proto_len p] @
     le16_bytes (opcode p) @ eth_data (hw_sender p) @ proto_sender p @ eth_data (hw_target p) @ proto_target p"

section \<open>The resolver\<close>

record ArpDriver =
  eth_address :: EthernetAddress
  ip_driver :: bool
  eth2ip :: "(EthernetAddress \<times> IPv4Address) list"
  ip2eth :: "(IPv4Address \<times> EthernetAddress) list"
  tmp_pkt :: ArpPacket
  arp_queue :: "ArpPacket SSQueue"

text \<open>A frame for the Ethernet driver: destination, protocol and payload.\<close>

type_synonym tx = "EthernetAddress \<times> u16 \<times> u8 list"

definition arp_find_eth :: "ArpDriver \<Rightarrow> EthernetAddress \<Rightarrow> IPv4Address option" where
  "arp_find_eth d mac = om_find eth_less (eth2ip d) mac"

definition arp_find_ip :: "ArpDriver \<Rightarrow> IPv4Address \<Rightarrow> EthernetAddress option" where
  "arp_find_ip d ip = om_find ip_less (ip2eth d) ip"

definition arp_put :: "ArpDriver \<Rightarrow> EthernetAddress \<Rightarrow> IPv4Address \<Rightarrow> ArpDriver" where
  "arp_put d eth ip = d\<lparr>eth2ip := om_put eth_less (eth2ip d) eth ip, ip2eth := om_put ip_less (ip2eth d) ip eth\<rparr>"

definition SetIPDriver :: "ArpDriver \<Rightarrow> ArpDriver" where
  "SetIPDriver d = arp_put (d\<lparr>ip_driver := True\<rparr>) (eth_address d) ip_address"

text \<open>The packet is copied and the copy is swapped into the queue; when the queue is full it is dropped.\<close>

definition queue_up_mapping :: "ArpDriver \<Rightarrow> ArpPacket \<Rightarrow> ArpDriver res" where
  "queue_up_mapping d packet =
     (let d1 = d\<lparr>tmp_pkt := packet\<rparr> in
      bindR (enq (arp_queue d1) (tmp_pkt d1)) (\<lambda>(success, tmp, q). Inr (d1\<lparr>tmp_pkt := tmp, arp_queue := q\<rparr>)))"

text \<open>The payload is taken for a packet whatever its length; reading past its end is outside the vector.\<close>

definition arp_HandleRx :: "ArpDriver \<Rightarrow> u8 list \<Rightarrow> ArpDriver res" where
  "arp_HandleRx d data =
     bindR (guardR (sizeof_ArpPacket \<le> length data) ''ArpPacket'') (\<lambda>_.
     let packet = arp_at data in
     if \<not> (swap_endian16 (hardware_address_space packet) = ArpHwAddressSpaceEthernet \<and>
           swap_endian16 (protocol_address_space packet) = ArpProtoAddressSpaceIPv4) then Inr d
     else bindR (assertR (hw_len packet = 6) ''packet->hw_len == 6'') (\<lambda>_.
          bindR (assertR (proto_len packet = 4) ''packet->proto_len == 4'') (\<lambda>_.
          if swap_endian16 (opcode packet) = ArpOpcodeRequest then queue_up_mapping d packet
          else if swap_endian16 (opcode packet) = ArpOpcodeReply then queue_up_mapping d packet
          else Inr d)))"

text \<open>
  The answer to a request.  \<^verbatim>\<open>ip_target\<close> is a pointer to the four bytes of the packet, whose address is \<open>field_addr\<close>, and the
  copy into the reply takes the bytes of the pointer.
\<close>

definition handle_request :: "ArpDriver \<Rightarrow> ArpPacket \<Rightarrow> u64 \<Rightarrow> tx option res" where
  "handle_request d packet field_addr =
     bindR (assertR (swap_endian16 (opcode packet) = ArpOpcodeRequest) ''be(packet->opcode) == ArpOpcodeRequest'') (\<lambda>_.
     case arp_find_ip d (ip_of (proto_target packet)) of
       None \<Rightarrow> Inr None
     | Some mac_target \<Rightarrow>
         if \<not> ip_driver d then Inr None
         else let reply_packet =
                \<lparr>hardware_address_space = swap_endian16 ArpHwAddressSpaceEthernet,
                 protocol_address_space = swap_endian16 ArpProtoAddressSpaceIPv4,
                 hw_len = swap_endian8 6, proto_len = swap_endian8 4, opcode = swap_endian16 ArpOpcodeReply,
                 hw_sender = eth_address d, proto_sender = ip_data ip_address, hw_target = mac_target,
                 proto_target = map (byte_of field_addr) [0..<4]\<rparr>
              in Inr (Some (hw_sender packet, EtherTypeARP, arp_bytes reply_packet)))"

text \<open>\<open>packet\<close> is the packet the thread owns; it is swapped with the one in the queue.\<close>

definition arp_thread_poll_rx :: "ArpDriver \<Rightarrow> ArpPacket \<Rightarrow> u64 \<Rightarrow> (ArpDriver \<times> ArpPacket \<times> tx option) res" where
  "arp_thread_poll_rx d packet field_addr =
     bindR (deq (arp_queue d) packet) (\<lambda>(success, packet', q).
     let d1 = d\<lparr>arp_queue := q\<rparr> in
     if \<not> success then Inr (d1, packet', None)
     else let d2 = arp_put d1 (hw_sender packet') (ip_of (proto_sender packet')) in
          if swap_endian16 (opcode packet') = ArpOpcodeRequest
          then bindR (handle_request d2 packet' field_addr) (\<lambda>reply. Inr (d2, packet', reply))
          else Inr (d2, packet', None))"

definition Request :: "ArpDriver \<Rightarrow> IPv4Address \<Rightarrow> tx" where
  "Request d ip_target =
     (Broadcast, EtherTypeARP, arp_bytes
        \<lparr>hardware_address_space = swap_endian16 ArpHwAddressSpaceEthernet,
         protocol_address_space = swap_endian16 ArpProtoAddressSpaceIPv4,
         hw_len = swap_endian8 6, proto_len = swap_endian8 4, opcode = swap_endian16 ArpOpcodeRequest,
         hw_sender = eth_address d, proto_sender = ip_data ip_address, hw_target = EthernetAddress 0 0 0 0 0 0,
         proto_target = ip_data ip_target\<rparr>)"

definition request_gateway_ethernet_address :: "ArpDriver \<Rightarrow> tx res" where
  "request_gateway_ethernet_address d = bindR (guardR (ip_driver d) ''ip_driver_'') (\<lambda>_. Inr (Request d gateway_address))"

text \<open>Round \<open>i\<close> of the thread's loop, with the frames it sends.\<close>

definition arp_thread_round :: "ArpDriver \<Rightarrow> ArpPacket \<Rightarrow> u64 \<Rightarrow> nat \<Rightarrow> (ArpDriver \<times> ArpPacket \<times> tx list) res" where
  "arp_thread_round d packet field_addr i =
     bindR (arp_thread_poll_rx d packet field_addr) (\<lambda>(d1, packet', reply).
     let sent = (case reply of None \<Rightarrow> [] | Some t \<Rightarrow> [t]) in
     if i mod 10000 = 0
     then bindR (request_gateway_ethernet_address d1) (\<lambda>t. Inr (d1, packet', sent @ [t]))
     else Inr (d1, packet', sent))"

text \<open>The IP layer looks the sender up; the result is what it prints, \<^const>\<open>None\<close> for an unknown sender.\<close>

definition ip_HandleRx :: "ArpDriver \<Rightarrow> EthernetAddress \<Rightarrow> char list res option" where
  "ip_HandleRx d src = map_option (\<lambda>ip. foldr (\<lambda>i acc. bindR (print_int Dec (ucast (ip_data ip ! i))) (\<lambda>s.
     bindR acc (\<lambda>r. Inr ((if i \<noteq> 0 then ''.'' else []) @ s @ r)))) [0..<4] (Inr [])) (arp_find_eth d src)"

section \<open>Addresses as keys\<close>

lemma eth_data_inject: "eth_data x = eth_data y \<longleftrightarrow> x = y"
  by (cases x; cases y) simp

lemma length_eth_data [simp]: "length (eth_data x) = 6"
  by (cases x) simp

lemma length_ip_data [simp]: "length (ip_data x) = 4"
  by (cases x) simp

lemma eth_eq_iff: "eth_eq x y \<longleftrightarrow> x = y"
  by (simp add: eth_eq_def cmp_bytes_eq_0 eth_data_inject)

interpretation eth_order: comparator eth_less
proof
  show "\<not> eth_less k k" for k by (simp add: eth_less_def)
  show "eth_less a b \<Longrightarrow> eth_less b c \<Longrightarrow> eth_less a c" for a b c
    unfolding eth_less_def by (rule cmp_bytes_trans [of _ "eth_data b"]) simp_all
  show "a \<noteq> b \<Longrightarrow> eth_less a b \<or> eth_less b a" for a b
    using cmp_bytes_eq_0 [of "eth_data a" "eth_data b"] cmp_bytes_anti [of "eth_data a" "eth_data b"]
    by (auto simp: eth_less_def eth_data_inject)
qed

text \<open>The other table has at most one entry, and every address finds it.\<close>

lemma ip_table_single:
  "om_find ip_less (om_put ip_less m ip eth) ip' = Some eth"
  by (cases m) (auto simp: ip_less_def)

section \<open>Packets on the wire\<close>

lemma le16_bytes_at: "le16 (xs @ le16_bytes v @ ys) (length xs) = v"
proof (rule bit_word_eqI)
  fix n assume "n < LENGTH(16)"
  then show "bit (le16 (xs @ le16_bytes v @ ys) (length xs)) n = bit v n"
    by (cases "n < 8") (auto simp: le16_def le16_bytes_def nth_append byte_of_def bit_simps)
qed

definition arp_ok :: "ArpPacket \<Rightarrow> bool" where
  "arp_ok p \<longleftrightarrow> length (proto_sender p) = 4 \<and> length (proto_target p) = 4"

lemma length_le16_bytes [simp]: "length (le16_bytes v) = 2"
  by (simp add: le16_bytes_def)

lemma length_arp_bytes: "arp_ok p \<Longrightarrow> length (arp_bytes p) = 28"
  by (simp add: arp_bytes_def arp_ok_def)

lemma read_eth_data: "read_eth (eth_data x @ ys) = x"
  by (cases x) (simp add: read_eth_def)

lemma arp_at_bytes:
  assumes "arp_ok p"
  shows "arp_at (arp_bytes p @ padding) = p"
proof -
  obtain h r l k c s ps t pt where p: "p = \<lparr>hardware_address_space = h, protocol_address_space = r, hw_len = l, proto_len = k, opcode = c,
      hw_sender = s, proto_sender = ps, hw_target = t, proto_target = pt\<rparr>" by (cases p)
  have len: "length ps = 4" "length pt = 4" using assms by (auto simp: arp_ok_def p)
  let ?x = "le16_bytes h @ le16_bytes r @ [l, k] @ le16_bytes c @ eth_data s @ ps @ eth_data t @ pt @ padding"
  have x: "arp_bytes p @ padding = ?x" by (simp add: arp_bytes_def p)
  have "le16 ?x 0 = h" using le16_bytes_at [of "[]" h] by simp
  moreover have "le16 ?x 2 = r" using le16_bytes_at [of "le16_bytes h" r] by simp
  moreover have "le16 ?x 6 = c" using le16_bytes_at [of "le16_bytes h @ le16_bytes r @ [l, k]" c] by simp
  moreover have "?x ! 4 = l" "?x ! 5 = k" by (simp_all add: nth_append)
  moreover have "drop 8 ?x = eth_data s @ ps @ eth_data t @ pt @ padding" by simp
  moreover have "drop 14 ?x = ps @ eth_data t @ pt @ padding" by simp
  moreover have "drop 18 ?x = eth_data t @ pt @ padding" using len by simp
  moreover have "drop 24 ?x = pt @ padding" using len by simp
  ultimately show ?thesis unfolding x arp_at_def using len by (simp add: p read_eth_data)
qed

section \<open>Properties\<close>

text \<open>After any sequence of mappings has been learned, an Ethernet address is resolved to the IP address that was put
  last under it.  In the other direction the comparison of IP addresses calls every two of them equal: the table has a single
  entry, and every IP address, known or not, is resolved to the sender of the last mapping.\<close>

theorem arp_tables:
  assumes "eth2ip d = []" "ip2eth d = []"
  shows "let d' = foldl (\<lambda>d (eth, ip). arp_put d eth ip) d maps in
    arp_find_eth d' eth = map_of (rev maps) eth \<and>
    arp_find_ip d' ip = (if maps = [] then None else Some (fst (last maps)))"
proof -
  let ?d = "\<lambda>maps. foldl (\<lambda>d (eth, ip). arp_put d eth ip) d maps"
  have "eth2ip (?d maps) = eth_order.om.updates [] maps"
    by (induction maps rule: rev_induct) (auto simp: eth_order.om.updates_def assms(1) arp_put_def)
  then have "arp_find_eth (?d maps) eth = map_of (rev maps) eth"
    unfolding arp_find_eth_def by (simp only: eth_order.om.last_put_found)
  moreover have "arp_find_ip (?d maps) ip = (if maps = [] then None else Some (fst (last maps)))"
    by (cases maps rule: rev_cases) (auto simp: arp_find_ip_def assms(2) arp_put_def ip_table_single split: prod.splits)
  ultimately show ?thesis by (simp add: Let_def)
qed

theorem arp_tables_witness:
  "\<forall>d a b. let d' = foldl (\<lambda>d (eth, ip). arp_put d eth ip) (d\<lparr>eth2ip := [], ip2eth := []\<rparr>)
      [(a, IPv4Address 10 0 0 1), (Broadcast, IPv4Address 10 0 0 2)] in
     arp_find_eth d' Broadcast = Some (IPv4Address 10 0 0 2) \<and> arp_find_ip d' (IPv4Address 10 0 0 1) = Some Broadcast"
proof (intro allI)
  fix d a b
  show "let d' = foldl (\<lambda>d (eth, ip). arp_put d eth ip) (d\<lparr>eth2ip := [], ip2eth := []\<rparr>)
      [(a, IPv4Address 10 0 0 1), (Broadcast, IPv4Address 10 0 0 2)] in
     arp_find_eth d' Broadcast = Some (IPv4Address 10 0 0 2) \<and> arp_find_ip d' (IPv4Address 10 0 0 1) = Some Broadcast"
    using arp_tables [of "d\<lparr>eth2ip := [], ip2eth := []\<rparr>" "[(a, IPv4Address 10 0 0 1), (Broadcast, IPv4Address 10 0 0 2)]" Broadcast
      "IPv4Address 10 0 0 1"] by (simp add: Let_def)
qed

lemma queue_up_ok:
  assumes "ssq_ok (arp_queue d)" "length (ssq_items (arp_queue d)) < ssq_room (arp_queue d)"
  shows "\<exists>tmp q. queue_up_mapping d p = Inr (d\<lparr>tmp_pkt := tmp, arp_queue := q\<rparr>) \<and> ssq_ok q \<and> ssq_room q = ssq_room (arp_queue d) \<and>
    ssq_items q = ssq_items (arp_queue d) @ [p]"
proof -
  obtain tmp q where "enq (arp_queue d) p = Inr (True, tmp, q)" "ssq_ok q" "ssq_room q = ssq_room (arp_queue d)"
    "ssq_items q = ssq_items (arp_queue d) @ [p]" using ssq.put_room [OF assms, of p] by blast
  then show ?thesis by (intro exI [of _ tmp] exI [of _ q]) (simp add: queue_up_mapping_def Let_def)
qed

lemma arp_put_keeps [simp]:
  "eth_address (arp_put d e i) = eth_address d" "ip_driver (arp_put d e i) = ip_driver d" "arp_queue (arp_put d e i) = arp_queue d"
  by (simp_all add: arp_put_def)

lemma ip_of_data: "ip_of (ip_data x) = x"
  by (cases x) (simp add: ip_of_def)

text \<open>C17: what one machine broadcasts to find an address, another one accepts, queues and answers: the answer goes to the sender and carries the
  Ethernet and IP address of the answering machine.  It is given whatever address was asked for, since every
  address is found, and the field for the address it is meant for holds the low bytes of a pointer.\<close>

theorem arp_exchange:
  assumes q: "ssq_ok (arp_queue d')" "ssq_items (arp_queue d') = []" "0 < ssq_room (arp_queue d')" and ip: "ip_driver d'"
  shows "\<exists>bytes d1 d2 p reply. Request d asked = (Broadcast, EtherTypeARP, bytes) \<and> arp_HandleRx d' bytes = Inr d1 \<and>
    arp_thread_poll_rx d1 packet field_addr = Inr (d2, p, Some (eth_address d, EtherTypeARP, arp_bytes reply)) \<and>
    swap_endian16 (opcode reply) = ArpOpcodeReply \<and> hw_sender reply = eth_address d' \<and> proto_sender reply = [172, 20, 0, 3] \<and>
    hw_target reply = eth_address d \<and> proto_target reply = map (byte_of field_addr) [0..<4] \<and>
    arp_find_ip d2 asked = Some (eth_address d) \<and> ssq_items (arp_queue d2) = []"
proof -
  obtain bytes where b: "Request d asked = (Broadcast, EtherTypeARP, bytes)" by (simp add: Request_def)
  define p where "p = \<lparr>hardware_address_space = swap_endian16 ArpHwAddressSpaceEthernet,
         protocol_address_space = swap_endian16 ArpProtoAddressSpaceIPv4,
         hw_len = swap_endian8 6, proto_len = swap_endian8 4, opcode = swap_endian16 ArpOpcodeRequest,
         hw_sender = eth_address d, proto_sender = ip_data ip_address, hw_target = EthernetAddress 0 0 0 0 0 0,
         proto_target = ip_data asked\<rparr>"
  have p: "bytes = arp_bytes p" "arp_ok p" using b by (simp_all add: Request_def p_def arp_ok_def)
  obtain tmp q1 where e: "queue_up_mapping d' p = Inr (d'\<lparr>tmp_pkt := tmp, arp_queue := q1\<rparr>)" "ssq_ok q1" "ssq_items q1 = [p]"
    using queue_up_ok [OF q(1), of p] q(2,3) by auto
  have h: "arp_HandleRx d' bytes = Inr (d'\<lparr>tmp_pkt := tmp, arp_queue := q1\<rparr>)"
    using e(1) arp_at_bytes [OF p(2), of "[]"] length_arp_bytes [OF p(2)]
    by (simp add: arp_HandleRx_def p(1) sizeof_ArpPacket_def Let_def) (simp add: p_def swap_endian8_def)
  obtain q2 where q2: "deq q1 packet = Inr (True, p, q2)" "ssq_items q2 = []"
    using ssq.get_some [OF e(2), of packet] e(3) by auto
  have f: "arp_find_ip (arp_put d2 x y) z = Some x" for d2 x y z by (simp add: arp_find_ip_def arp_put_def ip_table_single)
  define d2 where "d2 = arp_put (d'\<lparr>tmp_pkt := tmp, arp_queue := q2\<rparr>) (eth_address d) (ip_of (proto_sender p))"
  define reply where "reply = \<lparr>hardware_address_space = swap_endian16 ArpHwAddressSpaceEthernet,
         protocol_address_space = swap_endian16 ArpProtoAddressSpaceIPv4,
         hw_len = swap_endian8 6, proto_len = swap_endian8 4, opcode = swap_endian16 ArpOpcodeReply,
         hw_sender = eth_address d', proto_sender = ip_data ip_address, hw_target = eth_address d,
         proto_target = map (byte_of field_addr) [0..<4]\<rparr>"
  have o: "swap_endian16 (opcode p) = ArpOpcodeRequest" "hw_sender p = eth_address d" by (simp_all add: p_def)
  have "handle_request d2 p field_addr = Inr (Some (eth_address d, EtherTypeARP, arp_bytes reply))"
    unfolding handle_request_def using o ip f by (simp add: d2_def reply_def Let_def)
  then have "arp_thread_poll_rx (d'\<lparr>tmp_pkt := tmp, arp_queue := q1\<rparr>) packet field_addr =
      Inr (d2, p, Some (eth_address d, EtherTypeARP, arp_bytes reply))"
    using q2(1) o by (simp add: arp_thread_poll_rx_def Let_def d2_def)
  moreover have "arp_find_ip d2 asked = Some (eth_address d)" "ssq_items (arp_queue d2) = []"
    using q2(2) f by (simp_all add: d2_def)
  ultimately show ?thesis using b h
    by (intro exI [of _ bytes] exI [of _ "d'\<lparr>tmp_pkt := tmp, arp_queue := q1\<rparr>"] exI [of _ d2] exI [of _ p] exI [of _ reply])
      (simp add: reply_def ip_address_def)
qed


definition sample_driver :: "EthernetAddress \<Rightarrow> ArpPacket \<Rightarrow> ArpDriver" where
  "sample_driver mac raw = SetIPDriver \<lparr>eth_address = mac, ip_driver = False, eth2ip = [], ip2eth = [], tmp_pkt = raw,
     arp_queue = ssq_new (replicate 4 raw)\<rparr>"

lemma sample_driver_ready:
  "ssq_ok (arp_queue (sample_driver mac raw))" "ssq_items (arp_queue (sample_driver mac raw)) = []"
  "ssq_room (arp_queue (sample_driver mac raw)) = 3" "ip_driver (sample_driver mac raw)" "eth_address (sample_driver mac raw) = mac"
  by (simp_all add: sample_driver_def SetIPDriver_def ssq_ok_def ssq_new_def ssq_items_def ssq_count_def ssq_room_def)

theorem arp_exchange_witness:
  "\<forall>raw. \<exists>bytes d1 d2 p reply. Request (sample_driver (EthernetAddress 2 0 0 0 0 1) raw) (IPv4Address 10 0 0 9) = (Broadcast, EtherTypeARP, bytes) \<and>
     arp_HandleRx (sample_driver (EthernetAddress 2 0 0 0 0 2) raw) bytes = Inr d1 \<and>
     arp_thread_poll_rx d1 raw 0x12345678 = Inr (d2, p, Some (EthernetAddress 2 0 0 0 0 1, EtherTypeARP, arp_bytes reply)) \<and>
     hw_sender reply = EthernetAddress 2 0 0 0 0 2"
  using arp_exchange [OF sample_driver_ready(1,2) _ sample_driver_ready(4)] by (fastforce simp: sample_driver_ready)


end
