(* ===== verification/Rtl8139.thy ===== *)
theory Rtl8139
  imports Net Cpu_Defs
begin

text \<open>
  The network card driver, \<^verbatim>\<open>device/rtl8139.cpp\<close> and \<^verbatim>\<open>include/device/rtl8139.hpp\<close>: the receive ring, the four transmit buffers with the frame
  check sequence, the interrupt handler and the transmit thread.  The contents of the receive ring and the values that the
  status registers return are inputs; \<^const>\<open>None\<close> is a wait that never ends.
\<close>

section \<open>The device\<close>

definition RxOk :: u16 where "RxOk = 1"
definition RxError :: u16 where "RxError = 2"
definition TxOk :: u16 where "TxOk = 4"
definition TxError :: u16 where "TxError = 8"
definition RxOverflow :: u16 where "RxOverflow = 0x10"
definition RxFifoOverflow :: u16 where "RxFifoOverflow = 0x40"
definition RxAck :: u16 where "RxAck = RxOk OR RxOverflow OR RxFifoOverflow"

definition TxQueueSize :: nat where "TxQueueSize = 32"

record Rtl8139Device =
  mac :: EthernetAddress
  rx_buffer :: "nat \<Rightarrow> u8"
  rx_offset :: u32
  tx_buffer :: "nat \<Rightarrow> nat \<Rightarrow> u8"
  tx_buffer_index :: nat
  tx_done :: bool
  arp :: "ArpDriver option"
  ipv4 :: bool
  tx_queue :: "KEthernetPacket SSQueue"
  tx_status :: "nat \<Rightarrow> u32"
  current_address_of_packet_read :: u16

definition init_tx_queue :: "(nat \<Rightarrow> KEthernetPacket) \<Rightarrow> KEthernetPacket list" where
  "init_tx_queue raw = map (\<lambda>i. create_packet (raw i)) [0..<TxQueueSize]"

text \<open>The constructor; \<open>rx\<close> and \<open>tx\<close> are the contents of the new buffers, and \<open>raw\<close> those of the packets.  The card's command register gets
  the bus master bit, and loses the one that disables interrupts.\<close>

definition rtl_new :: "(nat \<Rightarrow> u8) \<Rightarrow> (nat \<Rightarrow> nat \<Rightarrow> u8) \<Rightarrow> (nat \<Rightarrow> KEthernetPacket) \<Rightarrow> EthernetAddress \<Rightarrow> (nat \<Rightarrow> u32) \<Rightarrow> Rtl8139Device" where
  "rtl_new rx tx raw mac0 status =
     \<lparr>mac = mac0, rx_buffer = rx, rx_offset = 0, tx_buffer = tx, tx_buffer_index = 0, tx_done = False, arp = None, ipv4 = False,
      tx_queue = ssq_new (init_tx_queue raw), tx_status = status, current_address_of_packet_read = 0\<rparr>"

definition pci_command :: "u16 \<Rightarrow> u16" where
  "pci_command command = (command OR push_bit 2 1) AND NOT (push_bit 10 1)"

text \<open>The register writes of a reset: power on, start the reset, and after it the buffers' addresses, what to receive and how to
  send, the start, and the interrupts.\<close>

definition reset_writes :: "u32 \<Rightarrow> (nat \<Rightarrow> u32) \<Rightarrow> (nat \<times> u32) list" where
  "reset_writes rx_buffer_phy tx_buffer_phy =
     [(0x52, 0), (0x37, 0x10), (0x30, rx_buffer_phy), (0x44, 0xf OR push_bit 7 1), (0x40, push_bit 24 3 OR push_bit 8 7 OR push_bit 4 8)] @
     map (\<lambda>i. (0x20 + 4 * i, tx_buffer_phy i)) [0..<4] @ [(0x37, 0xc), (0x3c, 0xe07f)]"

text \<open>\<open>cmd\<close> is what the command register returns while the card resets, and \<open>regs_mac\<close> the address it reports.\<close>

definition reset :: "(nat \<Rightarrow> u8) \<Rightarrow> EthernetAddress \<Rightarrow> u32 \<Rightarrow> (nat \<Rightarrow> u32) \<Rightarrow> Rtl8139Device \<Rightarrow> (Rtl8139Device \<times> (nat \<times> u32) list) option" where
  "reset cmd regs_mac rx_buffer_phy tx_buffer_phy d =
     (case wait_until (\<lambda>t. cmd t AND 0x10 = 0) 0 of
        None \<Rightarrow> None
      | Some t \<Rightarrow> Some (d\<lparr>mac := regs_mac\<rparr>, reset_writes rx_buffer_phy tx_buffer_phy))"

section \<open>The frame check sequence\<close>

definition crc_bit :: "u64 \<Rightarrow> u64" where
  "crc_bit crc = (if crc AND 1 \<noteq> 0 then drop_bit 1 crc XOR 0xedb88320 else drop_bit 1 crc)"

definition crc_byte :: "u64 \<Rightarrow> u8 \<Rightarrow> u64" where
  "crc_byte crc b = (crc_bit ^^ 8) (crc XOR ucast b)"

definition crc32iso_hdlc :: "u64 \<Rightarrow> u8 list \<Rightarrow> u64" where
  "crc32iso_hdlc crc data = foldl crc_byte (crc XOR 0xffffffff) data XOR 0xffffffff"

section \<open>Receiving\<close>

definition RxUpper :: "Rtl8139Device \<Rightarrow> EthernetAddress \<Rightarrow> EthernetAddress \<Rightarrow> u16 \<Rightarrow> u8 list \<Rightarrow> Rtl8139Device res" where
  "RxUpper d dst src protocol data =
     (if protocol = EtherTypeARP
      then case arp d of
             None \<Rightarrow> Inl (Panic ''arp_ != nullptr'')
           | Some a \<Rightarrow> bindR (arp_HandleRx a data) (\<lambda>a'. Inr (d\<lparr>arp := Some a'\<rparr>))
      else if protocol = EtherTypeIPv4
      then bindR (assertR (ipv4 d) ''ipv4_ != nullptr'') (\<lambda>_. Inr d)
      else Inr d)"

text \<open>The sum is computed with 64 bits and stored with 32.\<close>

definition consume_rx :: "Rtl8139Device \<Rightarrow> u32 \<Rightarrow> Rtl8139Device" where
  "consume_rx d packet_size =
     (let off = ucast ((ucast (rx_offset d) + ucast packet_size + 4 + 3) AND NOT (3 :: u64)) :: u32 in
      d\<lparr>current_address_of_packet_read := ucast (off - 0x10), rx_offset := off mod 8192\<rparr>)"

definition rx_bytes :: "Rtl8139Device \<Rightarrow> nat \<Rightarrow> nat \<Rightarrow> u8 list" where
  "rx_bytes d i n = map (\<lambda>k. rx_buffer d (unat (rx_offset d) + i + k)) [0..<n]"

definition le32 :: "u8 list \<Rightarrow> u32" where
  "le32 xs = foldr (\<lambda>b w. ucast b OR push_bit 8 w) xs 0"

text \<open>The ring has 64K.  A packet size below 4 makes the length of the checked part wrap, and below 18 that of the payload.\<close>

definition handle_rx :: "Rtl8139Device \<Rightarrow> Rtl8139Device res" where
  "handle_rx d =
     bindR (guardR (unat (rx_offset d) + 4 \<le> 65536) ''rx_buffer'') (\<lambda>_.
     let status = le32 (rx_bytes d 0 4); packet_size = drop_bit 16 status; n = unat packet_size in
     if packet_size = 0 then Inr d
     else bindR (guardR (4 \<le> n \<and> unat (rx_offset d) + 4 + n \<le> 65536) ''rx_buffer'') (\<lambda>_.
       let data = rx_bytes d 4 n;
           calculated_crc32 = crc32iso_hdlc 0 (take (n - 4) data);
           stored_crc32 = le32 (drop (n - 4) data)
       in if ucast stored_crc32 \<noteq> calculated_crc32 then Inr (consume_rx d packet_size)
          else bindR (guardR (18 \<le> n) ''upper_size'') (\<lambda>_.
            let upper_buffer = take (n - 18) (drop 14 data); dst = read_eth data; src = read_eth (drop 6 data);
                protocol = swap_endian16 (le16 data 12)
            in if \<not> IsBroadcast dst \<and> \<not> eth_eq dst (mac d) then Inr (consume_rx d packet_size)
               else bindR (RxUpper d dst src protocol upper_buffer) (\<lambda>d'. Inr (consume_rx d' packet_size)))))"

section \<open>Sending\<close>

definition tx_ready :: "Rtl8139Device \<Rightarrow> bool" where
  "tx_ready d = (tx_status d (tx_buffer_index d) AND push_bit 13 1 \<noteq> 0)"

definition handle_tx :: "Rtl8139Device \<Rightarrow> Rtl8139Device" where
  "handle_tx d = d\<lparr>tx_buffer_index := (tx_buffer_index d + 1) mod 4, tx_done := True\<rparr>"

text \<open>
  \<open>buffer_addr\<close> is where the frame lies.  The padding of a short frame is meant to be cleared, but the address is computed from the
  array of buffer pointers and not from the buffer: the cleared bytes start \<^verbatim>\<open>8 * (index + size)\<close> after the
  start of that array.  The third component is that stray range, if there is one.
\<close>

definition tx_async :: "u64 \<Rightarrow> u8 list \<Rightarrow> Rtl8139Device \<Rightarrow> (bool \<times> Rtl8139Device \<times> (nat \<times> nat) option) res" where
  "tx_async buffer_addr buffer d =
     (if \<not> tx_ready d then Inr (False, d, None)
      else bindR (assertR (buffer_addr - KERNEL_START < push_bit 32 1) ''invalid tx buffer set, must be < 4G'') (\<lambda>_.
        let size0 = length buffer; idx = tx_buffer_index d in
        bindR (guardR (size0 + 4 \<le> 4096) ''tx_buffer'') (\<lambda>_.
        let buf1 = (\<lambda>k. if k < size0 then buffer ! k else tx_buffer d idx k);
            stray = (if size0 < 64 - 4 then Some (8 * (idx + size0), 64 - 4 - size0) else None);
            size1 = (if size0 < 64 - 4 then 64 - 4 else size0);
            crc32 = ucast (crc32iso_hdlc 0 (map buf1 [0..<size1])) :: u32;
            buf2 = (\<lambda>k. if size1 \<le> k \<and> k < size1 + 4 then byte_of crc32 (k - size1) else buf1 k);
            size2 = size1 + 4
        in Inr (True, d\<lparr>tx_buffer := (tx_buffer d)(idx := buf2),
             tx_status := (tx_status d)(idx := (tx_status d idx AND NOT (push_bit 13 1)) OR (of_nat size2 AND 0xfff))\<rparr>, stray))))"

text \<open>The frame in memory, from \<^verbatim>\<open>pkt_start\<close> on.\<close>

definition frame :: "KEthernetPacket \<Rightarrow> u8 list" where
  "frame p = take (EthernetHeaderSize + pkt_size p) (eth_data (pkt_dst p) @ eth_data (pkt_src p) @ le16_bytes (pkt_protocol p) @ pkt_data p)"

text \<open>One round of the transmit thread.  \<open>ready\<close> and \<open>acked\<close> are what it reads while it waits; the interrupt handler sets the flag.\<close>

definition kthread_round :: "(nat \<Rightarrow> bool) \<Rightarrow> (nat \<Rightarrow> bool) \<Rightarrow> u64 \<Rightarrow> KEthernetPacket \<Rightarrow> Rtl8139Device \<Rightarrow>
    (KEthernetPacket \<times> Rtl8139Device) res option" where
  "kthread_round ready acked buffer_addr packet d =
     (case deq (tx_queue d) packet of
        Inl e \<Rightarrow> Some (Inl e)
      | Inr (success, packet', q) \<Rightarrow>
          let d1 = d\<lparr>tx_queue := q\<rparr> in
          if \<not> success then Some (Inr (packet', d1))
          else case wait_until ready 0 of None \<Rightarrow> None | Some t \<Rightarrow>
            (case tx_async buffer_addr (frame packet') d1 of
               Inl e \<Rightarrow> Some (Inl e)
             | Inr (queued, d2, _) \<Rightarrow>
                 if \<not> queued then Some (Inr (packet', d2))
                 else case wait_until acked 0 of None \<Rightarrow> None | Some t' \<Rightarrow> Some (Inr (packet', d2\<lparr>tx_done := False\<rparr>))))"

text \<open>The driver's own packet is filled in and swapped into the queue.\<close>

definition TxEnqueue :: "EthernetAddress \<Rightarrow> u16 \<Rightarrow> u8 list \<Rightarrow> KEthernetPacket \<Rightarrow> Rtl8139Device \<Rightarrow> (bool \<times> KEthernetPacket \<times> Rtl8139Device) res" where
  "TxEnqueue dst protocol payload tx_packet d =
     bindR (guardR (length payload \<le> length (pkt_data tx_packet)) ''tx_packet_->data'') (\<lambda>_.
     let p = tx_packet\<lparr>pkt_size := length payload, pkt_dst := dst, pkt_src := mac d, pkt_protocol := swap_endian16 protocol,
               pkt_data := payload @ drop (length payload) (pkt_data tx_packet)\<rparr>
     in bindR (enq (tx_queue d) p) (\<lambda>(queued, p', q). Inr (queued, p', d\<lparr>tx_queue := q\<rparr>)))"

section \<open>Interrupts\<close>

text \<open>\<open>isr k\<close> is what read \<open>k\<close> of the interrupt status register returns.  The result also has the values written to it.\<close>

definition irq :: "(nat \<Rightarrow> u16) \<Rightarrow> Rtl8139Device \<Rightarrow> (bool \<times> Rtl8139Device \<times> u16 list) res" where
  "irq isr d =
     (if isr 0 = 0 then Inr (False, d, [])
      else bindR (if isr 1 AND RxOk \<noteq> 0 then bindR (handle_rx d) (\<lambda>d'. Inr (d', [RxOk])) else Inr (d, [])) (\<lambda>(d1, w1).
           let w2 = (if isr 2 AND RxError \<noteq> 0 then w1 @ [RxError] else w1);
               (d3, w3) = (if isr 3 AND TxOk \<noteq> 0 then (handle_tx d1, w2 @ [TxOk]) else (d1, w2));
               w4 = (if isr 4 AND TxError \<noteq> 0 then w3 @ [TxError] else w3)
           in bindR (if isr 5 AND RxOverflow \<noteq> 0 then bindR (handle_rx d3) (\<lambda>d'. Inr (d', w4 @ [RxOverflow])) else Inr (d3, w4)) (\<lambda>(d5, w5).
              Inr (True, d5, w5 @ [RxAck]))))"

text \<open>The handler that the bus calls; the flag says whether the interrupt was acknowledged at the local controller.\<close>

definition rtl_HandleInterrupt :: "(nat \<Rightarrow> u16) \<Rightarrow> Rtl8139Device \<Rightarrow> (bool \<times> Rtl8139Device \<times> bool) res" where
  "rtl_HandleInterrupt isr d = bindR (irq isr d) (\<lambda>(handled, d', _). Inr (handled, d', handled))"

section \<open>The check sequence detects damaged bytes\<close>

lemma poly_bits: "bit (0xedb88320 :: u64) n \<Longrightarrow> n < 32" "bit (0xedb88320 :: u64) 31"
proof -
  have t: "take_bit 32 (0xedb88320 :: u64) = 0xedb88320" by simp
  show "n < 32" if "bit (0xedb88320 :: u64) n"
  proof -
    have "bit (take_bit 32 (0xedb88320 :: u64)) n" unfolding t using that .
    then show ?thesis by (simp only: bit_take_bit_iff)
  qed
  show "bit (0xedb88320 :: u64) 31" by simp
qed

lemma bit_crc_bit: "bit (crc_bit x) n \<longleftrightarrow> bit x (Suc n) \<noteq> (bit x 0 \<and> bit (0xedb88320 :: u64) n)"
proof -
  have "x AND 1 \<noteq> 0 \<longleftrightarrow> bit x 0" by (simp add: and_one_eq bit_0 odd_iff_mod_2_eq_one)
  then show ?thesis by (auto simp: crc_bit_def bit_simps)
qed

definition in_32 :: "u64 \<Rightarrow> bool" where
  "in_32 x \<longleftrightarrow> (\<forall>n \<ge> 32. \<not> bit x n)"

lemma in_32_crc_bit: "in_32 x \<Longrightarrow> in_32 (crc_bit x)"
  unfolding in_32_def bit_crc_bit using poly_bits(1) by (meson le_SucI leD)

lemma crc_bit_inj:
  assumes "in_32 x" "in_32 y" "crc_bit x = crc_bit y"
  shows "x = y"
proof (rule bit_word_eqI)
  have e: "bit x (Suc n) \<noteq> (bit x 0 \<and> bit (0xedb88320 :: u64) n) \<longleftrightarrow> bit y (Suc n) \<noteq> (bit y 0 \<and> bit (0xedb88320 :: u64) n)" for n
    using assms(3) bit_crc_bit by metis
  have "\<not> bit x 32" "\<not> bit y 32" using assms(1,2) by (auto simp: in_32_def)
  then have z: "bit x 0 = bit y 0" using e [of 31] poly_bits(2) by simp
  fix n
  show "bit x n = bit y n" using z e by (cases n) auto
qed

lemma in_32_xor: "in_32 x \<Longrightarrow> in_32 y \<Longrightarrow> in_32 (x XOR y)"
  by (auto simp: in_32_def bit_simps)

lemma in_32_byte: "in_32 (ucast (b :: u8))"
  by (auto simp: in_32_def bit_simps dest: bit_imp_le_length)

lemma in_32_ones: "in_32 0xffffffff"
proof -
  have "(0xffffffff :: u64) = mask 32" by (simp add: mask_eq_exp_minus_1)
  then show ?thesis by (simp only: in_32_def bit_mask_iff) auto
qed

lemma funpow_crc_bit: "in_32 x \<Longrightarrow> in_32 ((crc_bit ^^ n) x)"
  by (induction n) (simp_all add: in_32_crc_bit)

lemma funpow_crc_bit_inj: "in_32 x \<Longrightarrow> in_32 y \<Longrightarrow> (crc_bit ^^ n) x = (crc_bit ^^ n) y \<Longrightarrow> x = y"
proof (induction n)
  case (Suc n)
  then have "(crc_bit ^^ n) x = (crc_bit ^^ n) y" using crc_bit_inj [OF funpow_crc_bit [OF Suc.prems(1), of n] funpow_crc_bit [OF Suc.prems(2), of n]] by simp
  then show ?case using Suc.IH Suc.prems(1,2) by blast
qed simp

lemma crc_byte_in_32: "in_32 x \<Longrightarrow> in_32 (crc_byte x b)"
  by (simp add: crc_byte_def funpow_crc_bit in_32_xor in_32_byte)

lemma crc_byte_inj:
  assumes "in_32 x" "in_32 y" "crc_byte x b = crc_byte y c"
  shows "x XOR ucast b = y XOR ucast c"
  using assms(3) unfolding crc_byte_def
  by (rule funpow_crc_bit_inj [rotated 2]) (simp_all add: assms(1,2) in_32_xor in_32_byte)

lemma xor_same: "x XOR z = y XOR z \<Longrightarrow> x = (y :: u64)"
proof -
  assume "x XOR z = y XOR z"
  then have "(x XOR z) XOR z = (y XOR z) XOR z" by (rule arg_cong)
  then show ?thesis by (simp add: xor.assoc)
qed

lemma foldl_crc_in_32: "in_32 x \<Longrightarrow> in_32 (foldl crc_byte x bs)"
  by (induction bs arbitrary: x) (simp_all add: crc_byte_in_32)

lemma foldl_crc_inj: "in_32 x \<Longrightarrow> in_32 y \<Longrightarrow> foldl crc_byte x bs = foldl crc_byte y bs \<Longrightarrow> x = y"
proof (induction bs arbitrary: x y)
  case (Cons b bs)
  then have "crc_byte x b = crc_byte y b" using Cons.IH [OF crc_byte_in_32 [OF Cons.prems(1)] crc_byte_in_32 [OF Cons.prems(2)]] by simp
  then show ?case using crc_byte_inj [OF Cons.prems(1,2)] xor_same by blast
qed simp

lemma crc_in_32: "in_32 (crc32iso_hdlc 0 bs)"
  by (simp add: crc32iso_hdlc_def in_32_xor in_32_ones foldl_crc_in_32)

lemma ucast_u64_inject:
  assumes "(ucast x :: u64) = ucast y" "LENGTH('a) \<le> 64"
  shows "x = (y :: 'a::len word)"
proof (rule bit_word_eqI)
  fix n assume n: "n < LENGTH('a)"
  have "bit (ucast x :: u64) n = bit (ucast y :: u64) n" using assms(1) by (rule arg_cong)
  then show "bit x n = bit y n" using n assms(2) by (simp add: bit_ucast_iff)
qed

lemma crc_one_byte:
  assumes "b \<noteq> c"
  shows "crc32iso_hdlc 0 (us @ b # vs) \<noteq> crc32iso_hdlc 0 (us @ c # vs)"
proof
  define s where "s = foldl crc_byte (0 XOR 0xffffffff) us"
  have s: "in_32 s" unfolding s_def by (rule foldl_crc_in_32) (simp add: in_32_ones)
  assume "crc32iso_hdlc 0 (us @ b # vs) = crc32iso_hdlc 0 (us @ c # vs)"
  then have "foldl crc_byte (crc_byte s b) vs = foldl crc_byte (crc_byte s c) vs"
    unfolding crc32iso_hdlc_def foldl_append foldl_Cons s_def by (rule xor_same)
  then have "crc_byte s b = crc_byte s c" by (rule foldl_crc_inj [OF crc_byte_in_32 [OF s] crc_byte_in_32 [OF s]])
  then have "s XOR ucast b = s XOR ucast c" by (rule crc_byte_inj [OF s s])
  then have "ucast b XOR s = ucast c XOR s" by (simp only: xor.commute)
  then have "(ucast b :: u64) = ucast c" by (rule xor_same)
  then have "b = c" by (rule ucast_u64_inject) simp
  then show False using assms by simp
qed

section \<open>Frames\<close>

lemma byte_of_le32: "length xs = 4 \<Longrightarrow> k < 4 \<Longrightarrow> byte_of (le32 xs) k = xs ! k"
proof -
  assume "length xs = 4" "k < 4"
  then obtain a b c d where x: "xs = [a, b, c, d]" by (auto simp: numeral_eq_Suc length_Suc_conv)
  have "k = 0 \<or> k = 1 \<or> k = 2 \<or> k = 3" using \<open>k < 4\<close> by auto
  moreover have "byte_of (le32 xs) 0 = a" "byte_of (le32 xs) 1 = b" "byte_of (le32 xs) 2 = c" "byte_of (le32 xs) 3 = d"
    unfolding x by (rule bit_word_eqI; auto simp: byte_of_def le32_def bit_simps dest: bit_imp_le_length)+
  ultimately show ?thesis by (elim disjE) (simp_all add: x)
qed

lemma le32_bytes: "le32 (map (byte_of v) [0..<4]) = v"
proof (rule byte_of_inject)
  fix i assume "8 * i < LENGTH(32)"
  then show "byte_of (le32 (map (byte_of v) [0..<4])) i = byte_of v i" by (subst byte_of_le32) auto
qed

lemma le32_inject:
  assumes "length xs = 4" "length ys = 4" "le32 xs = le32 ys"
  shows "xs = ys"
  using assms byte_of_le32 by (intro nth_equalityI) (simp, metis)

text \<open>A frame as it is on the wire, and the ring with a frame at the current offset.\<close>

definition frame_ok :: "u8 list \<Rightarrow> bool" where
  "frame_ok bs \<longleftrightarrow> 4 \<le> length bs \<and> ucast (le32 (drop (length bs - 4) bs)) = crc32iso_hdlc 0 (take (length bs - 4) bs)"

definition rx_holds :: "Rtl8139Device \<Rightarrow> u8 list \<Rightarrow> bool" where
  "rx_holds d bs \<longleftrightarrow> 0 < length bs \<and> length bs < 65536 \<and> unat (rx_offset d) + 4 + length bs \<le> 65536 \<and>
     drop_bit 16 (le32 (rx_bytes d 0 4)) = of_nat (length bs) \<and> rx_bytes d 4 (length bs) = bs"

lemma rx_holds_size:
  assumes "rx_holds d bs"
  shows "unat (of_nat (length bs) :: u32) = length bs" "(of_nat (length bs) :: u32) \<noteq> 0"
proof -
  show u: "unat (of_nat (length bs) :: u32) = length bs" using assms by (simp add: rx_holds_def unat_of_nat)
  show "(of_nat (length bs) :: u32) \<noteq> 0"
  proof
    assume "(of_nat (length bs) :: u32) = 0"
    then show False using u assms by (simp add: rx_holds_def)
  qed
qed

lemma handle_rx_bad:
  assumes "rx_holds d bs" "4 \<le> length bs" "\<not> frame_ok bs"
  shows "handle_rx d = Inr (consume_rx d (of_nat (length bs)))"
  using assms rx_holds_size [OF assms(1)] unfolding handle_rx_def rx_holds_def frame_ok_def Let_def by auto

lemma handle_rx_good:
  assumes "rx_holds d bs" "frame_ok bs" "18 \<le> length bs" "read_eth bs = Broadcast \<or> read_eth bs = mac d"
  shows "handle_rx d = bindR (RxUpper d (read_eth bs) (read_eth (drop 6 bs)) (swap_endian16 (le16 bs 12)) (take (length bs - 18) (drop 14 bs)))
    (\<lambda>d'. Inr (consume_rx d' (of_nat (length bs))))"
proof -
  have "IsBroadcast Broadcast" by (simp add: IsBroadcast_def Broadcast_def)
  then have "IsBroadcast (read_eth bs) \<or> eth_eq (read_eth bs) (mac d)" using assms(4) by (auto simp: eth_eq_iff)
  then show ?thesis
    using assms(1-3) rx_holds_size [OF assms(1)] unfolding handle_rx_def rx_holds_def frame_ok_def Let_def by auto
qed

lemma damaged_not_ok:
  assumes "frame_ok bs" "i < length bs" "v \<noteq> bs ! i"
  shows "\<not> frame_ok (bs[i := v])"
proof
  let ?n = "length bs - 4"
  assume ok: "frame_ok (bs[i := v])"
  have len: "4 \<le> length bs" using assms(1) by (simp add: frame_ok_def)
  show False
  proof (cases "i < ?n")
    case True
    define xs where "xs = take ?n bs"
    have i: "i < length xs" "xs ! i = bs ! i" using True by (simp_all add: xs_def)
    have t: "take ?n (bs[i := v]) = xs[i := v]" by (simp add: xs_def take_update_swap)
    have "crc32iso_hdlc 0 (take i xs @ xs ! i # drop (Suc i) xs) \<noteq> crc32iso_hdlc 0 (take i xs @ v # drop (Suc i) xs)"
      using assms(3) i(2) by (intro crc_one_byte) simp
    then have "crc32iso_hdlc 0 (take ?n bs) \<noteq> crc32iso_hdlc 0 (take ?n (bs[i := v]))"
      using id_take_nth_drop [OF i(1)] upd_conv_take_nth_drop [OF i(1), of v] unfolding t by (simp only: xs_def [symmetric]) simp
    moreover have "drop ?n (bs[i := v]) = drop ?n bs" using True by simp
    ultimately show False using assms(1) ok by (simp add: frame_ok_def)
  next
    case False
    have "take ?n (bs[i := v]) = take ?n bs" using False by simp
    then have "(ucast (le32 (drop ?n (bs[i := v]))) :: u64) = ucast (le32 (drop ?n bs))" using assms(1) ok by (simp add: frame_ok_def)
    then have "le32 (drop ?n (bs[i := v])) = le32 (drop ?n bs)" by (rule ucast_u64_inject) simp
    then have "drop ?n (bs[i := v]) = drop ?n bs" using len by (intro le32_inject) simp_all
    then have "drop ?n (bs[i := v]) ! (i - ?n) = drop ?n bs ! (i - ?n)" by (rule arg_cong)
    then show False using False assms(2,3) len by simp
  qed
qed

lemma sent_frame_ok:
  assumes "length xs = n" "ys = xs @ map (byte_of (ucast (crc32iso_hdlc 0 xs) :: u32)) [0..<4]"
  shows "frame_ok ys" "length ys = n + 4"
proof -
  have "(ucast (ucast (crc32iso_hdlc 0 xs) :: u32) :: u64) = crc32iso_hdlc 0 xs"
  proof (rule bit_word_eqI)
    fix k assume "k < LENGTH(64)"
    then show "bit (ucast (ucast (crc32iso_hdlc 0 xs) :: u32) :: u64) k = bit (crc32iso_hdlc 0 xs) k"
      using crc_in_32 [of xs] by (cases "k < 32") (auto simp: bit_simps in_32_def)
  qed
  then show "frame_ok ys" "length ys = n + 4" using assms by (simp_all add: frame_ok_def le32_bytes)
qed

text \<open>The offset into the ring.\<close>

definition ring_ok :: "Rtl8139Device \<Rightarrow> bool" where
  "ring_ok d \<longleftrightarrow> unat (rx_offset d) < 8192 \<and> 4 dvd unat (rx_offset d)"

lemma unat_and_not_3: "unat (x AND NOT (3 :: u64)) = 4 * (unat x div 4)"
proof -
  have m: "(3 :: u64) = mask 2" by (simp add: mask_eq_exp_minus_1)
  have e: "x AND NOT 3 = push_bit 2 (drop_bit 2 x)" unfolding m
  proof (rule bit_word_eqI)
    fix n assume "n < LENGTH(64)"
    then show "bit (x AND NOT (mask 2)) n = bit (push_bit 2 (drop_bit 2 x)) n"
      by (cases "n < 2") (auto simp: bit_simps dest!: leI le_Suc_ex)
  qed
  have d: "unat (drop_bit 2 x) = unat x div 4" by (subst unat_drop_bit_eq) (simp add: drop_bit_eq_div)
  have "unat x < 2 ^ LENGTH(64)" by (rule unsigned_less)
  then have "4 * (unat x div 4) < 2 ^ 64" by simp
  then show ?thesis unfolding e push_bit_eq_mult by (simp add: unat_word_ariths(2) d)
qed

lemma consume_rx_offset:
  assumes "ring_ok d" "unat packet_size < 65536"
  shows "unat (rx_offset (consume_rx d packet_size)) = 4 * ((unat (rx_offset d) + unat packet_size + 7) div 4) mod 8192"
    "ring_ok (consume_rx d packet_size)"
proof -
  let ?n = "unat (rx_offset d) + unat packet_size + 7"
  have u: "unat (ucast (rx_offset d) :: u64) = unat (rx_offset d)" "unat (ucast packet_size :: u64) = unat packet_size"
    using assms by (simp_all add: unsigned_ucast_eq take_bit_eq_mod ring_ok_def)
  have b: "?n < 131072" using assms by (simp add: ring_ok_def)
  have "unat (ucast (rx_offset d) + ucast packet_size + 4 + 3 :: u64) = ?n"
    using b u by (simp add: unat_word_ariths(1) add.assoc)
  then have "unat ((ucast (rx_offset d) + ucast packet_size + 4 + 3) AND NOT (3 :: u64)) = 4 * (?n div 4)" unfolding unat_and_not_3 by (rule arg_cong)
  then have c: "unat (ucast ((ucast (rx_offset d) + ucast packet_size + 4 + 3) AND NOT (3 :: u64)) :: u32) = 4 * (?n div 4)"
    using b by (simp add: unsigned_ucast_eq take_bit_eq_mod)
  show r: "unat (rx_offset (consume_rx d packet_size)) = 4 * (?n div 4) mod 8192"
  proof -
    have "rx_offset (consume_rx d packet_size) = ucast ((ucast (rx_offset d) + ucast packet_size + 4 + 3) AND NOT (3 :: u64)) mod 8192"
      by (simp add: consume_rx_def Let_def)
    then show ?thesis unfolding c [symmetric] by (simp only: unat_mod) simp
  qed
  have "4 dvd (4 * (?n div 4) mod 8192)" by (simp add: dvd_mod)
  then show "ring_ok (consume_rx d packet_size)" unfolding ring_ok_def r by simp
qed

definition rtl_ok :: "Rtl8139Device \<Rightarrow> bool" where
  "rtl_ok d \<longleftrightarrow> ring_ok d \<and> tx_buffer_index d < 4 \<and> ssq_ok (tx_queue d)"

lemma rtl_ok_consume: "rtl_ok d \<Longrightarrow> unat n < 65536 \<Longrightarrow> rtl_ok (consume_rx d n)"
  using consume_rx_offset(2) by (auto simp: rtl_ok_def consume_rx_def Let_def)

lemma RxUpper_keeps: "RxUpper d dst src protocol data = Inr d' \<Longrightarrow> rtl_ok d' = rtl_ok d"
  by (auto simp: RxUpper_def rtl_ok_def ring_ok_def outcome split: if_splits option.splits)

lemma packet_size_bound: "unat (drop_bit 16 (status :: u32)) < 65536"
proof -
  have "unat status < 2 ^ LENGTH(32)" by (rule unsigned_less)
  then show ?thesis by (subst unat_drop_bit_eq) (simp add: drop_bit_eq_div less_mult_imp_div_less)
qed

lemma handle_rx_keeps: "rtl_ok d \<Longrightarrow> handle_rx d = Inr d' \<Longrightarrow> rtl_ok d'"
  using packet_size_bound [of "le32 (rx_bytes d 0 4)"]
  by (auto simp: handle_rx_def Let_def outcome RxUpper_keeps rtl_ok_consume split: if_splits)

lemma handle_tx_keeps: "rtl_ok d \<Longrightarrow> rtl_ok (handle_tx d)"
  by (simp add: rtl_ok_def handle_tx_def ring_ok_def)

lemma irq_keeps:
  assumes "rtl_ok d" "irq isr d = Inr (b, d', ws)"
  shows "rtl_ok d'"
  using assms
  by (auto simp: irq_def Let_def outcome dest: handle_rx_keeps [OF handle_tx_keeps] handle_rx_keeps intro: handle_tx_keeps split: if_splits)

section \<open>Properties\<close>

text \<open>C16: the frame check sequence catches every damage that is confined to one byte: a frame that differs in one byte, of its
  contents or of the sequence itself, from one that was sent is dropped.  No layer above sees it, and the ring advances to the next
  frame.\<close>

theorem damaged_frame_dropped:
  assumes "frame_ok bs" "i < length bs" "v \<noteq> bs ! i" "rx_holds d (bs[i := v])"
  shows "handle_rx d = Inr (consume_rx d (of_nat (length bs)))"
  using handle_rx_bad [OF assms(4)] damaged_not_ok [OF assms(1-3)] assms(1) by (simp add: frame_ok_def)

text \<open>C15: the driver's operations keep its state sound: the offset into the receive ring is a multiple of four below 8192, the
  index of the transmit buffer is below four, and the transmit queue is well formed.\<close>

theorem driver_state_sound:
  assumes "rtl_ok d"
  shows "(irq isr d = Inr (b, d1, ws) \<longrightarrow> rtl_ok d1) \<and>
    (TxEnqueue dst protocol payload p d = Inr (queued, p', d2) \<longrightarrow> rtl_ok d2) \<and>
    (kthread_round ready acked addr packet d = Some (Inr (packet', d3)) \<longrightarrow> rtl_ok d3)"
proof (intro conjI impI)
  show "rtl_ok d1" if "irq isr d = Inr (b, d1, ws)" using irq_keeps [OF assms that] .
next
  assume t: "TxEnqueue dst protocol payload p d = Inr (queued, p', d2)"
  obtain x y q where "enq (tx_queue d) x = Inr (queued, y, q)" "d2 = d\<lparr>tx_queue := q\<rparr>"
    using t by (auto simp: TxEnqueue_def Let_def outcome)
  moreover have "ssq_ok q" using ssq.put_keeps calculation(1) assms by (auto simp: rtl_ok_def)
  ultimately show "rtl_ok d2" using assms by (simp add: rtl_ok_def ring_ok_def)
next
  assume k: "kthread_round ready acked addr packet d = Some (Inr (packet', d3))"
  obtain s1 p1 q where q: "deq (tx_queue d) packet = Inr (s1, p1, q)"
    using k by (auto simp: kthread_round_def split: sum.splits)
  then have ok: "rtl_ok (d\<lparr>tx_queue := q\<rparr>)" using ssq.get_keeps assms by (auto simp: rtl_ok_def ring_ok_def)
  have "rtl_ok d4" if "tx_async addr bs (d\<lparr>tx_queue := q\<rparr>) = Inr (b, d4, r)" for bs b d4 r
    using that ok by (auto simp: tx_async_def Let_def outcome rtl_ok_def ring_ok_def split: if_splits)
  then show "rtl_ok d3" using k q ok
    by (auto simp: kthread_round_def Let_def rtl_ok_def ring_ok_def split: sum.splits if_splits option.splits prod.splits)
qed

text \<open>The bytes the card sends from the current buffer.\<close>

definition on_wire :: "Rtl8139Device \<Rightarrow> u8 list" where
  "on_wire d = map (tx_buffer d (tx_buffer_index d)) [0..<unat (tx_status d (tx_buffer_index d) AND 0xfff)]"

lemma size_and_fff: "n < 4096 \<Longrightarrow> unat (of_nat n AND 0xfff :: u32) = n"
proof -
  assume n: "n < 4096"
  have m: "(0xfff :: u32) = mask 12" by (simp add: mask_eq_exp_minus_1)
  have "unat (of_nat n AND 0xfff :: u32) = take_bit 12 (unat (of_nat n :: u32))"
    unfolding m take_bit_eq_mask [symmetric] by (rule unsigned_take_bit_eq)
  then show ?thesis using n by (simp add: unat_of_nat take_bit_eq_mod)
qed

lemma and_or_and:
  assumes "x AND f = (0 :: 'a::len word)"
  shows "((x AND y) OR (z AND f)) AND f = z AND f"
proof (rule bit_word_eqI)
  fix n
  have "\<not> bit (x AND f) n" unfolding assms by simp
  then show "bit (((x AND y) OR (z AND f)) AND f) n = bit (z AND f) n" by (auto simp: bit_and_iff bit_or_iff)
qed

lemma tx_async_sends:
  assumes "tx_ready d" "buffer_addr - KERNEL_START < push_bit 32 1" "14 \<le> length bs" "length bs \<le> 1514"
    and "tx_status d (tx_buffer_index d) AND 0xfff = 0"
  shows "\<exists>d' stray. tx_async buffer_addr bs d = Inr (True, d', stray) \<and> frame_ok (on_wire d') \<and> tx_buffer_index d' = tx_buffer_index d \<and>
    (let pad = map (tx_buffer d (tx_buffer_index d)) [length bs..<60] in
     length (on_wire d') = length bs + length pad + 4 \<and> take (length bs + length pad) (on_wire d') = bs @ pad)"
proof -
  let ?i = "tx_buffer_index d" and ?n = "length bs"
  let ?pad = "map (tx_buffer d ?i) [?n..<60]"
  define m where "m = (if ?n < 64 - 4 then 64 - 4 else ?n)"
  define buf where "buf = (\<lambda>k. if k < ?n then bs ! k else tx_buffer d ?i k)"
  define crc where "crc = (ucast (crc32iso_hdlc 0 (map buf [0..<m])) :: u32)"
  define buf2 where "buf2 = (\<lambda>k. if m \<le> k \<and> k < m + 4 then byte_of crc (k - m) else buf k)"
  define st where "st = (tx_status d ?i AND NOT (push_bit 13 1)) OR (of_nat (m + 4) AND 0xfff)"
  define stray where "stray = (if ?n < 64 - 4 then Some (8 * (?i + ?n), 64 - 4 - ?n) else None)"
  define d' where "d' = d\<lparr>tx_buffer := (tx_buffer d)(?i := buf2), tx_status := (tx_status d)(?i := st)\<rparr>"
  have "tx_async buffer_addr bs d = bindR (assertR (buffer_addr - KERNEL_START < push_bit 32 1) ''invalid tx buffer set, must be < 4G'')
      (\<lambda>_. bindR (guardR (?n + 4 \<le> 4096) ''tx_buffer'') (\<lambda>_. Inr (True, d', stray)))"
    unfolding tx_async_def Let_def d'_def stray_def st_def buf2_def crc_def buf_def m_def by (subst if_not_P, simp add: assms(1), rule refl)
  then have t: "tx_async buffer_addr bs d = Inr (True, d', stray)" using assms(2,4) by simp
  have m: "m + 4 < 4096" "m = ?n + length ?pad" using assms(4) unfolding m_def by simp_all
  have "st AND 0xfff = of_nat (m + 4) AND 0xfff" unfolding st_def by (rule and_or_and [OF assms(5)])
  then have st: "unat (st AND 0xfff) = m + 4" by (simp only: size_and_fff [OF m(1)])
  have body: "map buf [0..<m] = bs @ ?pad" using m(2) by (intro nth_equalityI) (auto simp: nth_append buf_def)
  have "on_wire d' = map buf2 [0..<m + 4]" unfolding on_wire_def d'_def by (simp add: st)
  also have "\<dots> = map buf2 [0..<m] @ map buf2 [m..<m + 4]" using upt_add_eq_append [of 0 m 4] by simp
  also have "map buf2 [0..<m] = bs @ ?pad" unfolding body [symmetric] by (simp add: buf2_def)
  also have "map buf2 [m..<m + 4] = map (byte_of crc) [0..<4]" by (rule nth_equalityI) (auto simp: buf2_def)
  finally have s: "on_wire d' = (bs @ ?pad) @ map (byte_of (ucast (crc32iso_hdlc 0 (bs @ ?pad)) :: u32)) [0..<4]" unfolding crc_def body .
  have "frame_ok (on_wire d')" "length (on_wire d') = ?n + length ?pad + 4" using sent_frame_ok [OF refl s] by simp_all
  moreover have "take (?n + length ?pad) (on_wire d') = bs @ ?pad" unfolding s by simp
  moreover have "tx_buffer_index d' = ?i" by (simp add: d'_def)
  ultimately show ?thesis using t by (auto simp: Let_def)
qed

lemma frame_header:
  assumes "length payload \<le> length (pkt_data p)" "pkt_size p = length payload" "take (length payload) (pkt_data p) = payload"
  shows "frame p = eth_data (pkt_dst p) @ eth_data (pkt_src p) @ le16_bytes (pkt_protocol p) @ payload"
  using assms by (simp add: frame_def EthernetHeaderSize_def)


lemma TxEnqueue_ok:
  assumes "ssq_ok (tx_queue d)" "length (ssq_items (tx_queue d)) < ssq_room (tx_queue d)" "length payload \<le> length (pkt_data p)"
  shows "\<exists>p' d'. TxEnqueue dst protocol payload p d = Inr (True, p', d')"
proof -
  let ?p = "p\<lparr>pkt_size := length payload, pkt_dst := dst, pkt_src := mac d, pkt_protocol := swap_endian16 protocol,
               pkt_data := payload @ drop (length payload) (pkt_data p)\<rparr>"
  obtain p' q where "enq (tx_queue d) ?p = Inr (True, p', q)" using ssq.put_room [OF assms(1,2), of ?p] by blast
  then show ?thesis using assms(3) by (simp add: TxEnqueue_def Let_def)
qed

section \<open>Sample runs\<close>

definition sample_packet :: KEthernetPacket where
  "sample_packet = create_packet \<lparr>pkt_size = 7, pkt_max_size = 0, pkt_dst = Broadcast, pkt_src = Broadcast, pkt_protocol = 0, pkt_data = replicate 1500 0\<rparr>"

definition sample_card :: "(nat \<Rightarrow> u8) \<Rightarrow> Rtl8139Device" where
  "sample_card rx = rtl_new rx (\<lambda>_ _. 0x55) (\<lambda>_. sample_packet) (EthernetAddress 2 0 0 0 0 1) (\<lambda>_. 0x2000)"

lemma sample_card_ok:
  "rtl_ok (sample_card rx)" "ssq_items (tx_queue (sample_card rx)) = []" "ssq_room (tx_queue (sample_card rx)) = 31" "tx_ready (sample_card rx)"
  "tx_status (sample_card rx) (tx_buffer_index (sample_card rx)) AND 0xfff = 0"
  by (simp_all add: sample_card_def rtl_new_def rtl_ok_def ring_ok_def ssq_ok_def ssq_new_def init_tx_queue_def TxQueueSize_def ssq_items_def
      ssq_count_def ssq_room_def tx_ready_def)

theorem damaged_frame_dropped_witness:
  "\<exists>d. handle_rx (sample_card ((\<lambda>_. 0)(2 := 4, 4 := 1))) = Inr d \<and> rx_offset d = 8"
proof -
  let ?d = "sample_card ((\<lambda>_. 0)(2 := 4, 4 := 1))"
  have ok: "frame_ok [0, 0, 0, 0]" by (simp add: frame_ok_def le32_def crc32iso_hdlc_def)
  have "rx_holds ?d ([0, 0, 0, 0][0 := 1])"
    by (simp add: rx_holds_def sample_card_def rtl_new_def rx_bytes_def le32_def upt_rec drop_bit_eq_div)
  then have "handle_rx ?d = Inr (consume_rx ?d (of_nat (length [0, 0, 0, 0 :: u8])))"
    by (intro damaged_frame_dropped [OF ok, of 0 1]) simp_all
  then show ?thesis by (simp add: consume_rx_def sample_card_def rtl_new_def)
qed

theorem driver_state_sound_witness:
  "\<exists>d ws. irq (\<lambda>_. 4) (sample_card (\<lambda>_. 0)) = Inr (True, d, ws) \<and> rtl_ok d \<and> tx_buffer_index d = 1"
proof -
  have "irq (\<lambda>_. 4) (sample_card (\<lambda>_. 0)) = Inr (True, handle_tx (sample_card (\<lambda>_. 0)), [TxOk, RxAck])"
    by (simp add: irq_def RxOk_def RxError_def TxOk_def TxError_def RxOverflow_def Let_def)
  then show ?thesis using driver_state_sound [OF sample_card_ok(1)] by (auto simp: handle_tx_def sample_card_def rtl_new_def)
qed


end
