(* ===== verification/Ahci.thy ===== *)
theory Ahci
  imports Scheduler Mm
begin

text \<open>
  The disk driver, \<^verbatim>\<open>device/ahci.cpp\<close> and \<^verbatim>\<open>include/device/ahci.hpp\<close>: the command that reads sectors, the byte
  interface on top of it, and the start-up of the controller.  The controller is an input: what reads of its registers
  return, one value for each read, and what a command does to memory (direct memory access).
\<close>

section \<open>Registers and command structures\<close>

definition SATA_SIG_SATA :: u32 where "SATA_SIG_SATA = 0x00000101"

definition HBA_PxCMD_ST :: u32 where "HBA_PxCMD_ST = 0x0001"
definition HBA_PxCMD_FRE :: u32 where "HBA_PxCMD_FRE = 0x0010"
definition HBA_PxCMD_FR :: u32 where "HBA_PxCMD_FR = 0x4000"
definition HBA_PxCMD_CR :: u32 where "HBA_PxCMD_CR = 0x8000"
definition HBA_PxIS_TFES :: u32 where "HBA_PxIS_TFES = push_bit 30 1"
definition ATA_DEV_BUSY :: u32 where "ATA_DEV_BUSY = 0x80"
definition ATA_DEV_DRQ :: u32 where "ATA_DEV_DRQ = 0x08"
definition FIS_TYPE_REG_H2D :: u8 where "FIS_TYPE_REG_H2D = 0x27"
definition ATA_CMD_READ_DMA_EX :: u8 where "ATA_CMD_READ_DMA_EX = 0x25"
definition SectorSize :: u64 where "SectorSize = 512"

text \<open>
  The registers of a port during one command.  A register that the controller changes is a function from the number of the read to
  the value it returns.  \<open>ctba\<close> is what the command header of a slot holds as the address of its command table.
\<close>

record HBA_PORT =
  clb :: u32
  clbu :: u32
  fb :: u32
  fbu :: u32
  sact :: u32
  ci_free :: u32
  cmd :: "nat \<Rightarrow> u32"
  tfd :: "nat \<Rightarrow> u32"
  ci :: "nat \<Rightarrow> u32"
  port_is :: "nat \<Rightarrow> u32"
  sig :: u32
  ssts :: u32
  ctba :: "nat \<Rightarrow> u64"

record HBA_CMD_HEADER =
  cfl :: nat
  cmd_w :: bool
  prdtl :: u16

record HBA_PRDT_ENTRY =
  dba :: u32
  dbau :: u32
  dbc :: "22 word"
  prdt_i :: bool

text \<open>The fields that the driver leaves are zero, as \<^verbatim>\<open>memset\<close> made them.\<close>

record FIS_REG_H2D =
  fis_type :: u8
  fis_c :: bool
  command :: u8
  lba0 :: u8
  lba1 :: u8
  lba2 :: u8
  device :: u8
  lba3 :: u8
  lba4 :: u8
  lba5 :: u8
  countl :: u8
  counth :: u8

record HBA_CMD_TBL =
  cfis :: FIS_REG_H2D
  prdt_entry :: "HBA_PRDT_ENTRY list"

text \<open>What the controller does to memory when the bit of a slot is set in the issue register.\<close>

type_synonym dma = "nat \<Rightarrow> HBA_CMD_HEADER \<Rightarrow> HBA_CMD_TBL \<Rightarrow> mem \<Rightarrow> mem"

definition port_register :: "u64 \<Rightarrow> u8 \<Rightarrow> u64" where
  "port_register ahci_reg_page port = (ahci_reg_page + 0x100) + 0x80 * ucast port"

section \<open>The command engine\<close>

text \<open>The values written to the command register; each write follows a read of its own.\<close>

definition start_cmd :: "(nat \<Rightarrow> u32) \<Rightarrow> u32 list option" where
  "start_cmd reg =
     (case wait_until (\<lambda>t. reg t AND HBA_PxCMD_CR = 0) 0 of
        None \<Rightarrow> None
      | Some t \<Rightarrow> Some [reg (t + 1) OR HBA_PxCMD_FRE, reg (t + 2) OR HBA_PxCMD_ST])"

partial_function (option) stop_wait :: "(nat \<Rightarrow> u32) \<Rightarrow> nat \<Rightarrow> nat option" where
  "stop_wait reg t =
     (if reg t AND HBA_PxCMD_FR \<noteq> 0 then stop_wait reg (t + 1)
      else if reg (t + 1) AND HBA_PxCMD_CR \<noteq> 0 then stop_wait reg (t + 2)
      else Some (t + 2))"

definition stop_cmd :: "(nat \<Rightarrow> u32) \<Rightarrow> u32 list option" where
  "stop_cmd reg =
     (case stop_wait reg 2 of
        None \<Rightarrow> None
      | Some _ \<Rightarrow> Some [reg 0 AND NOT HBA_PxCMD_ST, reg 1 AND NOT HBA_PxCMD_FRE])"

function find_cmdslot_loop :: "u32 \<Rightarrow> nat \<Rightarrow> int" where
  "find_cmdslot_loop slots i =
     (if i < 32 then if slots AND 1 = 0 then int i else find_cmdslot_loop (drop_bit 1 slots) (i + 1) else - 1)"
  by pat_completeness auto
termination by (relation "measure (\<lambda>(_, i). 32 - i)") auto

declare find_cmdslot_loop.simps [simp del]

definition find_cmdslot :: "HBA_PORT \<Rightarrow> int" where
  "find_cmdslot port = find_cmdslot_loop (sact port OR ci_free port) 0"

section \<open>Reading sectors\<close>

text \<open>One entry of the region table; the byte count field has 22 bits and holds the size minus one.\<close>

definition prdt_of :: "u64 \<Rightarrow> u32 \<Rightarrow> HBA_PRDT_ENTRY" where
  "prdt_of buf_phy_addr bytes = \<lparr>dba = ucast buf_phy_addr, dbau = ucast (drop_bit 32 buf_phy_addr), dbc = ucast (bytes - 1), prdt_i = True\<rparr>"

text \<open>The loop over all entries but the last, with the address and the sector count it leaves.\<close>

fun prdt_loop :: "nat \<Rightarrow> u64 \<Rightarrow> u32 \<Rightarrow> HBA_PRDT_ENTRY list \<times> u64 \<times> u32" where
  "prdt_loop 0 buf_phy_addr count = ([], buf_phy_addr, count)"
| "prdt_loop (Suc n) buf_phy_addr count =
     (let (es, b, c) = prdt_loop n (buf_phy_addr + 4 * 1024 * 2) (count - 16) in (prdt_of buf_phy_addr (8 * 1024) # es, b, c))"

definition read_fis :: "u32 \<Rightarrow> u32 \<Rightarrow> u32 \<Rightarrow> FIS_REG_H2D" where
  "read_fis startl starth count =
     \<lparr>fis_type = FIS_TYPE_REG_H2D, fis_c = True, command = ATA_CMD_READ_DMA_EX,
      lba0 = ucast startl, lba1 = ucast (drop_bit 8 startl), lba2 = ucast (drop_bit 16 startl), device = push_bit 6 1,
      lba3 = ucast (drop_bit 24 startl), lba4 = ucast starth, lba5 = ucast (drop_bit 8 starth),
      countl = ucast (count AND 0xff), counth = ucast (drop_bit 8 count AND 0xff)\<rparr>"

definition read_header :: "u32 \<Rightarrow> HBA_CMD_HEADER" where
  "read_header count = \<lparr>cfl = 5, cmd_w = False, prdtl = ucast (drop_bit 4 (count - 1)) + 1\<rparr>"

definition read_table :: "u32 \<Rightarrow> u32 \<Rightarrow> u32 \<Rightarrow> u64 \<Rightarrow> HBA_CMD_TBL" where
  "read_table startl starth count buf_phy_addr =
     (let n = unat (prdtl (read_header count)) - 1; (es, b, c) = prdt_loop n buf_phy_addr count in
      \<lparr>cfis = read_fis startl starth c, prdt_entry = es @ [prdt_of b (push_bit 9 c)]\<rparr>)"

text \<open>The bounded wait for an idle device: the number of rounds, at most a million.\<close>

function idle_spin :: "HBA_PORT \<Rightarrow> nat \<Rightarrow> nat" where
  "idle_spin port spin =
     (if tfd port spin AND (ATA_DEV_BUSY OR ATA_DEV_DRQ) \<noteq> 0 \<and> spin < 1000000 then idle_spin port (spin + 1) else spin)"
  by pat_completeness auto
termination by (relation "measure (\<lambda>(_, spin). 1000000 - spin)") auto

declare idle_spin.simps [simp del]

text \<open>The wait for completion: whether the command ended without a task file error.\<close>

partial_function (option) wait_completion :: "HBA_PORT \<Rightarrow> nat \<Rightarrow> nat \<Rightarrow> bool option" where
  "wait_completion port slot t =
     (if \<not> bit (ci port t) slot then Some (port_is port t AND HBA_PxIS_TFES = 0)
      else if port_is port t AND HBA_PxIS_TFES \<noteq> 0 then Some False
      else wait_completion port slot (t + 1))"

text \<open>The pending interrupt bits are cleared first, so that \<^const>\<open>port_is\<close> is about this command.\<close>

definition read :: "dma \<Rightarrow> HBA_PORT \<Rightarrow> u32 \<Rightarrow> u32 \<Rightarrow> u32 \<Rightarrow> u64 \<Rightarrow> mem \<Rightarrow> (bool \<times> mem) res option" where
  "read dma port startl starth count buf_phy_addr m =
     (let slot = find_cmdslot port in
      if slot = - 1 then Some (Inr (False, m))
      else let cmdheader_phy = ucast (clb port) + push_bit 32 (ucast (clbu port)) in
      case bindR (assertR (cmdheader_phy < IDENTITY_MAP_PHY_END) []) (\<lambda>_. phy2virt (ctba port (nat slot))) of
        Inl e \<Rightarrow> Some (Inl e)
      | Inr _ \<Rightarrow>
          if idle_spin port 0 = 1000000 then Some (Inr (False, m))
          else map_option (\<lambda>ok. Inr (ok, dma (nat slot) (read_header count) (read_table startl starth count buf_phy_addr) m))
                 (wait_completion port (nat slot) 0))"

section \<open>Reading bytes\<close>

text \<open>
  The controller: the registers of the port at an address, for each command that is given to it, and its effect on memory; the global
  control register and the set of ports.
\<close>

record HBA =
  ports :: "u64 \<Rightarrow> nat \<Rightarrow> HBA_PORT"
  port_dma :: "u64 \<Rightarrow> dma"
  ghc :: "nat \<Rightarrow> u32"
  ports_implemented :: u32

record disk_state =
  kern :: kstate
  memory :: mem
  commands :: nat

datatype Error = ErrSuccess | ErrFailure

definition align_left :: "u64 \<Rightarrow> u64 \<Rightarrow> u64" where
  "align_left value alignment = value div alignment * alignment"

definition align_right :: "u64 \<Rightarrow> u64 \<Rightarrow> u64" where
  "align_right value alignment = (value + alignment - 1) div alignment * alignment"

definition Read :: "HBA \<Rightarrow> u64 \<Rightarrow> disk_state \<Rightarrow> u64 \<Rightarrow> u64 \<Rightarrow> u64 \<Rightarrow> (Error \<times> disk_state) res option" where
  "Read c port_control_reg s output start sz =
     (let sector_start_addr = align_left start SectorSize;
          sector_end_addr = align_right (start + sz) SectorSize;
          start_offset = start - sector_start_addr;
          sector_start = sector_start_addr div SectorSize;
          sector_end = sector_end_addr div SectorSize;
          sector_count = sector_end - sector_start;
          starth = ucast (drop_bit 32 sector_start AND 0xffffffff);
          startl = ucast (sector_start AND 0xffffffff)
      in case kmalloc (allocator (kern s)) sz of
           Inl e \<Rightarrow> Some (Inl e)
         | Inr (buf, a) \<Rightarrow>
             (case read (port_dma c port_control_reg) (ports c port_control_reg (commands s)) startl starth (ucast sector_count)
                     (buf - KERNEL_START) (memory s) of
                None \<Rightarrow> None
              | Some (Inl e) \<Rightarrow> Some (Inl e)
              | Some (Inr (ok, m)) \<Rightarrow>
                  Some (Inr (if ok then ErrSuccess else ErrFailure,
                    s\<lparr>kern := kern s\<lparr>allocator := a\<rparr>, memory := memcpy m output (buf + start_offset) sz, commands := commands s + 1\<rparr>))))"

section \<open>Start-up\<close>

text \<open>The first sector after the boot sector is read into a new block; its contents are only printed.\<close>

definition ahci_port_init :: "HBA \<Rightarrow> u64 \<Rightarrow> disk_state \<Rightarrow> (u32 list \<times> bool \<times> disk_state) res option" where
  "ahci_port_init c reg s =
     (let port = ports c reg (commands s);
          (w, k) = (if cmd port 0 AND 2 = 0 then ([cmd port 1 OR 2], 2) else ([], 1)) in
      case start_cmd (\<lambda>t. cmd port (t + k)) of
        None \<Rightarrow> None
      | Some w' \<Rightarrow>
          let command_list_addr = (ucast (clb port) OR push_bit 32 (ucast (clbu port))) AND 0xfffffffffffff000;
              fis_base_addr = (ucast (fb port) OR push_bit 32 (ucast (fbu port))) AND 0xfffffffffffff000 in
          (case bindR (assertR (command_list_addr < IDENTITY_MAP_PHY_END) []) (\<lambda>_.
                bindR (assertR (fis_base_addr < IDENTITY_MAP_PHY_END) []) (\<lambda>_. kernel_page_alloc (allocator (kern s)) 16)) of
             Inl e \<Rightarrow> Some (Inl e)
           | Inr (buf, a) \<Rightarrow>
               map_option (\<lambda>r. bindR r (\<lambda>(ok, m).
                   Inr (w @ w', ok, s\<lparr>kern := kern s\<lparr>allocator := a\<rparr>, memory := m, commands := commands s + 1\<rparr>)))
                 (read (port_dma c reg) port 1 0 1 (buf - KERNEL_START) (memory s))))"

text \<open>The global control register: the values written, one read before each test and each write.  The second test of the interrupt bit
  is the wrong way round: it stops the kernel if interrupts are on.\<close>

definition ghc_enable :: "(nat \<Rightarrow> u32) \<Rightarrow> u32 list res" where
  "ghc_enable g =
     (let (w1, k) = (if drop_bit 31 (g 0) AND 1 = 0 then ([g 1 OR 0x80000000], 2) else ([], 1)) in
      if drop_bit 31 (g k) AND 1 = 0 then Inl (Panic ''AHCI not enabled'')
      else let (w2, k) = (if g (k + 1) AND 2 \<noteq> 0 then (w1 @ [g (k + 2) OR 2], k + 3) else (w1, k + 2)) in
      if g k AND 2 \<noteq> 0 then Inl (Panic ''Interrupt not enabled'') else Inr w2)"

definition device_present :: "HBA_PORT \<Rightarrow> bool" where
  "device_present port \<longleftrightarrow> ssts port AND 0xf = 3 \<and> drop_bit 4 (ssts port) AND 0xf \<noteq> 0 \<and> drop_bit 8 (ssts port) AND 0xf = 1"

fun init_ports :: "HBA \<Rightarrow> u64 \<Rightarrow> nat list \<Rightarrow> disk_state \<Rightarrow> (u64 list \<times> disk_state) res option" where
  "init_ports c page [] s = Some (Inr ([], s))"
| "init_ports c page (i # is) s =
     (let reg = port_register page (of_nat i); port = ports c reg (commands s) in
      if bit (ports_implemented c) i \<and> device_present port \<and> sig port = SATA_SIG_SATA
      then case ahci_port_init c reg s of
             None \<Rightarrow> None
           | Some (Inl e) \<Rightarrow> Some (Inl e)
           | Some (Inr (_, _, s')) \<Rightarrow> map_option (\<lambda>r. bindR r (\<lambda>(ds, s''). Inr (reg # ds, s''))) (init_ports c page is s')
      else init_ports c page is s)"

text \<open>The result: the value written to the base address register, the addresses of the devices' registers and the new state.\<close>

definition ahci_phy :: u32 where "ahci_phy = 0xcabcd000"

definition Init :: "HBA \<Rightarrow> disk_state \<Rightarrow> (u32 \<times> u64 list \<times> disk_state) res option" where
  "Init c s =
     (case ghc_enable (ghc c) of
        Inl e \<Rightarrow> Some (Inl e)
      | Inr _ \<Rightarrow> map_option (\<lambda>r. bindR r (\<lambda>(ds, s'). Inr (ahci_phy, ds, s'))) (init_ports c (ucast ahci_phy + KERNEL_START) [0..<32] s))"

text \<open>\<open>start\<close> is the address of \<^verbatim>\<open>KthreadEntry\<close> and \<open>this\<close> that of the driver.\<close>

definition ahci_Enumerate :: "Process \<Rightarrow> u64 \<Rightarrow> u64 \<Rightarrow> HBA \<Rightarrow> u64 \<Rightarrow> u64 \<Rightarrow> disk_state \<Rightarrow> (bool \<times> u32 \<times> u64 list \<times> disk_state) res option" where
  "ahci_Enumerate raw kpdpt entry c start this s =
     map_option (\<lambda>r. bindR r (\<lambda>(abar, ds, s'). bindR (create_kthread raw kpdpt entry (kern s') ''ahci'' start this) (\<lambda>(_, k).
       Inr (True, abar, ds, s'\<lparr>kern := k\<rparr>)))) (Init c s)"

section \<open>Slots\<close>

lemma find_cmdslot_loop_least:
  "i \<le> 32 \<Longrightarrow> find_cmdslot_loop slots i =
     (if \<forall>k < 32 - i. bit slots k then - 1 else int (i + (LEAST k. \<not> bit slots k)))"
proof (induction slots i rule: find_cmdslot_loop.induct)
  case (1 slots i)
  have odd: "slots AND 1 = 0 \<longleftrightarrow> \<not> bit slots 0" by (simp add: and_one_eq bit_0 mod2_eq_if)
  show ?case
  proof (cases "i < 32 \<and> bit slots 0")
    case True
    have all: "(\<forall>k < 32 - i. bit slots k) \<longleftrightarrow> (\<forall>k < 32 - (i + 1). bit (drop_bit 1 slots) k)"
    proof -
      obtain n where n: "32 - i = Suc n" "32 - (i + 1) = n" using True by (cases "32 - i") auto
      show ?thesis unfolding n All_less_Suc2 using True by (simp add: bit_simps)
    qed
    have "\<not> bit slots 32" by (auto dest: bit_imp_le_length)
    then have "(LEAST k. \<not> bit slots k) = Suc (LEAST k. \<not> bit slots (Suc k))" using True by (intro Least_Suc) auto
    then show ?thesis using 1 True odd all by (simp add: find_cmdslot_loop.simps [of slots i] bit_simps)
  next
    case False
    then show ?thesis by (auto simp: find_cmdslot_loop.simps [of slots i] odd Least_eq_0)
  qed
qed

section \<open>What the controller does\<close>

text \<open>
  The documented behaviour of the read command, on a disk given by its bytes: the sectors from the block address on, as many as the count
  says (zero stands for 65536), go to the regions of the table in their order.  Physical memory is seen through the kernel's map.
\<close>

definition prdt_addr :: "HBA_PRDT_ENTRY \<Rightarrow> u64" where
  "prdt_addr e = ucast (dba e) OR push_bit 32 (ucast (dbau e))"

definition prdt_bytes :: "HBA_PRDT_ENTRY \<Rightarrow> nat" where
  "prdt_bytes e = unat (dbc e) + 1"

definition write_bytes :: "mem \<Rightarrow> u64 \<Rightarrow> u8 list \<Rightarrow> mem" where
  "write_bytes m p bs = (\<lambda>x. if unat (x - p) < length bs then bs ! unat (x - p) else m x)"

fun scatter :: "HBA_PRDT_ENTRY list \<Rightarrow> u8 list \<Rightarrow> mem \<Rightarrow> mem" where
  "scatter [] bs m = m"
| "scatter (e # es) bs m = scatter es (drop (prdt_bytes e) bs) (write_bytes m (KERNEL_START + prdt_addr e) (take (prdt_bytes e) bs))"

definition fis_lba :: "FIS_REG_H2D \<Rightarrow> nat" where
  "fis_lba f = foldr (\<lambda>b n. unat b + 256 * n) [lba0 f, lba1 f, lba2 f, lba3 f, lba4 f, lba5 f] 0"

definition fis_sectors :: "FIS_REG_H2D \<Rightarrow> nat" where
  "fis_sectors f = (let n = unat (countl f) + 256 * unat (counth f) in if n = 0 then 65536 else n)"

definition sectors :: "(nat \<Rightarrow> u8) \<Rightarrow> nat \<Rightarrow> nat \<Rightarrow> u8 list" where
  "sectors disk lba n = map (\<lambda>k. disk (512 * lba + k)) [0..<512 * n]"

definition read_dma_ext :: "(nat \<Rightarrow> u8) \<Rightarrow> HBA_CMD_TBL \<Rightarrow> mem \<Rightarrow> mem" where
  "read_dma_ext disk tbl m = scatter (prdt_entry tbl) (sectors disk (fis_lba (cfis tbl)) (fis_sectors (cfis tbl))) m"

definition reads_disk :: "(nat \<Rightarrow> u8) \<Rightarrow> dma \<Rightarrow> bool" where
  "reads_disk disk dma \<longleftrightarrow> (\<forall>slot h tbl m. \<not> cmd_w h \<and> command (cfis tbl) = ATA_CMD_READ_DMA_EX \<and> unat (prdtl h) = length (prdt_entry tbl) \<longrightarrow>
     dma slot h tbl m = read_dma_ext disk tbl m)"

text \<open>A port that accepts a command, and completes it.\<close>

definition port_ready :: "HBA_PORT \<Rightarrow> bool" where
  "port_ready p \<longleftrightarrow> sact p OR ci_free p \<noteq> - 1 \<and> ucast (clb p) + push_bit 32 (ucast (clbu p)) < IDENTITY_MAP_PHY_END \<and>
     (\<forall>slot < 32. ctba p slot < IDENTITY_MAP_PHY_END) \<and> (\<exists>t < 1000000. tfd p t AND (ATA_DEV_BUSY OR ATA_DEV_DRQ) = 0) \<and>
     (\<exists>t. ci p t = 0) \<and> (\<forall>t. port_is p t AND HBA_PxIS_TFES = 0)"

section \<open>The region table\<close>

lemma prdt_addr_of [simp]: "prdt_addr (prdt_of b n) = b"
proof (rule bit_word_eqI)
  fix k assume k: "k < LENGTH(64)"
  show "bit (prdt_addr (prdt_of b n)) k = bit b k"
    using k by (cases "k < 32") (auto simp: prdt_addr_def prdt_of_def bit_simps dest: bit_imp_le_length)
qed

lemma prdt_bytes_of: "0 < unat n \<Longrightarrow> unat n \<le> 2 ^ 22 \<Longrightarrow> prdt_bytes (prdt_of b n) = unat n"
proof -
  assume n: "0 < unat n" "unat n \<le> 2 ^ 22"
  then have "unat (n - 1) = unat n - 1" by (simp add: unat_gt_0 unat_minus_one)
  moreover have "unat (ucast (n - 1) :: 22 word) = unat (n - 1) mod 2 ^ 22" by (simp add: unsigned_ucast_eq take_bit_eq_mod)
  ultimately show ?thesis using n by (simp add: prdt_bytes_def prdt_of_def)
qed

lemma prdt_loop_eq:
  "prdt_loop n b c = (map (\<lambda>i. prdt_of (b + of_nat (8192 * i)) 8192) [0..<n], b + of_nat (8192 * n), c - of_nat (16 * n))"
proof (induction n arbitrary: b c)
  case (Suc n)
  have "map (\<lambda>i. prdt_of (b + of_nat (8192 * i)) 8192) [0..<Suc n] =
      prdt_of b 8192 # map (\<lambda>i. prdt_of (b + 8192 + of_nat (8192 * i)) 8192) [0..<n]"
    by (subst upt_conv_Cons) (simp_all add: map_Suc_upt [symmetric] algebra_simps del: upt_Suc)
  then show ?case using Suc [of "b + 8192" "c - 16"] by (simp add: algebra_simps del: upt_Suc)
qed simp

lemma unat_prdtl:
  assumes "1 \<le> count" "unat count \<le> 16 * 65535"
  shows "unat (prdtl (read_header count)) = (unat count - 1) div 16 + 1"
proof -
  have c: "0 < unat count" using assms(1) by (simp add: word_le_nat_alt)
  then have u: "unat (count - 1) = unat count - 1" by (simp add: unat_minus_one unat_gt_0)
  have l: "(unat count - 1) div 16 < 65535" using assms c by (simp add: less_mult_imp_div_less)
  have "unat (ucast (drop_bit 4 (count - 1)) :: u16) = unat (drop_bit 4 (count - 1)) mod 2 ^ 16"
    by (simp add: unsigned_ucast_eq take_bit_eq_mod)
  also have "unat (drop_bit 4 (count - 1)) = (unat count - 1) div 16" by (simp add: drop_bit_eq_div unat_div_distrib u)
  finally have "unat (ucast (drop_bit 4 (count - 1)) :: u16) = (unat count - 1) div 16" using l by simp
  then show ?thesis using l by (simp add: read_header_def unat_word_ariths)
qed

lemma unat_drop_bit: "unat (drop_bit k (w :: u32)) = unat w div 2 ^ k"
proof -
  have "unat w < 2 ^ LENGTH(32)" by (rule unsigned_less)
  then have "take_bit 32 (unat w) = unat w" by (simp add: take_bit_nat_eq_self)
  then show ?thesis unfolding unsigned_drop_bit_eq by (simp add: drop_bit_eq_div)
qed

lemma four_bytes: "x < 2 ^ 32 \<Longrightarrow> x mod 256 + 256 * (x div 256 mod 256 + 256 * (x div 65536 mod 256 + 256 * (x div 16777216 mod 256))) = (x :: nat)"
proof -
  assume x: "x < 2 ^ 32"
  have 3: "x div 16777216 = x div 65536 div 256" "x div 65536 = x div 256 div 256" by (simp_all add: div_mult2_eq)
  have "x div 16777216 < 256" using x by (simp add: less_mult_imp_div_less)
  then show ?thesis using 3 by (metis mod_less mod_mult_div_eq add.commute)
qed

lemma fis_lba_read: "fis_lba (read_fis sl sh c) = unat sl + 2 ^ 32 * (unat sh mod 2 ^ 16)"
proof -
  have b: "unat (ucast (drop_bit k w :: u32) :: u8) = unat w div 2 ^ k mod 256" for k and w :: u32
    by (simp add: unsigned_ucast_eq take_bit_eq_mod unat_drop_bit)
  have "unat sl < 2 ^ LENGTH(32)" by (rule unsigned_less)
  then have "unat sl mod 256 + 256 * (unat sl div 256 mod 256 + 256 * (unat sl div 65536 mod 256 + 256 * (unat sl div 16777216 mod 256))) = unat sl"
    by (simp only: len_num1 len_bit0) (rule four_bytes, simp)
  moreover have "unat sh mod 2 ^ 16 = unat sh mod 256 + 256 * (unat sh div 2 ^ 8 mod 256)" using mod_mult2_eq [of "unat sh" 256 256] by simp
  ultimately show ?thesis using b [of 0 sl] b [of 0 sh] b [of 8 sl] b [of 16 sl] b [of 24 sl] b [of 8 sh] by (simp add: fis_lba_def read_fis_def)
qed

lemma fis_sectors_read: "unat c < 65536 \<Longrightarrow> 0 < unat c \<Longrightarrow> fis_sectors (read_fis sl sh c) = unat c"
proof -
  assume c: "unat c < 65536" "0 < unat c"
  have m: "w AND 0xff = take_bit 8 w" for w :: u32 by (simp add: take_bit_eq_mask mask_eq_exp_minus_1)
  have "unat (ucast (c AND 0xff) :: u8) = unat c mod 256" "unat (ucast (drop_bit 8 c AND 0xff) :: u8) = unat c div 256 mod 256"
    unfolding m by (simp_all add: unsigned_ucast_eq unsigned_take_bit_eq unat_drop_bit take_bit_eq_mod [where 'a = nat])
  moreover have "unat c = unat c mod 256 + 256 * (unat c div 256 mod 256)" using c by (simp add: less_mult_imp_div_less)
  ultimately show ?thesis using c by (simp add: fis_sectors_def read_fis_def Let_def)
qed

text \<open>The table of a read command, for every count that the entry counter can hold.\<close>

lemma read_table_eq:
  fixes sl sh count :: u32
  assumes "1 \<le> count" "unat count \<le> 16 * 65535"
  defines "n \<equiv> (unat count - 1) div 16"
  shows "read_table sl sh count buf = \<lparr>cfis = read_fis sl sh (count - of_nat (16 * n)),
      prdt_entry = map (\<lambda>i. prdt_of (buf + of_nat (8192 * i)) 8192) [0..<n] @ [prdt_of (buf + of_nat (8192 * n)) (push_bit 9 (count - of_nat (16 * n)))]\<rparr>"
    and "unat (count - of_nat (16 * n)) = (unat count - 1) mod 16 + 1"
    and "prdt_bytes (prdt_of b (push_bit 9 (count - of_nat (16 * n)))) = 512 * ((unat count - 1) mod 16 + 1)"
proof -
  show "read_table sl sh count buf = \<lparr>cfis = read_fis sl sh (count - of_nat (16 * n)),
      prdt_entry = map (\<lambda>i. prdt_of (buf + of_nat (8192 * i)) 8192) [0..<n] @ [prdt_of (buf + of_nat (8192 * n)) (push_bit 9 (count - of_nat (16 * n)))]\<rparr>"
    using unat_prdtl [OF assms(1,2)] by (simp add: read_table_def prdt_loop_eq n_def Let_def)
  have c: "0 < unat count" using assms(1) by (simp add: word_le_nat_alt)
  have le: "16 * n \<le> unat count - 1" by (simp add: n_def)
  then have nn: "unat (of_nat (16 * n) :: u32) = 16 * n" using assms(2) by (subst unat_of_nat) simp
  then have "unat (count - of_nat (16 * n)) = unat count - 16 * n" using le c by (simp add: unat_sub word_le_nat_alt)
  also have "\<dots> = (unat count - 1) mod 16 + 1" using le c by (simp add: n_def minus_mult_div_eq_mod [symmetric])
  finally show u: "unat (count - of_nat (16 * n)) = (unat count - 1) mod 16 + 1" .
  have "unat (push_bit 9 (count - of_nat (16 * n))) = 512 * ((unat count - 1) mod 16 + 1)"
    unfolding push_bit_eq_mult using u mod_less_divisor [of 16 "unat count - 1"] by (subst unat_mult_lem [THEN iffD1]) simp_all
  then show "prdt_bytes (prdt_of b (push_bit 9 (count - of_nat (16 * n)))) = 512 * ((unat count - 1) mod 16 + 1)"
    using mod_less_divisor [of 16 "unat count - 1"] by (subst prdt_bytes_of) simp_all
qed

text \<open>C35: the region table that a read of \<open>count\<close> sectors gives to the controller has the announced number of entries and describes
  \<open>512 * count\<close> consecutive bytes from the buffer's address on, in pieces of 8K, and the command has the block address that was asked for (48
  bits of it).  But the sector count in the command is the one that the loop over the entries leaves: that of the last piece only.\<close>

theorem read_regions:
  assumes "1 \<le> count" "unat count \<le> 16 * 65535"
  shows "let n = (unat count - 1) div 16; tbl = read_table startl starth count buf; es = prdt_entry tbl in
    length es = n + 1 \<and> unat (prdtl (read_header count)) = n + 1 \<and>
    (\<forall>i \<le> n. prdt_addr (es ! i) = buf + of_nat (8192 * i) \<and> (i < n \<longrightarrow> prdt_bytes (es ! i) = 8192)) \<and>
    sum_list (map prdt_bytes es) = 512 * unat count \<and>
    fis_lba (cfis tbl) = unat startl + 2 ^ 32 * (unat starth mod 2 ^ 16) \<and>
    fis_sectors (cfis tbl) = (unat count - 1) mod 16 + 1"
proof -
  define n where "n = (unat count - 1) div 16"
  note t = read_table_eq [OF assms, folded n_def]
  have c: "0 < unat count" using assms(1) by (simp add: word_le_nat_alt)
  have e: "prdt_bytes (prdt_of b 8192) = 8192" for b by (subst prdt_bytes_of) simp_all
  have f: "fis_sectors (read_fis startl starth (count - of_nat (16 * n))) = (unat count - 1) mod 16 + 1"
    using t(2) mod_less_divisor [of 16 "unat count - 1"] by (subst fis_sectors_read) linarith+
  have s: "8192 * n + 512 * ((unat count - 1) mod 16 + 1) = 512 * unat count"
  proof -
    obtain d where d: "unat count = d + 1" using c by (metis Suc_eq_plus1 gr0_implies_Suc)
    have "16 * (d div 16) + d mod 16 = d" by (rule mult_div_mod_eq)
    moreover have "16 * q + r = d \<Longrightarrow> 8192 * q + 512 * (r + 1) = 512 * (d + 1)" for q r :: nat by simp
    ultimately show ?thesis unfolding n_def d add_diff_cancel_right' by blast
  qed
  show ?thesis unfolding Let_def n_def [symmetric] t(1)
    using e f s t(3) unat_prdtl [OF assms] by (auto simp: nth_append fis_lba_read n_def [symmetric] o_def sum_list_triv le_less)
qed

section \<open>A read returns the disk's contents\<close>

lemma wait_completion_ok:
  "\<forall>t. port_is p t AND HBA_PxIS_TFES = 0 \<Longrightarrow> ci p (t + k) = 0 \<Longrightarrow> wait_completion p slot t = Some True"
proof (induction k arbitrary: t)
  case (Suc k)
  then show ?case by (cases "bit (ci p t) slot") (auto simp: wait_completion.simps [of p slot t])
qed (simp add: wait_completion.simps)

lemma idle_spin_le: "tfd p t AND (ATA_DEV_BUSY OR ATA_DEV_DRQ) = 0 \<Longrightarrow> k \<le> t \<Longrightarrow> idle_spin p k \<le> t"
proof (induction p k rule: idle_spin.induct)
  case (1 p k)
  then show ?case by (cases "k = t") (auto simp: idle_spin.simps [of p k] idle_spin.simps [of p t])
qed

lemma find_cmdslot_free:
  assumes "sact p OR ci_free p \<noteq> - 1"
  shows "0 \<le> find_cmdslot p" "find_cmdslot p < 32"
proof -
  obtain k where k: "k < 32" "\<not> bit (sact p OR ci_free p) k"
    using assms bit_word_eqI [of "sact p OR ci_free p" "- 1"] by auto
  then have "find_cmdslot p = int (LEAST k. \<not> bit (sact p OR ci_free p) k)"
    unfolding find_cmdslot_def by (subst find_cmdslot_loop_least) auto
  moreover have "(LEAST k. \<not> bit (sact p OR ci_free p) k) \<le> k" using k(2) by (rule Least_le)
  ultimately show "0 \<le> find_cmdslot p" "find_cmdslot p < 32" using k(1) by simp_all
qed

lemma read_completes:
  assumes "port_ready p"
  shows "read dma p sl sh c b m = Some (Inr (True, dma (nat (find_cmdslot p)) (read_header c) (read_table sl sh c b) m))"
proof -
  have s: "0 \<le> find_cmdslot p" "find_cmdslot p < 32" using find_cmdslot_free [of p] assms by (simp_all add: port_ready_def)
  obtain t where t: "t < 1000000" "tfd p t AND (ATA_DEV_BUSY OR ATA_DEV_DRQ) = 0" using assms by (auto simp: port_ready_def)
  have i: "idle_spin p 0 \<noteq> 1000000" using idle_spin_le [OF t(2), of 0] t(1) by simp
  obtain t' where "ci p t' = 0" using assms by (auto simp: port_ready_def)
  then have w: "wait_completion p (nat (find_cmdslot p)) 0 = Some True"
    using wait_completion_ok [of p 0 t'] assms by (simp add: port_ready_def)
  have "ctba p (nat (find_cmdslot p)) < IDENTITY_MAP_PHY_END" using assms s by (simp add: port_ready_def)
  moreover have "ucast (clb p) + push_bit 32 (ucast (clbu p)) < IDENTITY_MAP_PHY_END" using assms by (simp add: port_ready_def)
  ultimately show ?thesis using s i w by (simp add: read_def Let_def phy2virt_def)
qed

lemma read_one_region:
  assumes "reads_disk disk dma" "1 \<le> count" "unat count \<le> 16"
  shows "dma slot (read_header count) (read_table sl sh count buf) m =
    write_bytes m (KERNEL_START + buf) (sectors disk (unat sl + 2 ^ 32 * (unat sh mod 2 ^ 16)) (unat count))"
proof -
  have c: "0 < unat count" "unat count \<le> 16 * 65535" using assms by (simp_all add: word_le_nat_alt)
  have n: "(unat count - 1) div 16 = 0" "(unat count - 1) mod 16 + 1 = unat count" using assms c by simp_all
  note t = read_table_eq [OF assms(2) c(2), unfolded n, simplified]
  have tbl: "read_table sl sh count buf = \<lparr>cfis = read_fis sl sh count, prdt_entry = [prdt_of buf (push_bit 9 count)]\<rparr>" using t(1) by simp
  have b: "prdt_bytes (prdt_of b (push_bit 9 count)) = 512 * unat count" for b using t(3) n(2) by simp
  have "dma slot (read_header count) (read_table sl sh count buf) m = read_dma_ext disk (read_table sl sh count buf) m"
    using assms(1) unat_prdtl [OF assms(2) c(2)] n(1) by (simp add: reads_disk_def tbl read_header_def read_fis_def)
  also have "\<dots> = write_bytes m (KERNEL_START + buf) (sectors disk (unat sl + 2 ^ 32 * (unat sh mod 2 ^ 16)) (unat count))"
    using fis_sectors_read [of count sl sh] c assms(3) by (simp add: read_dma_ext_def tbl b fis_lba_read) (simp add: sectors_def)
  finally show ?thesis .
qed

lemma sector_numbers:
  fixes start sz :: u64
  assumes "unat start + unat sz + 511 < 2 ^ 57"
  defines "a \<equiv> align_left start SectorSize" and "b \<equiv> align_right (start + sz) SectorSize"
  shows "unat a = unat start div 512 * 512" "unat (a div SectorSize) = unat start div 512" "unat (start - a) = unat start mod 512"
    and "unat (b div SectorSize - a div SectorSize) = (unat start mod 512 + unat sz + 511) div 512"
proof -
  have s: "unat SectorSize = 512" by (simp add: SectorSize_def)
  have dm: "unat (w div SectorSize * SectorSize) = unat w div 512 * 512" for w :: u64
  proof -
    have "unat w < 2 ^ LENGTH(64)" by (rule unsigned_less)
    moreover have "unat w div 512 * 512 \<le> unat w" by simp
    ultimately have "unat w div 512 * 512 < 2 ^ 64" by (simp only: len_bit0 len_num1) simp
    then show ?thesis by (simp add: unat_word_ariths unat_div_distrib s)
  qed
  show u: "unat a = unat start div 512 * 512" using dm [of start] by (simp add: a_def align_left_def)
  then show ua: "unat (a div SectorSize) = unat start div 512" by (simp add: unat_div_distrib s)
  have "a \<le> start" using u by (simp add: word_le_nat_alt)
  then show "unat (start - a) = unat start mod 512" using u by (simp add: unat_sub minus_div_mult_eq_mod)
  have "unat (start + sz + SectorSize - 1) = unat start + unat sz + 511"
  proof -
    have "start + sz + SectorSize - 1 = of_nat (unat start + unat sz + 511)" by (simp add: SectorSize_def)
    then show ?thesis using assms(1) by (simp only:) (subst unat_of_nat, simp)
  qed
  then have ub: "unat (b div SectorSize) = (unat start + unat sz + 511) div 512"
    using dm [of "start + sz + SectorSize - 1"] by (simp add: b_def align_right_def unat_div_distrib s)
  have d: "(unat start + unat sz + 511) div 512 = unat start div 512 + (unat start mod 512 + unat sz + 511) div 512"
  proof -
    have "q + r = x \<Longrightarrow> x + n + 511 = q + (r + n + 511)" for q r x n :: nat by simp
    from this [OF div_mult_mod_eq] have "unat start + unat sz + 511 = unat start div 512 * 512 + (unat start mod 512 + unat sz + 511)" .
    then show ?thesis by (simp only: div_mult_self3 [of 512])
  qed
  have "a div SectorSize \<le> b div SectorSize" unfolding word_le_nat_alt ua ub d by simp
  then show "unat (b div SectorSize - a div SectorSize) = (unat start mod 512 + unat sz + 511) div 512"
    by (simp add: unat_sub ua ub d)
qed

lemma lba_parts:
  fixes s :: u64
  assumes "unat s < 2 ^ 48"
  shows "unat (ucast (s AND 0xffffffff) :: u32) + 2 ^ 32 * (unat (ucast (drop_bit 32 s AND 0xffffffff) :: u32) mod 2 ^ 16) = unat s"
proof -
  have m: "w AND 0xffffffff = take_bit 32 w" for w :: u64 by (simp add: take_bit_eq_mask mask_eq_exp_minus_1)
  have l: "unat (ucast (s AND 0xffffffff) :: u32) = unat s mod 2 ^ 32"
    unfolding m by (simp add: unsigned_ucast_eq unsigned_take_bit_eq take_bit_eq_mod [where 'a = nat])
  have q: "unat s div 2 ^ 32 < 2 ^ 16" using assms by (simp add: less_mult_imp_div_less)
  have "unat (drop_bit 32 s) = unat s div 2 ^ 32" unfolding drop_bit_eq_div by (simp add: unat_div_distrib)
  then have "unat (ucast (drop_bit 32 s AND 0xffffffff) :: u32) = unat s div 2 ^ 32"
    unfolding m using q by (simp add: unsigned_ucast_eq unsigned_take_bit_eq take_bit_eq_mod [where 'a = nat])
  then show ?thesis using l q by (simp add: mod_mult_div_eq)
qed

lemma write_bytes_at: "k < length bs \<Longrightarrow> k < 2 ^ 64 \<Longrightarrow> write_bytes m p bs (p + of_nat k) = bs ! k"
  by (simp add: write_bytes_def unat_of_nat)

lemma write_bytes_else: "unat p + length bs \<le> 2 ^ 64 \<Longrightarrow> x < p \<or> unat p + length bs \<le> unat x \<Longrightarrow> write_bytes m p bs x = m x"
proof -
  assume a: "unat p + length bs \<le> 2 ^ 64" "x < p \<or> unat p + length bs \<le> unat x"
  have "length bs \<le> unat (x - p)"
  proof (cases "x < p")
    case True
    then have "unat (x - p) = 2 ^ 64 + unat x - unat p" by (simp add: unat_sub_if' word_less_nat_alt word_le_nat_alt)
    then show ?thesis using a(1) by simp
  next
    case False
    then have "unat (x - p) = unat x - unat p" by (simp add: unat_sub)
    then show ?thesis using a False by (simp add: word_less_nat_alt)
  qed
  then show ?thesis by (simp add: write_bytes_def)
qed

lemma offset_outside:
  assumes "unat (p :: u64) + n \<le> 2 ^ 64" "x < p \<or> unat p + n \<le> unat x" "k < n"
  shows "x \<noteq> p + of_nat k"
proof -
  have "unat (p + of_nat k) = unat p + k" using assms by (simp add: unat_word_ariths unat_of_nat)
  then show ?thesis using assms(2,3) by (auto simp: word_less_nat_alt)
qed

lemma Read_disk_lemma:
  assumes port: "port_ready (ports c reg (commands s))" "reads_disk disk (port_dma c reg)"
    and buf: "kmalloc (allocator (kern s)) sz = Inr (buf, a)" "unat buf + 8192 \<le> 2 ^ 64"
    and sz: "0 < unat sz" "unat start + unat sz + 511 < 2 ^ 57" "(unat start mod 512 + unat sz + 511) div 512 \<le> 16"
    and out: "unat output + unat sz \<le> 2 ^ 64" "unat output + unat sz \<le> unat buf \<or> unat buf + 8192 \<le> unat output"
  shows "\<exists>s'. Read c reg s output start sz = Some (Inr (ErrSuccess, s')) \<and> kern s' = kern s\<lparr>allocator := a\<rparr> \<and> commands s' = commands s + 1 \<and>
    (\<forall>k < unat sz. memory s' (output + of_nat k) = disk (unat start + k)) \<and>
    (\<forall>x. (x < output \<or> unat output + unat sz \<le> unat x) \<and> (x < buf \<or> unat buf + 8192 \<le> unat x) \<longrightarrow> memory s' x = memory s x)"
proof -
  define sa where "sa = align_left start SectorSize"
  define off where "off = start - sa"
  define n where "n = (unat start mod 512 + unat sz + 511) div 512"
  define count where "count = (ucast (align_right (start + sz) SectorSize div SectorSize - sa div SectorSize) :: u32)"
  note num = sector_numbers [OF sz(2), folded sa_def, folded n_def]
  have n: "1 \<le> n" "n \<le> 16" "unat start mod 512 + unat sz \<le> 512 * n"
    using sz(1,3) unfolding n_def by (simp_all add: div_greater_zero_iff)
  have uc: "unat count = n" unfolding count_def unsigned_ucast_eq using num(4) n by (simp add: take_bit_eq_mod)
  have c: "1 \<le> count" "unat count \<le> 16" using uc n by (simp_all add: word_le_nat_alt)
  have lba: "unat (sa div SectorSize) < 2 ^ 48" using num(2) sz(2) by (simp add: less_mult_imp_div_less)
  define bs where "bs = sectors disk (unat start div 512) n"
  have bs: "length bs = 512 * n" "\<And>k. k < 512 * n \<Longrightarrow> bs ! k = disk (512 * (unat start div 512) + k)" by (simp_all add: bs_def sectors_def)
  define m where "m = write_bytes (memory s) buf bs"
  define s' where "s' = s\<lparr>kern := kern s\<lparr>allocator := a\<rparr>, memory := memcpy m output (buf + off) sz, commands := commands s + 1\<rparr>"
  have r: "Read c reg s output start sz = Some (Inr (ErrSuccess, s'))"
    using buf(1) read_completes [OF port(1)] read_one_region [OF port(2) c] lba_parts [OF lba]
    by (simp add: Read_def Let_def s'_def m_def bs_def uc num(2) flip: sa_def off_def count_def)
  have o: "unat off = unat start mod 512" using num(3) by (simp add: off_def)
  have src: "unat (buf + off) = unat buf + unat start mod 512"
    using buf(2) n o mod_less_divisor [of 512 "unat start"] by (subst unat_add_lem [THEN iffD1]) simp_all
  have in': "unat (buf + off) + unat sz \<le> unat buf + 8192" using src n by simp
  have dis: "output \<le> buf + off \<or> unat (buf + off) + unat sz \<le> unat output" using out(2) in' src by (auto simp: word_le_nat_alt)
  note cp = memcpy_copies [OF _ out(1) dis, where m = m]
  have v: "memory s' (output + of_nat k) = disk (unat start + k)" if k: "k < unat sz" for k
  proof -
    have "memory s' (output + of_nat k) = m (buf + off + of_nat k)" using cp(1) in' buf(2) k by (simp add: s'_def)
    also have "buf + off + of_nat k = buf + of_nat (unat start mod 512 + k)" using o by (simp flip: o)
    also have "m \<dots> = bs ! (unat start mod 512 + k)" unfolding m_def using n k bs(1) by (intro write_bytes_at) simp_all
    also have "\<dots> = disk (unat start + k)" using n k by (subst bs(2)) (simp_all add: add.assoc [symmetric])
    finally show ?thesis .
  qed
  have f: "memory s' x = memory s x"
    if x: "x < output \<or> unat output + unat sz \<le> unat x" "x < buf \<or> unat buf + 8192 \<le> unat x" for x
  proof -
    have "memory s' x = m x" unfolding s'_def using cp(2) [of x] in' buf(2) offset_outside [OF out(1) x(1)] by simp
    also have "\<dots> = memory s x" unfolding m_def using x(2) n bs(1) buf(2) by (intro write_bytes_else) auto
    finally show ?thesis .
  qed
  show ?thesis using r v f by (intro exI [of _ s']) (simp add: s'_def)
qed


section \<open>Start-up finds the disks\<close>

definition port_starts :: "HBA_PORT \<Rightarrow> bool" where
  "port_starts p \<longleftrightarrow> port_ready p \<and> (\<forall>t. cmd p t AND HBA_PxCMD_CR = 0) \<and>
     (ucast (clb p) OR push_bit 32 (ucast (clbu p))) AND 0xfffffffffffff000 < IDENTITY_MAP_PHY_END \<and>
     (ucast (fb p) OR push_bit 32 (ucast (fbu p))) AND 0xfffffffffffff000 < IDENTITY_MAP_PHY_END"

text \<open>A disk is attached to the port, as the controller reports it.\<close>

definition disk_attached :: "HBA \<Rightarrow> u64 \<Rightarrow> nat \<Rightarrow> bool" where
  "disk_attached c page i \<longleftrightarrow> bit (ports_implemented c) i \<and>
     (let p = ports c (port_register page (of_nat i)) 0 in device_present p \<and> sig p = SATA_SIG_SATA)"

definition controller_ok :: "HBA \<Rightarrow> bool" where
  "controller_ok c \<longleftrightarrow> (\<forall>reg k. port_starts (ports c reg k) \<and> sig (ports c reg k) = sig (ports c reg 0) \<and> ssts (ports c reg k) = ssts (ports c reg 0))"

lemma ahci_port_init_ok:
  assumes "port_starts (ports c reg (commands s))" "frames_ok (allocator (kern s))"
  shows "\<exists>w a m. ahci_port_init c reg s = Some (Inr (w, True, s\<lparr>kern := kern s\<lparr>allocator := a\<rparr>, memory := m, commands := commands s + 1\<rparr>)) \<and> frames_ok a"
proof -
  obtain x a where a: "kernel_page_alloc (allocator (kern s)) 16 = Inr (KERNEL_START + x, a)" "frames_ok a"
    using kernel_page_alloc_frame [OF assms(2), of 16] by auto
  have p: "port_ready (ports c reg (commands s))" using assms(1) by (simp add: port_starts_def)
  have s: "start_cmd (\<lambda>t. cmd (ports c reg (commands s)) (Suc t)) \<noteq> None" "start_cmd (\<lambda>t. cmd (ports c reg (commands s)) (Suc (Suc t))) \<noteq> None"
    using assms(1) by (simp_all add: port_starts_def start_cmd_def wait_until.simps [of _ 0])
  show ?thesis
  proof (cases "cmd (ports c reg (commands s)) 0 AND 2 = 0")
    case True
    then show ?thesis using assms(1) a s(2) read_completes [OF p] by (auto simp: ahci_port_init_def Let_def port_starts_def intro!: exI [of _ a])
  next
    case False
    then show ?thesis using assms(1) a s(1) read_completes [OF p] by (auto simp: ahci_port_init_def Let_def port_starts_def intro!: exI [of _ a])
  qed
qed

lemma init_ports_ok:
  assumes c: "controller_ok c"
  shows "frames_ok (allocator (kern s)) \<Longrightarrow> \<exists>s'. init_ports c page is s =
      Some (Inr (map (\<lambda>i. port_register page (of_nat i)) (filter (disk_attached c page) is), s')) \<and>
    frames_ok (allocator (kern s')) \<and> (\<exists>a. kern s' = kern s\<lparr>allocator := a\<rparr>)"
proof (induction "is" arbitrary: s)
  case Nil
  show ?case using Nil by (auto intro!: exI [of _ "allocator (kern s)"])
next
  case (Cons i "is")
  define reg where "reg = port_register page (of_nat i)"
  have st: "port_starts (ports c reg (commands s))" "sig (ports c reg (commands s)) = sig (ports c reg 0)"
    "ssts (ports c reg (commands s)) = ssts (ports c reg 0)" using c by (simp_all add: controller_ok_def)
  have att: "bit (ports_implemented c) i \<and> device_present (ports c reg (commands s)) \<and> sig (ports c reg (commands s)) = SATA_SIG_SATA \<longleftrightarrow>
      disk_attached c page i"
    using st by (simp add: disk_attached_def device_present_def Let_def flip: reg_def)
  show ?case
  proof (cases "disk_attached c page i")
    case True
    obtain w a m where p: "ahci_port_init c reg s = Some (Inr (w, True, s\<lparr>kern := kern s\<lparr>allocator := a\<rparr>, memory := m, commands := commands s + 1\<rparr>))"
      "frames_ok a" using ahci_port_init_ok [OF st(1) Cons.prems] by auto
    show ?thesis
      using Cons.IH [of "s\<lparr>kern := kern s\<lparr>allocator := a\<rparr>, memory := m, commands := commands s + 1\<rparr>"] p True att
      by (auto simp: Let_def simp flip: reg_def)
  next
    case False
    then have "init_ports c page (i # is) s = init_ports c page is s"
      using att by (simp only: init_ports.simps Let_def reg_def [symmetric] if_False)
    then show ?thesis using Cons.IH [OF Cons.prems] False by simp
  qed
qed


section \<open>Witnesses\<close>

text \<open>A controller with one disk at port 0, which answers at once.\<close>

definition sample_port :: HBA_PORT where
  "sample_port = \<lparr>clb = 0x100000, clbu = 0, fb = 0x101000, fbu = 0, sact = 0, ci_free = 0, cmd = (\<lambda>_. 0), tfd = (\<lambda>_. 0), ci = (\<lambda>_. 0),
     port_is = (\<lambda>_. 0), sig = SATA_SIG_SATA, ssts = 0x113, ctba = (\<lambda>_. 0x200000)\<rparr>"

definition sample_hba :: "(nat \<Rightarrow> u8) \<Rightarrow> HBA" where
  "sample_hba disk = \<lparr>ports = (\<lambda>_ _. sample_port), port_dma = (\<lambda>_ _ _. read_dma_ext disk), ghc = (\<lambda>_. 0x80000000), ports_implemented = 1\<rparr>"

definition disk_start :: "BuddyAllocator \<Rightarrow> disk_state" where
  "disk_start a = \<lparr>kern = boot_state a, memory = (\<lambda>_. 0), commands = 0\<rparr>"

lemma sample_port_ok: "port_ready sample_port" "port_starts sample_port"
proof -
  show "port_ready sample_port" by (auto simp: port_ready_def sample_port_def intro: exI [of _ 0])
  then show "port_starts sample_port" by (simp add: port_starts_def sample_port_def)
qed

lemma sample_hba_ok: "reads_disk disk (port_dma (sample_hba disk) reg)" "ports (sample_hba disk) reg k = sample_port" "controller_ok (sample_hba disk)"
  by (simp_all add: sample_hba_def reads_disk_def controller_ok_def sample_port_ok)

theorem read_regions_witness:
  "length (prdt_entry (read_table 5 0 40 0x10000)) = 3 \<and> fis_sectors (cfis (read_table 5 0 40 0x10000)) = 8"
  using read_regions [of 40 5 0 "0x10000"] by (simp add: Let_def)



section \<open>The driver as a block device\<close>

text \<open>
  What a client of a disk relies on.  \<open>ready disk B s\<close> says that the device works in state \<open>s\<close>, that its contents are \<open>disk\<close>, and that its temporary
  buffers stay away from the addresses in \<open>B\<close>, the client's memory.
\<close>

locale block_device =
  fixes rd :: "'s \<Rightarrow> u64 \<Rightarrow> u64 \<Rightarrow> u64 \<Rightarrow> (Error \<times> 's) res option"
    and mem_of :: "'s \<Rightarrow> mem"
    and ready :: "(nat \<Rightarrow> u8) \<Rightarrow> u64 set \<Rightarrow> 's \<Rightarrow> bool"
  assumes rd_ok: "ready disk B s \<Longrightarrow> 0 < unat sz \<Longrightarrow> unat sz \<le> 512 \<Longrightarrow> unat start + 1023 < 2 ^ 57 \<Longrightarrow> unat out + unat sz \<le> 2 ^ 64 \<Longrightarrow>
      (\<And>k. k < unat sz \<Longrightarrow> out + of_nat k \<in> B) \<Longrightarrow>
    \<exists>s'. rd s out start sz = Some (Inr (ErrSuccess, s')) \<and> ready disk B s' \<and>
      (\<forall>k < unat sz. mem_of s' (out + of_nat k) = disk (unat start + k)) \<and>
      (\<forall>x \<in> B. x < out \<or> unat out + unat sz \<le> unat x \<longrightarrow> mem_of s' x = mem_of s x)"

text \<open>The allocators that a sequence of allocations leads to, and the addresses that no allocated buffer covers.\<close>

inductive kmalloc_reach :: "BuddyAllocator \<Rightarrow> BuddyAllocator \<Rightarrow> bool" where
  reach_refl: "kmalloc_reach a a"
| reach_step: "kmalloc a sz = Inr (p, a') \<Longrightarrow> kmalloc_reach a' a'' \<Longrightarrow> kmalloc_reach a a''"

definition heap_avoids :: "u64 set \<Rightarrow> BuddyAllocator \<Rightarrow> bool" where
  "heap_avoids B a \<longleftrightarrow> (\<forall>a' sz p a''. kmalloc_reach a a' \<and> kmalloc a' sz = Inr (p, a'') \<longrightarrow> (\<forall>x \<in> B. x < p \<or> unat p + 8192 \<le> unat x))"

lemma heap_avoids_step:
  assumes "heap_avoids B a" "kmalloc a sz = Inr (p, a')"
  shows "heap_avoids B a'" "x \<in> B \<Longrightarrow> x < p \<or> unat p + 8192 \<le> unat x"
  using assms reach_refl [of a] reach_step [OF assms(2)] unfolding heap_avoids_def by blast+

definition ahci_ready :: "HBA \<Rightarrow> u64 \<Rightarrow> (nat \<Rightarrow> u8) \<Rightarrow> u64 set \<Rightarrow> disk_state \<Rightarrow> bool" where
  "ahci_ready c reg disk B s \<longleftrightarrow> (\<forall>k. port_ready (ports c reg k)) \<and> reads_disk disk (port_dma c reg) \<and>
     frames_ok (allocator (kern s)) \<and> heap_avoids B (allocator (kern s))"

lemma kernel_buffer: "unat x < 2 ^ 41 \<Longrightarrow> unat (KERNEL_START + x) + 8192 \<le> 2 ^ 64"
  by (simp add: KERNEL_START_def unat_word_ariths)

text \<open>Two intervals that have no address in common, seen from the second.\<close>

lemma apart:
  assumes "unat (out :: u64) + n \<le> 2 ^ 64" "0 < n" "n \<le> 8192" and avoid: "\<And>k. k < n \<Longrightarrow> out + of_nat k < p \<or> unat p + 8192 \<le> unat (out + of_nat k)"
  shows "unat out + n \<le> unat p \<or> unat p + 8192 \<le> unat out"
proof (rule ccontr)
  assume c: "\<not> ?thesis"
  have u: "unat (out + of_nat k) = unat out + k" if "k < n" for k using that assms(1) by (simp add: unat_word_ariths unat_of_nat)
  consider "unat p \<le> unat out" | "unat out < unat p" by linarith
  then show False
  proof cases
    case 1
    then show False using avoid [of 0] c assms(2) by (simp add: word_less_nat_alt)
  next
    case 2
    then have "unat p - unat out < n" using c by simp
    then show False using avoid [of "unat p - unat out"] u [of "unat p - unat out"] 2 by (simp add: word_less_nat_alt)
  qed
qed

interpretation ahci_device: block_device "Read c reg" memory "ahci_ready c reg" for c reg
proof
  fix disk B s and sz start out :: u64
  assume r: "ahci_ready c reg disk B s" and sz: "0 < unat sz" "unat sz \<le> 512" "unat start + 1023 < 2 ^ 57" "unat out + unat sz \<le> 2 ^ 64"
    and B: "\<And>k. k < unat sz \<Longrightarrow> out + of_nat k \<in> B"
  obtain x a where a: "kmalloc (allocator (kern s)) sz = Inr (KERNEL_START + x, a)" "frames_ok a" "unat x < 2 ^ 41"
    using kmalloc_frame r unfolding ahci_ready_def by blast
  have av: "heap_avoids B (allocator (kern s))" using r by (simp add: ahci_ready_def)
  note av = heap_avoids_step [OF av a(1)]
  have n: "(unat start mod 512 + unat sz + 511) div 512 \<le> 16"
    using sz(2) mod_less_divisor [of 512 "unat start"] by (simp add: less_mult_imp_div_less less_imp_le)
  have "unat out + unat sz \<le> unat (KERNEL_START + x) \<or> unat (KERNEL_START + x) + 8192 \<le> unat out"
    using sz(1,2) by (intro apart [OF sz(4)]) (use av(2) B in auto)
  then obtain s' where s': "Read c reg s out start sz = Some (Inr (ErrSuccess, s'))" "kern s' = kern s\<lparr>allocator := a\<rparr>"
    "\<forall>k < unat sz. memory s' (out + of_nat k) = disk (unat start + k)"
    "\<forall>x'. (x' < out \<or> unat out + unat sz \<le> unat x') \<and> (x' < KERNEL_START + x \<or> unat (KERNEL_START + x) + 8192 \<le> unat x') \<longrightarrow> memory s' x' = memory s x'"
    using Read_disk_lemma [OF _ _ a(1) kernel_buffer [OF a(3)] sz(1) _ n sz(4), of c reg disk] r sz(2,3) unfolding ahci_ready_def by auto
  then show "\<exists>s'. Read c reg s out start sz = Some (Inr (ErrSuccess, s')) \<and> ahci_ready c reg disk B s' \<and>
      (\<forall>k < unat sz. memory s' (out + of_nat k) = disk (unat start + k)) \<and>
      (\<forall>x \<in> B. x < out \<or> unat out + unat sz \<le> unat x \<longrightarrow> memory s' x = memory s x)"
    using r a(2) av by (intro exI [of _ s']) (auto simp: ahci_ready_def)
qed

end
