(* ===== verification/Gpt.thy ===== *)
theory Gpt
  imports Ahci Elf
begin

text \<open>
  The partition table, \<^verbatim>\<open>device/gpt.cpp\<close> and \<^verbatim>\<open>include/device/gpt.hpp\<close>, and the thread of the disk driver that lists it.  The list is a client of the
  locale \<open>block_device\<close>: it is proved correct for every device with that contract, and so for the disk driver.
\<close>

section \<open>The partition list\<close>

definition efi_magic :: "u8 list" where
  "efi_magic = [0x45, 0x46, 0x49, 0x20, 0x50, 0x41, 0x52, 0x54]"

record GPTPartitionTableHeader =
  PartitionEntryLBA :: u64
  PartitionEntryCount :: u32
  PartitionEntrySize :: u32

definition table_header :: "mem \<Rightarrow> u64 \<Rightarrow> GPTPartitionTableHeader" where
  "table_header m p = \<lparr>PartitionEntryLBA = load_le m (p + 72) 8, PartitionEntryCount = load_le m (p + 80) 4, PartitionEntrySize = load_le m (p + 84) 4\<rparr>"

text \<open>The name in an entry has 72 elements of four bytes, so that the structure has 344 bytes.\<close>

definition sizeof_GPTPartitionEntry :: nat where "sizeof_GPTPartitionEntry = 16 + 16 + 8 + 8 + 8 + 72 * 4"

record GPTPrimaryPartition =
  start_offset :: u64
  part_size :: u64
  entry :: "u8 list"

text \<open>A new element of the list: the bytes of the entry, over zeros.\<close>

definition partition_of :: "u8 list \<Rightarrow> GPTPrimaryPartition" where
  "partition_of bs =
     (let e = bs @ replicate (sizeof_GPTPartitionEntry - length bs) 0;
          FirstLBA = load_le (bytes_mem e) 32 8; LastLBA = load_le (bytes_mem e) 40 8
      in \<lparr>start_offset = FirstLBA * SectorSize, part_size = (LastLBA - FirstLBA + 1) * SectorSize, entry = e\<rparr>)"

text \<open>
  The loop.  The header stays in the buffer on the stack and is read in every round; the position of an entry is computed with 32 bits.
  An entry size above the size of a buffer, or of the structure, overruns it.
\<close>

partial_function (option) list_entries ::
  "('s \<Rightarrow> u64 \<Rightarrow> u64 \<Rightarrow> u64 \<Rightarrow> (Error \<times> 's) res option) \<Rightarrow> ('s \<Rightarrow> mem) \<Rightarrow> u64 \<Rightarrow> u64 \<Rightarrow> u64 \<Rightarrow> nat \<Rightarrow> GPTPrimaryPartition list \<Rightarrow> 's \<Rightarrow>
     (GPTPrimaryPartition list \<times> 's) res option" where
  "list_entries rd mem_of header_buf entry_buf start i ret s =
     (let header = table_header (mem_of s) header_buf; esz = PartitionEntrySize header in
      if unat (PartitionEntryCount header) \<le> i then Some (Inr (ret, s))
      else if 512 < unat esz \<or> 2 ^ 31 \<le> i then Some (Inl (Undefined ''partition_entry_buf''))
      else Option.bind (rd s entry_buf (start + ucast (esz * of_nat i)) (ucast esz)) (\<lambda>r.
        case r of
          Inl e \<Rightarrow> Some (Inl e)
        | Inr (err, s') \<Rightarrow>
            let esz' = PartitionEntrySize (table_header (mem_of s') header_buf) in
            if err \<noteq> ErrSuccess then Some (Inl (Panic ''Failed to read partition entries''))
            else if (load_le (mem_of s') entry_buf 16 :: 128 word) \<noteq> 0
            then if sizeof_GPTPartitionEntry < unat esz' then Some (Inl (Undefined ''item.entry_''))
                 else list_entries rd mem_of header_buf entry_buf start (i + 1) (ret @ [partition_of (bytes_at (mem_of s') entry_buf 0 (unat esz'))]) s'
            else list_entries rd mem_of header_buf entry_buf start (i + 1) ret s'))"

definition ListPrimaryPartitions ::
  "('s \<Rightarrow> u64 \<Rightarrow> u64 \<Rightarrow> u64 \<Rightarrow> (Error \<times> 's) res option) \<Rightarrow> ('s \<Rightarrow> mem) \<Rightarrow> u64 \<Rightarrow> u64 \<Rightarrow> 's \<Rightarrow> (GPTPrimaryPartition list \<times> 's) res option" where
  "ListPrimaryPartitions rd mem_of header_buf entry_buf s =
     Option.bind (rd s header_buf (SectorSize * 1) SectorSize) (\<lambda>r.
       case r of
         Inl e \<Rightarrow> Some (Inl e)
       | Inr (result, s') \<Rightarrow>
           if result \<noteq> ErrSuccess then Some (Inl (Panic ''Failed to read LBA 1''))
           else if bytes_at (mem_of s') header_buf 0 8 \<noteq> efi_magic then Some (Inl (Panic ''EFI magic not match''))
           else list_entries rd mem_of header_buf entry_buf (PartitionEntryLBA (table_header (mem_of s') header_buf) * SectorSize) 0 [] s')"

text \<open>The thread of the disk driver, up to the loop that only yields.\<close>

definition KthreadEntry :: "HBA \<Rightarrow> u64 list \<Rightarrow> u64 \<Rightarrow> u64 \<Rightarrow> disk_state \<Rightarrow> (GPTPrimaryPartition list \<times> disk_state) res option" where
  "KthreadEntry c sata_devices header_buf entry_buf s =
     (if sata_devices = [] then Some (Inl (Panic ''No AHCI device found''))
      else ListPrimaryPartitions (Read c (sata_devices ! 0)) memory header_buf entry_buf s)"

section \<open>The table on the disk\<close>

definition disk_mem :: "(nat \<Rightarrow> u8) \<Rightarrow> mem" where
  "disk_mem disk = (\<lambda>x. disk (unat x))"

text \<open>The entries of a table at byte \<open>start\<close> with \<open>esz\<close> bytes each, and the partitions: the entries with a type.\<close>

definition entry_bytes :: "(nat \<Rightarrow> u8) \<Rightarrow> nat \<Rightarrow> nat \<Rightarrow> nat \<Rightarrow> u8 list" where
  "entry_bytes disk start esz i = map (\<lambda>k. disk (start + esz * i + k)) [0..<esz]"

definition in_use :: "u8 list \<Rightarrow> bool" where
  "in_use bs \<longleftrightarrow> (load_le (bytes_mem bs) 0 16 :: 128 word) \<noteq> 0"

definition gpt_partitions :: "(nat \<Rightarrow> u8) \<Rightarrow> GPTPrimaryPartition list" where
  "gpt_partitions disk =
     (let h = table_header (disk_mem disk) 512; start = unat (PartitionEntryLBA h) * 512; esz = unat (PartitionEntrySize h) in
      map partition_of (filter in_use (map (entry_bytes disk start esz) [0..<unat (PartitionEntryCount h)])))"

text \<open>A disk with a partition table: the entries have at least the size of the type and at most that of the structure, and the table is
  small enough for the arithmetic of the driver.\<close>

definition gpt_disk :: "(nat \<Rightarrow> u8) \<Rightarrow> bool" where
  "gpt_disk disk \<longleftrightarrow> map disk [512..<520] = efi_magic \<and>
     (let h = table_header (disk_mem disk) 512; esz = unat (PartitionEntrySize h); n = unat (PartitionEntryCount h) in
      16 \<le> esz \<and> esz \<le> sizeof_GPTPartitionEntry \<and> n < 2 ^ 31 \<and> esz * n < 2 ^ 32 \<and> unat (PartitionEntryLBA h) < 2 ^ 47)"

lemma sector_field:
  assumes "\<And>k. k < 512 \<Longrightarrow> m (hb + of_nat k) = disk (512 + k)" "f + n \<le> 512"
  shows "load_le m (hb + of_nat f) n = load_le (disk_mem disk) (512 + of_nat f) n"
proof (rule load_le_shift)
  fix i assume i: "i < n"
  have "m (hb + of_nat f + of_nat i) = disk (512 + (f + i))" using assms(1) [of "f + i"] i assms(2) by (simp add: add.assoc)
  also have "\<dots> = disk_mem disk (512 + of_nat f + of_nat i)"
    using unat_offset [of 512 "f + i"] i assms(2) by (simp add: disk_mem_def add.assoc)
  finally show "m (hb + of_nat f + of_nat i) = disk_mem disk (512 + of_nat f + of_nat i)" .
qed

lemma table_header_read:
  assumes "\<And>k. k < 512 \<Longrightarrow> m (hb + of_nat k) = disk (512 + k)"
  shows "table_header m hb = table_header (disk_mem disk) 512"
  using sector_field [of m hb disk 72 8] sector_field [of m hb disk 80 4] sector_field [of m hb disk 84 4] assms by (simp add: table_header_def)

lemma entry_read:
  assumes "\<And>k. k < esz \<Longrightarrow> m (eb + of_nat k) = disk (start + esz * i + k)" "16 \<le> esz"
  shows "bytes_at m eb 0 esz = entry_bytes disk start esz i"
    and "(load_le m eb 16 :: 128 word) \<noteq> 0 \<longleftrightarrow> in_use (entry_bytes disk start esz i)"
proof -
  show "bytes_at m eb 0 esz = entry_bytes disk start esz i" using assms(1) by (simp add: bytes_at_def entry_bytes_def)
  have "load_le m eb 16 = (load_le (bytes_mem (entry_bytes disk start esz i)) 0 16 :: 128 word)"
  proof (rule load_le_shift)
    fix k :: nat assume "k < 16"
    then show "m (eb + of_nat k) = bytes_mem (entry_bytes disk start esz i) (0 + of_nat k)"
      using assms by (simp add: bytes_mem_def entry_bytes_def unat_of_nat)
  qed
  then show "(load_le m eb 16 :: 128 word) \<noteq> 0 \<longleftrightarrow> in_use (entry_bytes disk start esz i)" by (simp add: in_use_def)
qed

section \<open>Listing the partitions of a block device\<close>

text \<open>Two buffers of a sector each that do not overlap.\<close>

definition buffers_ok :: "u64 \<Rightarrow> u64 \<Rightarrow> u64 set \<Rightarrow> bool" where
  "buffers_ok hb eb B \<longleftrightarrow> unat hb + 512 \<le> 2 ^ 64 \<and> unat eb + 512 \<le> 2 ^ 64 \<and> (unat hb + 512 \<le> unat eb \<or> unat eb + 512 \<le> unat hb) \<and>
     B = {hb + of_nat k |k. k < 512} \<union> {eb + of_nat k |k. k < 512}"

context block_device
begin

definition header_read :: "(nat \<Rightarrow> u8) \<Rightarrow> u64 \<Rightarrow> 's \<Rightarrow> bool" where
  "header_read disk hb s \<longleftrightarrow> (\<forall>k < 512. mem_of s (hb + of_nat k) = disk (512 + k))"

lemma read_entry:
  assumes buf: "buffers_ok hb eb B" and s: "ready disk B s" "header_read disk hb s"
    and sz: "0 < unat sz" "unat sz \<le> 512" "unat start + 1023 < 2 ^ 57"
  shows "\<exists>s'. rd s eb start sz = Some (Inr (ErrSuccess, s')) \<and> ready disk B s' \<and> header_read disk hb s' \<and>
    (\<forall>k < unat sz. mem_of s' (eb + of_nat k) = disk (unat start + k))"
proof -
  have B: "eb + of_nat k \<in> B" if "k < unat sz" for k using buf that sz(2) by (fastforce simp: buffers_ok_def)
  obtain s' where s': "rd s eb start sz = Some (Inr (ErrSuccess, s'))" "ready disk B s'"
    "\<forall>k < unat sz. mem_of s' (eb + of_nat k) = disk (unat start + k)"
    "\<forall>x \<in> B. x < eb \<or> unat eb + unat sz \<le> unat x \<longrightarrow> mem_of s' x = mem_of s x"
    using rd_ok [OF s(1) sz(1,2,3) _ B] buf sz(2) by (fastforce simp: buffers_ok_def)
  have "mem_of s' (hb + of_nat k) = mem_of s (hb + of_nat k)" if k: "k < 512" for k
  proof -
    have "hb + of_nat k \<in> B" using buf k by (auto simp: buffers_ok_def)
    moreover have "unat (hb + of_nat k) = unat hb + k" using buf k by (intro unat_offset) (simp add: buffers_ok_def)
    then have "hb + of_nat k < eb \<or> unat eb + unat sz \<le> unat (hb + of_nat k)" using buf k sz(2) by (auto simp: buffers_ok_def word_less_nat_alt)
    ultimately show ?thesis using s'(4) by blast
  qed
  then show ?thesis using s' s(2) by (auto simp: header_read_def)
qed

lemma list_entries_ok:
  assumes buf: "buffers_ok hb eb B" and disk: "gpt_disk disk"
  defines "h \<equiv> table_header (disk_mem disk) 512"
  defines "n \<equiv> unat (PartitionEntryCount h)" and "esz \<equiv> unat (PartitionEntrySize h)" and "start \<equiv> PartitionEntryLBA h * SectorSize"
  shows "i \<le> n \<Longrightarrow> ready disk B s \<Longrightarrow> header_read disk hb s \<Longrightarrow>
    \<exists>s'. list_entries rd mem_of hb eb start i ret s =
        Some (Inr (ret @ map partition_of (filter in_use (map (entry_bytes disk (unat start) esz) [i..<n])), s')) \<and> ready disk B s'"
proof (induction "n - i" arbitrary: i ret s)
  case 0
  have "table_header (mem_of s) hb = h" using 0(4) unfolding h_def by (intro table_header_read) (simp add: header_read_def)
  then show ?case using 0 by (subst list_entries.simps) (simp add: n_def)
next
  case (Suc d)
  have d: "16 \<le> esz" "esz \<le> 344" "n < 2 ^ 31" "esz * n < 2 ^ 32" "unat (PartitionEntryLBA h) < 2 ^ 47"
    using disk unfolding gpt_disk_def by (simp_all add: Let_def n_def esz_def h_def sizeof_GPTPartitionEntry_def)
  have i: "i < n" using Suc(2) by simp
  have st: "unat start = unat (PartitionEntryLBA h) * 512"
    unfolding start_def using d(5) by (simp add: SectorSize_def unat_word_ariths)
  have "esz * i < 2 ^ 32" using i d(4) by (meson le_less_trans less_imp_le mult_le_mono2)
  then have "unat (PartitionEntrySize h * of_nat i) = esz * i" using i d(3) by (simp add: unat_word_ariths unat_of_nat esz_def)
  moreover have "unat (ucast w :: u64) = unat w" for w :: u32 by (simp add: unat_ucast_up)
  ultimately have p: "unat (start + ucast (PartitionEntrySize h * of_nat i)) = unat start + esz * i" "unat (ucast (PartitionEntrySize h) :: u64) = esz"
    using st d(5) \<open>esz * i < 2 ^ 32\<close> by (simp_all add: unat_word_ariths esz_def)
  have "\<exists>s'. rd s eb (start + ucast (PartitionEntrySize h * of_nat i)) (ucast (PartitionEntrySize h)) = Some (Inr (ErrSuccess, s')) \<and>
      ready disk B s' \<and> header_read disk hb s' \<and> (\<forall>k < esz. mem_of s' (eb + of_nat k) = disk (unat start + esz * i + k))"
    using read_entry [OF buf Suc(4,5), of "ucast (PartitionEntrySize h)" "start + ucast (PartitionEntrySize h * of_nat i)"] p st d \<open>esz * i < 2 ^ 32\<close> by simp
  then obtain s' where s': "rd s eb (start + ucast (PartitionEntrySize h * of_nat i)) (ucast (PartitionEntrySize h)) = Some (Inr (ErrSuccess, s'))"
    "ready disk B s'" "header_read disk hb s'" "\<And>k. k < esz \<Longrightarrow> mem_of s' (eb + of_nat k) = disk (unat start + esz * i + k)" by blast
  note e = entry_read [of esz "mem_of s'" eb disk "unat start" i, OF s'(4) d(1)]
  have th: "table_header (mem_of s) hb = h" "table_header (mem_of s') hb = h"
    using Suc(5) s'(3) unfolding h_def by (intro table_header_read; simp add: header_read_def)+
  define ret' where "ret' = (if in_use (entry_bytes disk (unat start) esz i) then ret @ [partition_of (entry_bytes disk (unat start) esz i)] else ret)"
  have step: "list_entries rd mem_of hb eb start i ret s = list_entries rd mem_of hb eb start (i + 1) ret' s'"
    using i d(1,2,3) s'(1) e by (subst list_entries.simps) (simp add: th Let_def ret'_def sizeof_GPTPartitionEntry_def flip: n_def esz_def)
  have up: "[i..<n] = i # [i + 1..<n]" using i by (simp add: upt_conv_Cons)
  have "d = n - (i + 1)" "i + 1 \<le> n" using Suc(2) i by simp_all
  from Suc(1) [OF this s'(2,3), of ret'] show ?case unfolding step up by (auto simp: ret'_def)
qed

lemma list_partitions:
  assumes buf: "buffers_ok hb eb B" and disk: "gpt_disk disk" and s: "ready disk B s"
  shows "\<exists>s'. ListPrimaryPartitions rd mem_of hb eb s = Some (Inr (gpt_partitions disk, s')) \<and> ready disk B s'"
proof -
  have B: "hb + of_nat k \<in> B" if "k < unat SectorSize" for k using buf that by (fastforce simp: buffers_ok_def SectorSize_def)
  have "0 < unat SectorSize" "unat SectorSize \<le> 512" "unat (SectorSize * 1) + 1023 < 2 ^ 57" "unat hb + unat SectorSize \<le> 2 ^ 64"
    using buf by (simp_all add: SectorSize_def buffers_ok_def)
  from rd_ok [OF s this B] obtain s1 where s1: "rd s hb (SectorSize * 1) SectorSize = Some (Inr (ErrSuccess, s1))" "ready disk B s1"
    "\<And>k. k < 512 \<Longrightarrow> mem_of s1 (hb + of_nat k) = disk (512 + k)" by (auto simp: SectorSize_def)
  have m: "bytes_at (mem_of s1) hb 0 8 = efi_magic"
  proof -
    have "bytes_at (mem_of s1) hb 0 8 = map (\<lambda>k. disk (512 + k)) [0..<8]" unfolding bytes_at_def using s1(3) by (intro map_cong) simp_all
    also have "\<dots> = map disk [512..<520]" by (simp add: upt_rec)
    finally show ?thesis using disk by (simp add: gpt_disk_def)
  qed
  have h: "header_read disk hb s1" using s1(3) by (simp add: header_read_def)
  have th: "table_header (mem_of s1) hb = table_header (disk_mem disk) 512" using s1(3) by (rule table_header_read)
  have lba: "unat (PartitionEntryLBA (table_header (disk_mem disk) 512) * SectorSize) = unat (PartitionEntryLBA (table_header (disk_mem disk) 512)) * 512"
    using disk by (simp add: gpt_disk_def Let_def SectorSize_def unat_word_ariths)
  show ?thesis
    using list_entries_ok [OF buf disk le0 s1(2) h, of "[]"] s1(1) m lba by (simp add: ListPrimaryPartitions_def th gpt_partitions_def Let_def)
qed

end

section \<open>Extents\<close>

text \<open>Offset and size in bytes of the partitions, from the blocks that are stored on the disk.\<close>

definition gpt_extents :: "(nat \<Rightarrow> u8) \<Rightarrow> (u64 \<times> u64) list" where
  "gpt_extents disk =
     (let h = table_header (disk_mem disk) 512; pos = (\<lambda>i. unat (PartitionEntryLBA h) * 512 + unat (PartitionEntrySize h) * i) in
      map (\<lambda>i. let first = load_le (disk_mem disk) (of_nat (pos i + 32)) 8; last = load_le (disk_mem disk) (of_nat (pos i + 40)) 8 in (first * 512, (last - first + 1) * 512))
        (filter (\<lambda>i. load_le (disk_mem disk) (of_nat (pos i)) 16 \<noteq> (0 :: 128 word)) [0..<unat (PartitionEntryCount h)]))"

lemma entry_field:
  assumes "f + n \<le> esz" "start + esz * i + esz < 2 ^ 64"
  shows "load_le (bytes_mem (entry_bytes disk start esz i @ zs)) (of_nat f) n = load_le (disk_mem disk) (of_nat (start + esz * i + f)) n"
proof (rule load_le_shift)
  fix k assume k: "k < n"
  have "unat (of_nat f + of_nat k :: u64) = f + k"
    using unat_of_nat [where 'a = 64, of "f + k"] k assms by simp
  moreover have "unat (of_nat (start + esz * i + f) + of_nat k :: u64) = start + esz * i + f + k"
    using unat_of_nat [where 'a = 64, of "start + esz * i + f + k"] k assms by simp
  ultimately show "bytes_mem (entry_bytes disk start esz i @ zs) (of_nat f + of_nat k) = disk_mem disk (of_nat (start + esz * i + f) + of_nat k)"
    using k assms(1) by (simp add: bytes_mem_def disk_mem_def entry_bytes_def nth_append ac_simps)
qed

lemma partition_extents:
  assumes disk: "gpt_disk disk" and esz: "48 \<le> unat (PartitionEntrySize (table_header (disk_mem disk) 512))"
  shows "map (\<lambda>p. (start_offset p, part_size p)) (gpt_partitions disk) = gpt_extents disk"
proof -
  define h where "h = table_header (disk_mem disk) 512"
  define start z n where d: "start = unat (PartitionEntryLBA h) * 512" "z = unat (PartitionEntrySize h)" "n = unat (PartitionEntryCount h)"
  have b: "48 \<le> z" "z * n < 2 ^ 32" "start < 2 ^ 56" using disk esz by (simp_all add: gpt_disk_def Let_def d h_def)
  have lim: "start + z * i + z < 2 ^ 64" if "i < n" for i
  proof -
    have "z * i + z \<le> z * n" using that mult_le_mono2 [of "Suc i" n z] by simp
    then show ?thesis using b by simp
  qed
  let ?e = "entry_bytes disk start z"
  have u: "in_use (?e i) \<longleftrightarrow> load_le (disk_mem disk) (of_nat (start + z * i)) 16 \<noteq> (0 :: 128 word)" if "i < n" for i
    using entry_field [of 0 16 z start i disk "[]", where 'a = 128] lim [OF that] b(1) by (simp add: in_use_def)
  have x: "(start_offset (partition_of (?e i)), part_size (partition_of (?e i))) = (let first = load_le (disk_mem disk) (of_nat (start + z * i + 32)) 8;
      last = load_le (disk_mem disk) (of_nat (start + z * i + 40)) 8 in (first * 512, (last - first + 1) * 512))" if "i < n" for i
    using entry_field [of 32 8 z start i disk _, where 'a = 64] entry_field [of 40 8 z start i disk _, where 'a = 64] lim [OF that] b(1)
    by (simp add: partition_of_def Let_def SectorSize_def)
  have "filter in_use (map ?e [0..<n]) = map ?e (filter (\<lambda>i. load_le (disk_mem disk) (of_nat (start + z * i)) 16 \<noteq> (0 :: 128 word)) [0..<n])"
    unfolding filter_map comp_def by (intro arg_cong [where f = "map ?e"] filter_cong refl u) simp
  then show ?thesis unfolding gpt_partitions_def gpt_extents_def h_def [symmetric] Let_def d [symmetric] using x by (simp add: Let_def)
qed

text \<open>C13: the thread of the disk driver lists the partitions of the first disk: on a disk with a partition table it reads, through the controller, exactly the
  entries in use, in their order, with the offset and the size in bytes that follow from the first and last block that the disk holds for each.\<close>

theorem partitions_listed:
  assumes "buffers_ok header_buf entry_buf B" "gpt_disk disk" "ahci_ready c reg disk B s"
  shows "\<exists>s'. KthreadEntry c (reg # regs) header_buf entry_buf s = Some (Inr (gpt_partitions disk, s')) \<and> ahci_ready c reg disk B s' \<and>
    (48 \<le> unat (PartitionEntrySize (table_header (disk_mem disk) 512)) \<longrightarrow> map (\<lambda>p. (start_offset p, part_size p)) (gpt_partitions disk) = gpt_extents disk)"
  using ahci_device.list_partitions [OF assms] partition_extents [OF assms(2)] by (simp add: KthreadEntry_def)

section \<open>Witness\<close>

text \<open>A disk with a table of two entries, of which the first is in use, for the blocks 34 to 2081.\<close>

definition sample_disk :: "nat \<Rightarrow> u8" where
  "sample_disk k =
     (if 512 \<le> k \<and> k < 520 then efi_magic ! (k - 512) else if k = 584 then 2 else if k = 592 then 2 else if k = 596 then 128
      else if k = 1024 then 1 else if k = 1056 then 34 else if k = 1064 then 0x21 else if k = 1065 then 8 else 0)"

lemma sample_fields:
  "load_le (disk_mem sample_disk) 584 8 = (2 :: u64)" "load_le (disk_mem sample_disk) 592 4 = (2 :: u32)" "load_le (disk_mem sample_disk) 596 4 = (128 :: u32)"
  "load_le (disk_mem sample_disk) 1024 16 = (1 :: 128 word)" "load_le (disk_mem sample_disk) 1152 16 = (0 :: 128 word)"
  "load_le (disk_mem sample_disk) 1056 8 = (34 :: u64)" "load_le (disk_mem sample_disk) 1064 8 = (2081 :: u64)"
  by (simp_all add: load_le_def disk_mem_def sample_disk_def upt_rec)

lemma sample_header: "table_header (disk_mem sample_disk) 512 = \<lparr>PartitionEntryLBA = 2, PartitionEntryCount = 2, PartitionEntrySize = 128\<rparr>"
  by (simp add: table_header_def sample_fields)

lemma sample_gpt_disk: "gpt_disk sample_disk"
  by (simp add: gpt_disk_def sample_header sizeof_GPTPartitionEntry_def upt_rec) (simp add: sample_disk_def efi_magic_def)

lemma sample_extents: "gpt_extents sample_disk = [(34 * 512, 2048 * 512)]"
proof -
  have "[0..<2] = [0, 1 :: nat]" by (simp add: upt_rec)
  then show ?thesis by (simp add: gpt_extents_def sample_header Let_def sample_fields)
qed

lemma low_memory_avoided:
  assumes "frames_ok a" "\<And>x. x \<in> B \<Longrightarrow> x < KERNEL_START"
  shows "heap_avoids B a"
proof -
  have "frames_ok a'" if "kmalloc_reach a a'" for a'
    using that assms(1)
  proof induction
    case (reach_step a sz p a' a'')
    then show ?case using kmalloc_frame [of a sz] by auto
  qed
  moreover have "KERNEL_START \<le> p" if f: "frames_ok a'" "kmalloc a' sz = Inr (p, a'')" for a' a'' sz p
  proof -
    obtain x where "p = KERNEL_START + x" "unat x < 2 ^ 41" using kmalloc_frame [OF f(1), of sz] f(2) by auto
    then show ?thesis by (simp add: word_le_nat_alt KERNEL_START_def unat_word_ariths)
  qed
  ultimately show ?thesis unfolding heap_avoids_def using assms(2) by (meson less_le_trans)
qed

theorem partitions_listed_witness:
  "\<exists>a s' ps. buddy_allocator_init 0x4000000 30 = Inr a \<and> KthreadEntry (sample_hba sample_disk) [0] 0x1000 0x2000 (disk_start a) = Some (Inr (ps, s')) \<and>
     map (\<lambda>p. (start_offset p, part_size p)) ps = [(34 * 512, 2048 * 512)]"
proof -
  obtain a where a: "buddy_allocator_init 0x4000000 30 = Inr a" "frames_ok a" using initial_frames_ok by blast
  define B :: "u64 set" where "B = {0x1000 + of_nat k |k. k < 512} \<union> {0x2000 + of_nat k |k. k < 512}"
  have buf: "buffers_ok 0x1000 0x2000 B" by (simp add: buffers_ok_def B_def)
  have "x < KERNEL_START" if "x \<in> B" for x
    using that unat_offset [of "0x1000"] unat_offset [of "0x2000"] by (auto simp: B_def word_less_nat_alt KERNEL_START_def)
  then have "ahci_ready (sample_hba sample_disk) 0 sample_disk B (disk_start a)"
    using low_memory_avoided [OF a(2), of B] a(2) by (simp add: ahci_ready_def sample_hba_ok sample_port_ok disk_start_def boot_state_def)
  from partitions_listed [OF buf sample_gpt_disk this, of "[]"]
  obtain s' where "KthreadEntry (sample_hba sample_disk) [0] 0x1000 0x2000 (disk_start a) = Some (Inr (gpt_partitions sample_disk, s'))"
    "map (\<lambda>p. (start_offset p, part_size p)) (gpt_partitions sample_disk) = gpt_extents sample_disk" by (auto simp: sample_header)
  then show ?thesis using a(1) sample_extents by auto
qed

end
