(* ===== verification/Pci.thy ===== *)
theory Pci
  imports Irq
begin

text \<open>
  The bus of the devices, \<^verbatim>\<open>device/pci.cpp\<close>, \<^verbatim>\<open>include/device/pci.h\<close> and \<^verbatim>\<open>device/pci_devices.cpp\<close>: base address registers, the table of drivers, the scan
  of the configuration space and the dispatch of the devices' interrupts.  The configuration space and the drivers are inputs.
\<close>

section \<open>Configuration space\<close>

definition IOAPIC_IRQ_START :: nat where "IOAPIC_IRQ_START = 0x40"
definition IOAPIC_IRQ_COUNT :: nat where "IOAPIC_IRQ_COUNT = 0x18"
definition IOAPIC_ISA_IRQ_COM1 :: nat where "IOAPIC_ISA_IRQ_COM1 = 0x44"
definition IOAPIC_PCI_IRQ_START :: nat where "IOAPIC_PCI_IRQ_START = 0x50"
definition IOAPIC_PCI_IRQ_COUNT :: nat where "IOAPIC_PCI_IRQ_COUNT = 0x8"
definition PCI_INVALID_VENDOR :: u16 where "PCI_INVALID_VENDOR = 0xffff"

definition IDENTITY_MAP_START :: u64 where "IDENTITY_MAP_START = KERNEL_START + IDENTITY_MAP_PHY_START"

text \<open>The fields of a configuration space that the kernel uses; the others are only printed.\<close>

record ExtendedConfigSpace =
  vendor :: u16
  device_id :: u16
  pci_bars :: "nat \<Rightarrow> u32"

record ECMGroup =
  group_base :: u64
  segment_group :: u16
  bus_start :: u8
  bus_end :: u8

record PCIBar =
  bar_start :: u64
  bar_size :: u64
  is_io :: bool

record PCIDeviceInfo =
  config_space :: u64
  info_bars :: "PCIBar list"

text \<open>The address that selects a word of the configuration space; \<open>inl\<close> is what the data port returns for it.\<close>

definition pci_config_address :: "u16 \<Rightarrow> u16 \<Rightarrow> u16 \<Rightarrow> u16 \<Rightarrow> u32" where
  "pci_config_address bus slot func offset =
     push_bit 16 (ucast bus) OR push_bit 11 (ucast slot) OR push_bit 8 (ucast func) OR (ucast offset AND 0xfc) OR 0x80000000"

definition pci_config_read_word :: "(u32 \<Rightarrow> u32) \<Rightarrow> u16 \<Rightarrow> u16 \<Rightarrow> u16 \<Rightarrow> u16 \<Rightarrow> u16" where
  "pci_config_read_word inl bus slot func offset =
     ucast (drop_bit (unat (offset AND 2) * 8) (inl (pci_config_address bus slot func offset)) AND 0xffff)"

section \<open>Base address registers\<close>

text \<open>\<open>rb w\<close> is what the register returns after \<open>w\<close> was written to it.  The result has the parsed register and the value left in it.\<close>

definition bar_parse :: "(u32 \<Rightarrow> u32) \<Rightarrow> u32 \<Rightarrow> (u32 \<times> u32 \<times> bool) \<times> u32" where
  "bar_parse rb old =
     (if old AND 0x1 \<noteq> 0
      then let sz = NOT (rb (0xfffffffc OR (old AND 0x3)) AND 0xfffffffc) + 1 in ((old AND 0xfffffffc, sz, True), old)
      else let sz = NOT (rb (0xfffffff0 OR (old AND 0xf)) AND 0xfffffff0) + 1 in ((old AND 0xffffffff, sz, False), old))"

definition no_bar :: PCIBar where "no_bar = \<lparr>bar_start = 0, bar_size = 0, is_io = False\<rparr>"

text \<open>The six registers of a function; one that is zero is left as it is.  \<open>rb i\<close> is register \<open>i\<close>.\<close>

definition parse_bars :: "(nat \<Rightarrow> u32 \<Rightarrow> u32) \<Rightarrow> (nat \<Rightarrow> u32) \<Rightarrow> PCIBar list" where
  "parse_bars rb bars =
     map (\<lambda>i. if bars i \<noteq> 0 then case bar_parse (rb i) (bars i) of ((start, sz, io), _) \<Rightarrow>
                 \<lparr>bar_start = ucast start, bar_size = ucast sz, is_io = io\<rparr> else no_bar) [0..<6]"

section \<open>Drivers\<close>

text \<open>The drivers by vendor and device, and those that have a device.\<close>

record 'd PCIBusDriver =
  drivers :: "u16 \<times> u16 \<Rightarrow> 'd option"
  active_drivers :: "'d list"

definition RegisterDriver :: "'d PCIBusDriver \<Rightarrow> u16 \<Rightarrow> u16 \<Rightarrow> 'd \<Rightarrow> 'd PCIBusDriver res" where
  "RegisterDriver b v d obj =
     bindR (assertR (drivers b (v, d) = None) ''drivers_.find({vendor, device}) == drivers_.end()'') (\<lambda>_.
     Inr (b\<lparr>drivers := (drivers b)((v, d) := Some obj)\<rparr>))"

datatype pci_driver = RTL8139Driver | AHCIDriver_qemu | AHCIDriver_VirtualBox

definition register_pci_devices :: "pci_driver PCIBusDriver \<Rightarrow> pci_driver PCIBusDriver res" where
  "register_pci_devices driver =
     bindR (RegisterDriver driver 0x10ec 0x8139 RTL8139Driver) (\<lambda>driver.
     bindR (RegisterDriver driver 0x8086 0x2922 AHCIDriver_qemu) (\<lambda>driver.
     RegisterDriver driver 0x8086 0x2829 AHCIDriver_VirtualBox))"

section \<open>Enumeration\<close>

text \<open>
  \<open>cs addr\<close> is the configuration space at an address of kernel space, \<open>rb addr\<close> its base address registers, and \<open>probe\<close> the drivers' \<^verbatim>\<open>Enumerate\<close>: it says whether the
  driver took the device.
\<close>

record ('s, 'd) bus_env =
  cs :: "u64 \<Rightarrow> ExtendedConfigSpace"
  cs_bars :: "u64 \<Rightarrow> nat \<Rightarrow> u32 \<Rightarrow> u32"
  probe :: "'d \<Rightarrow> PCIDeviceInfo \<Rightarrow> 's \<Rightarrow> (bool \<times> 's) res option"

definition function_addr :: "u64 \<Rightarrow> u64 \<Rightarrow> nat \<Rightarrow> nat \<Rightarrow> u64" where
  "function_addr base j dev fn = KERNEL_START + (base OR push_bit 20 j OR (push_bit 15 (of_nat dev) OR push_bit 12 (of_nat fn)))"

text \<open>One function: a driver that is registered for it is asked to take it.\<close>

definition enumerate_function :: "('s, 'd) bus_env \<Rightarrow> u64 \<Rightarrow> 'd PCIBusDriver \<times> 's \<Rightarrow> ('d PCIBusDriver \<times> 's) res option" where
  "enumerate_function env addr bs =
     (case bs of (b, s) \<Rightarrow>
        if vendor (cs env addr) = PCI_INVALID_VENDOR then Some (Inr (b, s))
        else case drivers b (vendor (cs env addr), device_id (cs env addr)) of
               None \<Rightarrow> Some (Inr (b, s))
             | Some d \<Rightarrow>
                 map_option (\<lambda>r. bindR r (\<lambda>(ok, s'). Inr (if ok then b\<lparr>active_drivers := active_drivers b @ [d]\<rparr> else b, s')))
                   (probe env d \<lparr>config_space = addr, info_bars = parse_bars (cs_bars env addr) (pci_bars (cs env addr))\<rparr> s))"

text \<open>A loop whose body may fail or not return.\<close>

fun for_each :: "('a \<Rightarrow> 's \<Rightarrow> 's res option) \<Rightarrow> 'a list \<Rightarrow> 's \<Rightarrow> 's res option" where
  "for_each f [] s = Some (Inr s)"
| "for_each f (x # xs) s =
     (case f x s of None \<Rightarrow> None | Some (Inl e) \<Rightarrow> Some (Inl e) | Some (Inr s') \<Rightarrow> for_each f xs s')"

definition enumerate_device :: "('s, 'd) bus_env \<Rightarrow> u64 \<Rightarrow> u64 \<Rightarrow> nat \<Rightarrow> 'd PCIBusDriver \<times> 's \<Rightarrow> ('d PCIBusDriver \<times> 's) res option" where
  "enumerate_device env base j dev bs =
     (if vendor (cs env (function_addr base j dev 0)) = PCI_INVALID_VENDOR then Some (Inr bs)
      else for_each (\<lambda>fn. enumerate_function env (function_addr base j dev fn)) [0..<8] bs)"

text \<open>The number of buses is the difference of two bytes as a 64-bit value.\<close>

definition bus_count :: "ECMGroup \<Rightarrow> nat" where
  "bus_count g = unat (ucast (bus_end g) - ucast (bus_start g) :: u64)"

definition enumerate_group :: "('s, 'd) bus_env \<Rightarrow> ECMGroup \<Rightarrow> 'd PCIBusDriver \<times> 's \<Rightarrow> ('d PCIBusDriver \<times> 's) res option" where
  "enumerate_group env g bs =
     (if group_base g \<ge> IDENTITY_MAP_START then Some (Inr bs)
      else for_each (\<lambda>j. for_each (\<lambda>dev. enumerate_device env (group_base g) (of_nat j) dev) [0..<32]) [0..<bus_count g] bs)"

definition enumerate_groups :: "('s, 'd) bus_env \<Rightarrow> ECMGroup list \<Rightarrow> 'd PCIBusDriver \<times> 's \<Rightarrow> ('d PCIBusDriver \<times> 's) res option" where
  "enumerate_groups env groups = for_each (enumerate_group env) groups"

section \<open>Interrupts of the devices\<close>

text \<open>The drivers are asked in order until one says that the interrupt was its own.\<close>

fun ask_drivers :: "('d \<Rightarrow> nat \<Rightarrow> 's \<Rightarrow> (bool \<times> 's) res) \<Rightarrow> 'd list \<Rightarrow> nat \<Rightarrow> 's \<Rightarrow> 's res" where
  "ask_drivers irq [] n s = Inr s"
| "ask_drivers irq (d # ds) n s = bindR (irq d n s) (\<lambda>(handled, s'). if handled then Inr s' else ask_drivers irq ds n s')"

text \<open>The handler that \<^verbatim>\<open>Enumerate\<close> registers; \<open>eoi\<close> acknowledges the interrupt at the local controller.\<close>

definition pci_handler :: "('d \<Rightarrow> nat \<Rightarrow> 's \<Rightarrow> (bool \<times> 's) res) \<Rightarrow> ('s \<Rightarrow> 's) \<Rightarrow> 'd list \<Rightarrow> 's handler" where
  "pci_handler irq eoi ds info s = bindR (ask_drivers irq ds (irq_num info) s) (\<lambda>s'. Inr (Some (eoi s')))"

definition PCI_Enumerate :: "('s, 'd) bus_env \<Rightarrow> ('d \<Rightarrow> nat \<Rightarrow> 's \<Rightarrow> (bool \<times> 's) res) \<Rightarrow> ('s \<Rightarrow> 's) \<Rightarrow> ECMGroup list \<Rightarrow>
    'd PCIBusDriver \<Rightarrow> 's interrupts \<Rightarrow> 's \<Rightarrow> ('d PCIBusDriver \<times> 's interrupts \<times> 's) res option" where
  "PCI_Enumerate env irq eoi groups b ints s =
     map_option (\<lambda>r. bindR r (\<lambda>(b', s').
       bindR (Register_range ints IOAPIC_PCI_IRQ_START IOAPIC_PCI_IRQ_COUNT (pci_handler irq eoi (active_drivers b'))) (\<lambda>ints'.
       Inr (b', ints', s')))) (enumerate_groups env groups (b, s))"

section \<open>Sizes of base address registers\<close>

text \<open>The documented behaviour of a register that decodes \<open>2 ^ k\<close> bytes: the low bits of a written value are replaced by the type bits.\<close>

definition type_bits :: "u32 \<Rightarrow> u32" where
  "type_bits old = old AND (if bit old 0 then mask 2 else mask 4)"

definition bar_decodes :: "(u32 \<Rightarrow> u32) \<Rightarrow> nat \<Rightarrow> u32 \<Rightarrow> bool" where
  "bar_decodes rb k old \<longleftrightarrow> (if bit old 0 then 2 else 4) \<le> k \<and> k < 32 \<and> (\<forall>w. rb w = (w AND NOT (mask k)) OR type_bits old) \<and> old AND mask k = type_bits old"

lemma hex_masks: "(0xfffffffc :: u32) = NOT (mask 2)" "(0xfffffff0 :: u32) = NOT (mask 4)" "(0xffffffff :: u32) = mask 32" "(3 :: u32) = mask 2" "(0xf :: u32) = mask 4"
  by (simp_all add: mask_eq_exp_minus_1)

lemma mask_plus_1: "(mask k :: u32) + 1 = 2 ^ k"
  by (simp add: mask_eq_exp_minus_1)

text \<open>C36: the size of a base address register is found by writing ones to it, and the register is restored.  The address of a port range is
  its base.  The address of a memory range keeps the type bits, since the mask that should remove them has all bits set.\<close>

theorem bar_parse_size:
  assumes "bar_decodes rb k old"
  shows "bar_parse rb old = ((if bit old 0 then old AND NOT (type_bits old) else old, 2 ^ k, bit old 0), old)"
proof -
  have k: "(if bit old 0 then 2 else 4) \<le> k" "k < 32" and rb: "\<And>w. rb w = (w AND NOT (mask k)) OR type_bits old"
    using assms by (auto simp: bar_decodes_def)
  have odd: "old AND 1 \<noteq> 0 \<longleftrightarrow> bit old 0" by (simp add: and_one_eq bit_0 mod2_eq_if)
  have n: "rb (NOT (mask j) OR (old AND mask j)) AND NOT (mask j) = NOT (mask k)" if "j \<le> k" "type_bits old = old AND mask j" for j
    unfolding rb that(2) using that(1) by (intro bit_word_eqI) (auto simp: bit_simps)
  have b: "old AND NOT (mask 2) = old AND NOT (old AND mask 2)" by (intro bit_word_eqI) (auto simp: bit_simps)
  have m: "old AND mask 32 = old" by (intro bit_word_eqI) (auto simp: bit_simps)
  show ?thesis
  proof (cases "bit old 0")
    case True
    then have t: "type_bits old = old AND mask 2" by (simp add: type_bits_def)
    show ?thesis unfolding bar_parse_def odd Let_def hex_masks using True k n [OF _ t] b by (simp add: t mask_plus_1)
  next
    case False
    then have t: "type_bits old = old AND mask 4" by (simp add: type_bits_def)
    show ?thesis unfolding bar_parse_def odd Let_def hex_masks using False k n [OF _ t] m by (simp add: mask_plus_1)
  qed
qed

section \<open>The scan\<close>

definition present :: "('s, 'd) bus_env \<Rightarrow> u64 \<Rightarrow> bool" where
  "present env addr \<longleftrightarrow> vendor (cs env addr) \<noteq> PCI_INVALID_VENDOR"

text \<open>The functions that are looked at, in the order of the scan.\<close>

definition scan_bus :: "('s, 'd) bus_env \<Rightarrow> u64 \<Rightarrow> u64 \<Rightarrow> u64 list" where
  "scan_bus env base j = concat (map (\<lambda>dev. if present env (function_addr base j dev 0) then map (function_addr base j dev) [0..<8] else []) [0..<32])"

definition scan :: "('s, 'd) bus_env \<Rightarrow> ECMGroup list \<Rightarrow> u64 list" where
  "scan env groups = filter (present env) (concat (map (\<lambda>g. if group_base g < IDENTITY_MAP_START
     then concat (map (\<lambda>j. scan_bus env (group_base g) (of_nat j)) [0..<bus_count g]) else []) groups))"

definition info_at :: "('s, 'd) bus_env \<Rightarrow> u64 \<Rightarrow> PCIDeviceInfo" where
  "info_at env addr = \<lparr>config_space = addr, info_bars = parse_bars (cs_bars env addr) (pci_bars (cs env addr))\<rparr>"

text \<open>The drivers with a function each, for all functions that have a driver.\<close>

definition matches :: "('s, 'd) bus_env \<Rightarrow> (u16 \<times> u16 \<Rightarrow> 'd option) \<Rightarrow> u64 list \<Rightarrow> ('d \<times> PCIDeviceInfo) list" where
  "matches env table addrs = concat (map (\<lambda>a. case table (vendor (cs env a), device_id (cs env a)) of None \<Rightarrow> [] | Some d \<Rightarrow> [(d, info_at env a)]) addrs)"

lemma for_each_append: "for_each f (xs @ ys) s = (case for_each f xs s of None \<Rightarrow> None | Some (Inl e) \<Rightarrow> Some (Inl e) | Some (Inr s') \<Rightarrow> for_each f ys s')"
  by (induction xs arbitrary: s) (auto split: option.splits sum.splits)

lemma for_each_concat: "(\<And>x s. g x s = for_each f (h x) s) \<Longrightarrow> for_each g xs s = for_each f (concat (map h xs)) s"
  by (induction xs arbitrary: s) (auto simp: for_each_append split: option.splits sum.splits)

lemma for_each_map: "for_each f (map h xs) s = for_each (\<lambda>x. f (h x)) xs s"
  by (induction xs arbitrary: s) (auto split: option.splits sum.splits)

lemma for_each_filter: "(\<And>x s. \<not> P x \<Longrightarrow> f x s = Some (Inr s)) \<Longrightarrow> for_each f (filter P xs) s = for_each f xs s"
  by (induction xs arbitrary: s) (auto split: option.splits sum.splits)

lemma enumerate_scan: "enumerate_groups env groups bs = for_each (enumerate_function env) (scan env groups) bs"
proof -
  have d: "enumerate_device env base j dev bs =
      for_each (enumerate_function env) (if present env (function_addr base j dev 0) then map (function_addr base j dev) [0..<8] else []) bs" for base j dev bs
    by (simp add: enumerate_device_def present_def for_each_map del: upt_rec_numeral)
  have b: "for_each (\<lambda>dev. enumerate_device env base j dev) [0..<32] bs = for_each (enumerate_function env) (scan_bus env base j) bs" for base j bs
    unfolding scan_bus_def by (rule for_each_concat) (rule d)
  have g: "enumerate_group env g bs = for_each (enumerate_function env) (if group_base g < IDENTITY_MAP_START
     then concat (map (\<lambda>j. scan_bus env (group_base g) (of_nat j)) [0..<bus_count g]) else []) bs" for g bs
    unfolding enumerate_group_def by (simp add: not_less [symmetric] for_each_concat [OF b])
  have "enumerate_groups env groups bs = for_each (enumerate_function env) (concat (map (\<lambda>g. if group_base g < IDENTITY_MAP_START
     then concat (map (\<lambda>j. scan_bus env (group_base g) (of_nat j)) [0..<bus_count g]) else []) groups)) bs"
    unfolding enumerate_groups_def by (rule for_each_concat) (rule g)
  also have "\<dots> = for_each (enumerate_function env) (scan env groups) bs"
    unfolding scan_def by (rule for_each_filter [symmetric]) (simp add: enumerate_function_def present_def split: prod.splits)
  finally show ?thesis .
qed

lemma probe_all:
  assumes "\<forall>d info s. probe env d info s = Some (Inr (acc d info, upd d info s))" "\<forall>a \<in> set addrs. present env a"
  shows "for_each (enumerate_function env) addrs (b, s) =
    Some (Inr (b\<lparr>active_drivers := active_drivers b @ map fst (filter (\<lambda>(d, i). acc d i) (matches env (drivers b) addrs))\<rparr>,
      foldl (\<lambda>s (d, i). upd d i s) s (matches env (drivers b) addrs)))"
  using assms(2)
proof (induction addrs arbitrary: b s)
  case (Cons a addrs)
  then have p: "vendor (cs env a) \<noteq> PCI_INVALID_VENDOR" by (simp add: present_def)
  show ?case
  proof (cases "drivers b (vendor (cs env a), device_id (cs env a))")
    case None
    then show ?thesis using Cons p by (simp add: enumerate_function_def matches_def)
  next
    case (Some d)
    then have e: "enumerate_function env a (b, s) =
        Some (Inr (if acc d (info_at env a) then b\<lparr>active_drivers := active_drivers b @ [d]\<rparr> else b, upd d (info_at env a) s))"
      using p assms(1) by (simp add: enumerate_function_def info_at_def)
    have m: "matches env (drivers b) (a # addrs) = (d, info_at env a) # matches env (drivers b) addrs" using Some by (simp add: matches_def)
    show ?thesis unfolding m using Cons e by simp
  qed
qed (simp add: matches_def)

text \<open>C19: the enumeration looks at every function of every device that has a function 0, on the buses from the first one up to but without the last
  one of each group, and at each such function once, in order; a function with a registered driver is offered to that driver with its base address registers
  parsed, and the drivers that accept become the active ones in this order.\<close>

theorem enumerate_drivers:
  assumes "\<forall>d info s. probe env d info s = Some (Inr (acc d info, upd d info s))"
  shows "enumerate_groups env groups (b, s) =
      Some (Inr (b\<lparr>active_drivers := active_drivers b @ map fst (filter (\<lambda>(d, i). acc d i) (matches env (drivers b) (scan env groups)))\<rparr>,
        foldl (\<lambda>s (d, i). upd d i s) s (matches env (drivers b) (scan env groups)))) \<and>
    (\<forall>addr. addr \<in> set (scan env groups) \<longleftrightarrow> present env addr \<and> (\<exists>g \<in> set groups. group_base g < IDENTITY_MAP_START \<and> (\<exists>j dev fn. j < bus_count g \<and>
      dev < 32 \<and> fn < 8 \<and> present env (function_addr (group_base g) (of_nat j) dev 0) \<and> addr = function_addr (group_base g) (of_nat j) dev fn))) \<and>
    (\<forall>g \<in> set groups. bus_start g \<le> bus_end g \<longrightarrow> bus_count g = unat (bus_end g) - unat (bus_start g))"
proof (intro conjI allI ballI impI)
  have "\<forall>a \<in> set (scan env groups). present env a" by (simp add: scan_def)
  then show "enumerate_groups env groups (b, s) =
      Some (Inr (b\<lparr>active_drivers := active_drivers b @ map fst (filter (\<lambda>(d, i). acc d i) (matches env (drivers b) (scan env groups)))\<rparr>,
        foldl (\<lambda>s (d, i). upd d i s) s (matches env (drivers b) (scan env groups))))"
    unfolding enumerate_scan by (rule probe_all [OF assms])
  show "addr \<in> set (scan env groups) \<longleftrightarrow> present env addr \<and> (\<exists>g \<in> set groups. group_base g < IDENTITY_MAP_START \<and> (\<exists>j dev fn. j < bus_count g \<and>
      dev < 32 \<and> fn < 8 \<and> present env (function_addr (group_base g) (of_nat j) dev 0) \<and> addr = function_addr (group_base g) (of_nat j) dev fn))" for addr
    by (auto simp: scan_def scan_bus_def split: if_splits simp del: upt_rec_numeral) fastforce+
  show "bus_count g = unat (bus_end g) - unat (bus_start g)" if "bus_start g \<le> bus_end g" for g
    using that by (simp add: bus_count_def unat_sub word_le_nat_alt unat_ucast_up)
qed

section \<open>Registration and dispatch\<close>

definition empty_bus :: "'d PCIBusDriver" where
  "empty_bus = \<lparr>drivers = (\<lambda>_. None), active_drivers = []\<rparr>"

lemma register_pci_devices_ok:
  "register_pci_devices empty_bus = Inr \<lparr>drivers = (\<lambda>_. None)((0x10ec, 0x8139) := Some RTL8139Driver, (0x8086, 0x2922) := Some AHCIDriver_qemu,
     (0x8086, 0x2829) := Some AHCIDriver_VirtualBox), active_drivers = []\<rparr>"
  by (simp add: register_pci_devices_def RegisterDriver_def empty_bus_def)

text \<open>The drivers before the first one that claims the interrupt are asked too, but none after it.\<close>

lemma ask_drivers_first:
  assumes "\<And>d s. irq d n s = Inr (claims d s, after d s)"
  shows "ask_drivers irq ds n s = Inr (case ds of [] \<Rightarrow> s | d # ds' \<Rightarrow> if claims d s then after d s else projr (ask_drivers irq ds' n (after d s)))"
proof -
  have "\<exists>s'. ask_drivers irq ds n s = Inr s'" for ds s by (induction ds arbitrary: s) (auto simp: assms)
  then show ?thesis by (cases ds) (auto simp: assms, metis sum.sel(2))
qed

section \<open>Witnesses\<close>

theorem bar_parse_size_witness: "bar_parse (\<lambda>w. (w AND NOT (mask 12)) OR 8) 0xfebc1008 = ((0xfebc1008, 0x1000, False), 0xfebc1008)"
proof -
  have o: "\<not> bit (0xfebc1008 :: u32) 0" by (simp add: bit_0)
  have "type_bits 0xfebc1008 = 8" "(0xfebc1008 :: u32) AND mask 12 = 8" using o by (simp_all add: type_bits_def mask_eq_exp_minus_1)
  then have "bar_decodes (\<lambda>w. (w AND NOT (mask 12)) OR 8) 12 0xfebc1008" using o by (simp add: bar_decodes_def)
  from bar_parse_size [OF this] show ?thesis using o by simp
qed

text \<open>A machine with one network card.\<close>

definition sample_bus :: "(nat, pci_driver) bus_env" where
  "sample_bus = \<lparr>cs = (\<lambda>a. if a = KERNEL_START + 0xb0018000 then \<lparr>vendor = 0x10ec, device_id = 0x8139, pci_bars = (\<lambda>_. 0)\<rparr>
       else \<lparr>vendor = PCI_INVALID_VENDOR, device_id = 0, pci_bars = (\<lambda>_. 0)\<rparr>),
     cs_bars = (\<lambda>_ _ w. w), probe = (\<lambda>d i s. Some (Inr (True, s + 1)))\<rparr>"

definition sample_groups :: "ECMGroup list" where
  "sample_groups = [\<lparr>group_base = 0xb0000000, segment_group = 0, bus_start = 0, bus_end = 1\<rparr>]"

lemma sample_scan: "scan sample_bus sample_groups = [KERNEL_START + 0xb0018000]"
proof -
  have p: "present sample_bus (KERNEL_START + x) \<longleftrightarrow> x = 0xb0018000" for x by (simp add: present_def sample_bus_def PCI_INVALID_VENDOR_def)
  have l: "(0xb0000000 :: u64) < IDENTITY_MAP_START" by (simp add: IDENTITY_MAP_START_def KERNEL_START_def)
  have c: "bus_count \<lparr>group_base = 0xb0000000, segment_group = 0, bus_start = 0, bus_end = 1\<rparr> = 1" by (simp add: bus_count_def)
  have "scan_bus sample_bus 0xb0000000 0 = map (function_addr 0xb0000000 0 3) [0..<8]"
    by (simp add: scan_bus_def function_addr_def p upt_rec)
  then show ?thesis by (simp add: scan_def sample_groups_def l c function_addr_def p upt_rec)
qed

theorem enumerate_drivers_witness:
  "\<exists>b'. enumerate_groups sample_bus sample_groups (\<lparr>drivers = (\<lambda>_. None)((0x10ec, 0x8139) := Some RTL8139Driver), active_drivers = []\<rparr>, 0) = Some (Inr (b', 1)) \<and>
     active_drivers b' = [RTL8139Driver]"
proof -
  let ?b = "\<lparr>drivers = (\<lambda>_. None)((0x10ec, 0x8139) := Some RTL8139Driver), active_drivers = []\<rparr>"
  have "\<forall>d info s. probe sample_bus d info s = Some (Inr (True, s + 1))" by (simp add: sample_bus_def)
  note e = conjunct1 [OF enumerate_drivers [OF this, where groups = sample_groups and b = ?b and s = 0]]
  have "matches sample_bus (drivers ?b) (scan sample_bus sample_groups) = [(RTL8139Driver, info_at sample_bus (KERNEL_START + 0xb0018000))]"
    by (simp add: sample_scan matches_def) (simp add: sample_bus_def)
  then show ?thesis unfolding e by simp
qed

end
