(* ===== verification/Apic.thy ===== *)
theory Apic
  imports Pci Elf
begin

text \<open>
  The interrupt controllers: the one that routes the lines of the devices (\<^verbatim>\<open>ioapic_init\<close> and its helpers in \<^verbatim>\<open>device/rtl8139.cpp\<close>), the one of the processor
  with its timer (\<^verbatim>\<open>device/apic.cpp\<close>), and the handler of the serial line (\<^verbatim>\<open>device/serial8250.cpp\<close>).
\<close>

section \<open>Routing of the lines\<close>

text \<open>The controller is reached through a register that selects and one that holds the data.\<close>

record ioapic =
  ioregsel :: u32
  ioregs :: "u8 \<Rightarrow> u32"

definition write_ioapic_register :: "ioapic \<Rightarrow> u8 \<Rightarrow> u32 \<Rightarrow> ioapic" where
  "write_ioapic_register s offset val = s\<lparr>ioregsel := ucast offset, ioregs := (ioregs s)(offset := val)\<rparr>"

definition read_ioapic_register :: "ioapic \<Rightarrow> u8 \<Rightarrow> u32 \<times> ioapic" where
  "read_ioapic_register s offset = (ioregs s offset, s\<lparr>ioregsel := ucast offset\<rparr>)"

definition ioapic_disable_irq :: "u32 \<Rightarrow> u32 \<Rightarrow> ioapic \<Rightarrow> ioapic" where
  "ioapic_disable_irq irq_base irq s = write_ioapic_register s (ucast (0x10 + 2 * (irq - irq_base))) (push_bit 16 1)"

definition ioapic_enable_irq :: "u32 \<Rightarrow> u32 \<Rightarrow> u32 \<Rightarrow> ioapic \<Rightarrow> ioapic" where
  "ioapic_enable_irq target_lapic_id irq_base irq s =
     (let s = write_ioapic_register s (ucast (0x10 + 2 * (irq - irq_base))) (irq OR push_bit 13 1);
          s = write_ioapic_register s (ucast (0x11 + 2 * (irq - irq_base))) (push_bit 24 target_lapic_id);
          (lo, s) = read_ioapic_register s (ucast (0x10 + 2 * (irq - irq_base)));
          (hi, s) = read_ioapic_register s (ucast (0x11 + 2 * (irq - irq_base)))
      in s)"

text \<open>The search in the table of controllers: address and first line of the first entry of type 1.  An entry of length 0 makes it stay at its place.\<close>

partial_function (option) find_ioapic :: "mem \<Rightarrow> u64 \<Rightarrow> u64 \<Rightarrow> u64 \<Rightarrow> (u32 \<times> u32) option" where
  "find_ioapic m p left offset =
     (if offset < left
      then if m (p + offset) = 1 then Some (load_le m (p + offset + 4) 4, load_le m (p + offset + 8) 4)
           else find_ioapic m p left (offset + ucast (m (p + offset + 1)))
      else Some (0, 0))"

definition sizeof_SystemDescriptionTable :: u64 where "sizeof_SystemDescriptionTable = 36"

text \<open>\<open>hw\<close> is the controller at a physical address.  The flag says whether the two old controllers are masked.\<close>

definition ioapic_init :: "mem \<Rightarrow> u64 \<Rightarrow> (u32 \<Rightarrow> ioapic) \<Rightarrow> (bool \<times> u32 \<times> ioapic) res option" where
  "ioapic_init m table hw =
     (let data = table + sizeof_SystemDescriptionTable;
          flags = load_le m (data + 4) 4 :: u32;
          left = ucast (load_le m (table + 4) 4 :: u32) - sizeof_SystemDescriptionTable - 8 in
      map_option (\<lambda>(phy_addr, gsb).
        bindR (assertR (phy_addr \<noteq> 0) ''No IO APIC available!'') (\<lambda>_.
        let (v, s) = read_ioapic_register (hw phy_addr) 0x1;
            max_redir_entry = (drop_bit 16 v AND 0xff) + 1 in
        bindR (assertR (max_redir_entry \<ge> 1) ''NO IRQ avaialble for this IO APIC'') (\<lambda>_.
        bindR (assertR (max_redir_entry = of_nat IOAPIC_IRQ_COUNT) ''max_redir_entry == IOAPIC_IRQ_COUNT'') (\<lambda>_.
        let s = foldl (\<lambda>s irq. ioapic_disable_irq (of_nat IOAPIC_IRQ_START) (of_nat (IOAPIC_IRQ_START + irq)) s) s [0..<IOAPIC_IRQ_COUNT];
            s = foldl (\<lambda>s irq. ioapic_enable_irq 0 (of_nat IOAPIC_IRQ_START) (of_nat irq) s) s
                  [IOAPIC_PCI_IRQ_START..<IOAPIC_PCI_IRQ_START + IOAPIC_PCI_IRQ_COUNT]
        in Inr (flags AND 1 \<noteq> 0, phy_addr, ioapic_enable_irq 0 (of_nat IOAPIC_IRQ_START) (of_nat IOAPIC_ISA_IRQ_COM1) s)))))
      (find_ioapic m (data + 8) left 0))"

section \<open>The timer of the processor\<close>

definition APIC_EOI :: u16 where "APIC_EOI = 0x0B0"
definition APIC_TASKPRIOR :: u16 where "APIC_TASKPRIOR = 0x80"
definition APIC_LDR :: u16 where "APIC_LDR = 0x0D0"
definition APIC_DFR :: u16 where "APIC_DFR = 0x0E0"
definition APIC_SPURIOUS :: u16 where "APIC_SPURIOUS = 0xF0"
definition APIC_LVT_TMR :: u16 where "APIC_LVT_TMR = 0x320"
definition APIC_LVT_PERF :: u16 where "APIC_LVT_PERF = 0x340"
definition APIC_LVT_LINT0 :: u16 where "APIC_LVT_LINT0 = 0x350"
definition APIC_LVT_LINT1 :: u16 where "APIC_LVT_LINT1 = 0x360"
definition APIC_TMRINITCNT :: u16 where "APIC_TMRINITCNT = 0x380"
definition APIC_TMRDIV :: u16 where "APIC_TMRDIV = 0x3E0"
definition APIC_DISABLE :: u32 where "APIC_DISABLE = 0x10000"
definition APIC_SW_ENABLE :: u32 where "APIC_SW_ENABLE = 0x100"
definition APIC_NMI :: u32 where "APIC_NMI = push_bit 8 4"
definition TMR_PERIODIC :: u32 where "TMR_PERIODIC = 0x20000"
definition IRQ_TIMER :: nat where "IRQ_TIMER = 32"
definition IRQ_SPURIOUS :: nat where "IRQ_SPURIOUS = 37"

record APIC =
  apic_base :: u64
  apic_regs :: "u16 \<Rightarrow> u32"
  base_msr :: u64

definition apic_write :: "u16 \<Rightarrow> u32 \<Rightarrow> APIC \<Rightarrow> APIC" where
  "apic_write addr data a = a\<lparr>apic_regs := (apic_regs a)(addr := data)\<rparr>"

definition eoi :: "APIC \<Rightarrow> APIC" where
  "eoi a = apic_write APIC_EOI 0 a"

text \<open>\<open>count_left\<close> is the value of the counter after the delay loop.\<close>

definition setup_timer :: "u32 \<Rightarrow> APIC \<Rightarrow> APIC" where
  "setup_timer count_left a =
     (let a = apic_write APIC_DFR 0xffffffff a;
          ldr = (apic_regs a APIC_LDR AND 0x00ffffff) OR 1;
          a = apic_write APIC_LDR ldr a;
          a = apic_write APIC_LVT_TMR APIC_DISABLE a;
          a = apic_write APIC_LVT_PERF APIC_NMI a;
          a = apic_write APIC_LVT_LINT0 APIC_DISABLE a;
          a = apic_write APIC_LVT_LINT1 APIC_DISABLE a;
          a = apic_write APIC_TASKPRIOR 0 a;
          a = a\<lparr>base_msr := base_msr a OR push_bit 11 1\<rparr>;
          a = apic_write APIC_SPURIOUS (of_nat IRQ_SPURIOUS + APIC_SW_ENABLE) a;
          a = apic_write APIC_LVT_TMR 32 a;
          a = apic_write APIC_TMRDIV 3 a;
          a = apic_write APIC_TMRINITCNT 0xFFFFFFFF a;
          a = apic_write APIC_LVT_TMR (apic_regs a APIC_LVT_TMR AND NOT (push_bit 16 1)) a;
          ticks = 0xFFFFFFFF - count_left;
          a = apic_write APIC_LVT_TMR (of_nat IRQ_TIMER OR TMR_PERIODIC) a;
          a = apic_write APIC_TMRDIV 0x3 a
      in apic_write APIC_TMRINITCNT ticks a)"

definition IDENTITY_MAP_END :: u64 where "IDENTITY_MAP_END = IDENTITY_MAP_START + IDENTITY_MAP_SIZE"

definition apic_new :: "u32 \<Rightarrow> APIC \<Rightarrow> APIC res" where
  "apic_new count_left a =
     (let base = (base_msr a AND 0xfffffffff000) + KERNEL_START in
      bindR (assertR (base < IDENTITY_MAP_END) ''APIC base must be below IDENTITY_MAP_END'') (\<lambda>_. Inr (setup_timer count_left (a\<lparr>apic_base := base\<rparr>))))"

text \<open>The handler of the timer acknowledges the interrupt; \<open>ack\<close> does this in a state that contains the controller.\<close>

definition timer_handler :: "('s \<Rightarrow> 's) \<Rightarrow> 's handler" where
  "timer_handler ack info s = Inr (Some (ack s))"

definition lapic_init :: "u32 \<Rightarrow> ('s \<Rightarrow> 's) \<Rightarrow> 's interrupts \<Rightarrow> APIC \<Rightarrow> (APIC \<times> 's interrupts) res" where
  "lapic_init count_left ack ints a =
     bindR (apic_new count_left a) (\<lambda>a'. bindR (Register ints IRQ_TIMER (timer_handler ack)) (\<lambda>ints'. Inr (a', ints')))"

section \<open>The serial line\<close>

definition Serial8250RxBuffer :: u16 where "Serial8250RxBuffer = 0"
definition Serial8250IRQStatus :: u16 where "Serial8250IRQStatus = 2"
definition Serial8250LSR :: u16 where "Serial8250LSR = 5"
definition Serial8250IRQStatusNoIRQ :: u16 where "Serial8250IRQStatusNoIRQ = 1"
definition Serial8250LSRDataReady :: u16 where "Serial8250LSRDataReady = 1"

text \<open>\<open>inb\<close> is what the ports return.  The result: whether the interrupt was handled (and acknowledged), and the byte that came in.\<close>

definition HandleIRQ :: "(u16 \<Rightarrow> u8) \<Rightarrow> u16 \<Rightarrow> nat \<Rightarrow> bool \<times> u8 option" where
  "HandleIRQ inb io_base n =
     (if n \<noteq> IOAPIC_ISA_IRQ_COM1 then (False, None)
      else if ucast (inb (io_base + Serial8250IRQStatus)) AND Serial8250IRQStatusNoIRQ \<noteq> 0 then (False, None)
      else (True, if ucast (inb (io_base + Serial8250LSR)) AND Serial8250LSRDataReady \<noteq> 0 then Some (inb (io_base + Serial8250RxBuffer)) else None))"

text \<open>The handler that the constructor registers, on a state with an acknowledgement and an output.\<close>

definition com1_handler :: "('s \<Rightarrow> u16 \<Rightarrow> u8) \<Rightarrow> u16 \<Rightarrow> ('s \<Rightarrow> 's) \<Rightarrow> (u8 \<Rightarrow> 's \<Rightarrow> 's) \<Rightarrow> 's handler" where
  "com1_handler inb io_base ack echo info s =
     (case HandleIRQ (inb s) io_base (irq_num info) of
        (handled, data) \<Rightarrow> let s = (case data of None \<Rightarrow> s | Some c \<Rightarrow> echo c s) in Inr (Some (if handled then ack s else s)))"

definition Serial8250_new :: "('s \<Rightarrow> u16 \<Rightarrow> u8) \<Rightarrow> u16 \<Rightarrow> ('s \<Rightarrow> 's) \<Rightarrow> (u8 \<Rightarrow> 's \<Rightarrow> 's) \<Rightarrow> 's interrupts \<Rightarrow> 's interrupts res" where
  "Serial8250_new inb io_base ack echo ints = Register ints IOAPIC_ISA_IRQ_COM1 (com1_handler inb io_base ack echo)"

section \<open>The table of controllers\<close>

text \<open>The entries of the table as lists of bytes: type, length, and for the type of the routing controller its address and first line.\<close>

definition madt_entry_ok :: "u8 list \<Rightarrow> bool" where
  "madt_entry_ok e \<longleftrightarrow> 2 \<le> length e \<and> length e = unat (e ! 1) \<and> (e ! 0 = 1 \<longrightarrow> 12 \<le> length e)"

definition madt_at :: "mem \<Rightarrow> u64 \<Rightarrow> u8 list list \<Rightarrow> bool" where
  "madt_at m p es \<longleftrightarrow> (\<forall>e \<in> set es. madt_entry_ok e) \<and> (\<forall>k < length (concat es). m (p + of_nat k) = concat es ! k)"

fun first_ioapic :: "u8 list list \<Rightarrow> u32 \<times> u32" where
  "first_ioapic [] = (0, 0)"
| "first_ioapic (e # es) = (if e ! 0 = 1 then (load_le (bytes_mem e) 4 4, load_le (bytes_mem e) 8 4) else first_ioapic es)"

lemma find_ioapic_first:
  "madt_at m (p + off) es \<Longrightarrow> unat off + length (concat es) < 2 ^ 64 \<Longrightarrow> find_ioapic m p (off + of_nat (length (concat es))) off = Some (first_ioapic es)"
proof (induction es arbitrary: off)
  case Nil
  show ?case by (subst find_ioapic.simps) simp
next
  case (Cons e es)
  have e: "2 \<le> length e" "length e = unat (e ! 1)" "e ! 0 = 1 \<Longrightarrow> 12 \<le> length e" using Cons.prems(1) by (auto simp: madt_at_def madt_entry_ok_def)
  have at: "m (p + off + of_nat k) = (e @ concat es) ! k" if "k < length e + length (concat es)" for k
    using Cons.prems(1) that by (simp add: madt_at_def)
  have lt: "off < off + of_nat (length (concat (e # es)))"
  proof -
    have "2 \<le> length (concat (e # es))" using e(1) by simp
    then show ?thesis unfolding word_less_nat_alt unat_offset [OF Cons.prems(2)] by linarith
  qed
  have b: "m (p + off) = e ! 0" "m (p + off + 1) = e ! 1"
  proof -
    have "e \<noteq> []" using e(1) by auto
    then show "m (p + off) = e ! 0" "m (p + off + 1) = e ! 1" using at [of 0] at [of 1] e(1) by (simp_all add: nth_append)
  qed
  show ?case
  proof (cases "e ! 0 = 1")
    case True
    have f: "load_le m (p + off + of_nat i) 4 = load_le (bytes_mem e) (of_nat i) 4" if "i + 4 \<le> 12" for i
    proof (rule load_le_shift)
      fix k :: nat assume k: "k < 4"
      then show "m (p + off + of_nat i + of_nat k) = bytes_mem e (of_nat i + of_nat k)"
        using at [of "i + k"] that e(3) [OF True] unat_of_nat [where 'a = 64, of "i + k"] by (simp add: nth_append bytes_mem_def add.assoc)
    qed
    show ?thesis using lt b True f [of 4] f [of 8] by (subst find_ioapic.simps) simp
  next
    case False
    have n: "off + ucast (m (p + off + 1)) = off + of_nat (length e)" using b(2) e(2) by (simp add: of_nat_unat)
    have u: "unat (off + of_nat (length e)) = unat off + length e" using Cons.prems(2) by (intro unat_offset) simp
    have "madt_at m (p + (off + of_nat (length e))) es"
      unfolding madt_at_def
    proof (intro conjI allI impI ballI)
      show "madt_entry_ok x" if "x \<in> set es" for x using Cons.prems(1) that by (simp add: madt_at_def)
      show "m (p + (off + of_nat (length e)) + of_nat k) = concat es ! k" if "k < length (concat es)" for k
        using at [of "length e + k"] that by (simp add: nth_append add.assoc)
    qed
    from Cons.IH [OF this] u Cons.prems(2)
    have "find_ioapic m p (off + of_nat (length e) + of_nat (length (concat es))) (off + of_nat (length e)) = Some (first_ioapic es)" by simp
    moreover have "off + of_nat (length (concat (e # es))) = off + of_nat (length e) + of_nat (length (concat es))" by (simp add: add.assoc)
    ultimately show ?thesis using lt b False by (subst find_ioapic.simps) (simp add: n [unfolded b, simplified] add.assoc)
  qed
qed

lemma find_ioapic_stuck:
  "find_ioapic m p left off = Some r \<Longrightarrow> off < left \<Longrightarrow> m (p + off) \<noteq> 1 \<Longrightarrow> m (p + off + 1) = 0 \<Longrightarrow> False"
proof (induction rule: find_ioapic.raw_induct [rotated 1, consumes 1])
  case (1 f m p left off r)
  then have "f m p left off = Some r" by simp
  then show ?case using 1 by (cases r) blast
qed

section \<open>The routes\<close>

lemma ioregs_writes:
  "ioregs (ioapic_disable_irq b i s) = (ioregs s)(ucast (0x10 + 2 * (i - b)) := push_bit 16 1)"
  "ioregs (ioapic_enable_irq t b i s) = (ioregs s)(ucast (0x10 + 2 * (i - b)) := i OR push_bit 13 1, ucast (0x11 + 2 * (i - b)) := push_bit 24 t)"
  by (simp_all add: ioapic_disable_irq_def ioapic_enable_irq_def write_ioapic_register_def read_ioapic_register_def Let_def)

text \<open>The redirection entry of a line.\<close>

definition route :: "ioapic \<Rightarrow> nat \<Rightarrow> u32 \<times> u32" where
  "route s line = (ioregs s (of_nat (0x10 + 2 * line)), ioregs s (of_nat (0x11 + 2 * line)))"

text \<open>All lines masked, then the eight lines of the bus and the serial line enabled.\<close>

definition routed :: "ioapic \<Rightarrow> ioapic" where
  "routed s = ioapic_enable_irq 0 64 68 (foldl (\<lambda>s irq. ioapic_enable_irq 0 64 (of_nat irq) s)
     (foldl (\<lambda>s irq. ioapic_disable_irq 64 (of_nat (64 + irq)) s) s [0..<24]) [80..<88])"

lemma routed_entry:
  assumes "line < 24"
  shows "fst (route (routed s) line) = (if line = 4 \<or> 16 \<le> line then of_nat (64 + line) OR 0x2000 else 0x10000)"
    and "line = 4 \<or> 16 \<le> line \<Longrightarrow> snd (route (routed s) line) = 0"
proof -
  define P where "P line \<longleftrightarrow> fst (route (routed s) line) = (if line = 4 \<or> 16 \<le> line then of_nat (64 + line) OR 0x2000 else 0x10000) \<and>
      (line = 4 \<or> 16 \<le> line \<longrightarrow> snd (route (routed s) line) = 0)" for line
  have "list_all P [0..<24]" unfolding P_def by (simp add: upt_rec route_def routed_def ioregs_writes)
  then have "P line" using assms by (simp add: list_all_iff del: upt_rec_numeral)
  then show "fst (route (routed s) line) = (if line = 4 \<or> 16 \<le> line then of_nat (64 + line) OR 0x2000 else 0x10000)"
    "line = 4 \<or> 16 \<le> line \<Longrightarrow> snd (route (routed s) line) = 0" unfolding P_def by blast+
qed

lemma ioapic_init_eq:
  assumes "find_ioapic m (table + 44) (ucast (load_le m (table + 4) 4 :: u32) - 44) 0 = Some (phy, gsb)" "phy \<noteq> 0"
    "drop_bit 16 (ioregs (hw phy) 1) AND 0xff = 23"
  shows "\<exists>s. ioapic_init m table hw = Some (Inr (load_le m (table + 40) 4 AND 1 \<noteq> (0 :: u32), phy, routed s))"
proof -
  have t: "table + sizeof_SystemDescriptionTable + 8 = table + 44" "table + sizeof_SystemDescriptionTable + 4 = table + 40"
    "x - sizeof_SystemDescriptionTable - 8 = x - 44" for x by (simp_all add: sizeof_SystemDescriptionTable_def algebra_simps)
  have f: "foldl (\<lambda>s irq. ioapic_disable_irq (of_nat IOAPIC_IRQ_START) (of_nat (IOAPIC_IRQ_START + irq)) s) s [0..<IOAPIC_IRQ_COUNT] =
      foldl (\<lambda>s irq. ioapic_disable_irq 64 (of_nat (64 + irq)) s) s [0..<24]"
    "foldl (\<lambda>s irq. ioapic_enable_irq 0 (of_nat IOAPIC_IRQ_START) (of_nat irq) s) s [IOAPIC_PCI_IRQ_START..<IOAPIC_PCI_IRQ_START + IOAPIC_PCI_IRQ_COUNT] =
      foldl (\<lambda>s irq. ioapic_enable_irq 0 64 (of_nat irq) s) s [80..<88]"
    "ioapic_enable_irq 0 (of_nat IOAPIC_IRQ_START) (of_nat IOAPIC_ISA_IRQ_COM1) = ioapic_enable_irq 0 64 68" for s
    by (simp_all add: IOAPIC_IRQ_START_def IOAPIC_IRQ_COUNT_def IOAPIC_PCI_IRQ_START_def IOAPIC_PCI_IRQ_COUNT_def IOAPIC_ISA_IRQ_COM1_def del: upt_rec_numeral)
  have c: "(of_nat IOAPIC_IRQ_COUNT :: u32) = 24" by (simp add: IOAPIC_IRQ_COUNT_def)
  show ?thesis unfolding ioapic_init_def Let_def t assms(1) read_ioapic_register_def f routed_def [symmetric] c using assms(2,3) by auto
qed

text \<open>C20: with a table that lists a routing controller of 24 lines, start-up finds the first one and sets up all its lines: the lines 16 to 23, for the bus, and
  4, for the serial port, send the vector 64 plus the line to processor 0, and all others are masked.\<close>

theorem ioapic_routes:
  assumes table: "madt_at m (table + 44) es" "44 + length (concat es) < 2 ^ 32" "load_le m (table + 4) 4 = (of_nat (44 + length (concat es)) :: u32)"
    and ctl: "first_ioapic es = (phy, gsb)" "phy \<noteq> 0" "drop_bit 16 (ioregs (hw phy) 1) AND 0xff = 23"
  shows "\<exists>pic s. ioapic_init m table hw = Some (Inr (pic, phy, s)) \<and>
    (\<forall>line < 24. if line = 4 \<or> 16 \<le> line then route s line = (of_nat (64 + line) OR 0x2000, 0) else fst (route s line) = 0x10000)"
proof -
  have "unat (of_nat (44 + length (concat es)) :: u32) = 44 + length (concat es)" using table(2) by (subst unat_of_nat) simp
  then have "ucast (of_nat (44 + length (concat es)) :: u32) = (of_nat (44 + length (concat es)) :: u64)"
    by (metis of_nat_unat)
  then have "find_ioapic m (table + 44) (ucast (load_le m (table + 4) 4 :: u32) - 44) 0 = Some (phy, gsb)"
    using find_ioapic_first [of m "table + 44" 0 es] table(1,2) ctl(1) unfolding table(3) by simp
  from ioapic_init_eq [of m table phy gsb hw, OF this ctl(2,3)] obtain s where
    s: "ioapic_init m table hw = Some (Inr (load_le m (table + 40) 4 AND 1 \<noteq> (0 :: u32), phy, routed s))" by blast
  have "if line = 4 \<or> 16 \<le> line then route (routed s) line = (of_nat (64 + line) OR 0x2000, 0) else fst (route (routed s) line) = 0x10000" if "line < 24" for line
    using routed_entry [OF that, of s] by (auto simp: prod_eq_iff)
  then show ?thesis using s by blast
qed

text \<open>C32: the search for the controller returns on every table whose entries have their length, and finds its first entry of the right type.  An entry of length 0 makes the search
  stay there for ever.\<close>

theorem ioapic_search_terminates:
  "(madt_at m p es \<and> length (concat es) < 2 ^ 64 \<longrightarrow> find_ioapic m p (of_nat (length (concat es))) 0 = Some (first_ioapic es)) \<and>
   (off < left \<and> m (p + off) \<noteq> 1 \<and> m (p + off + 1) = 0 \<longrightarrow> find_ioapic m p left off = None)"
  using find_ioapic_first [of m p 0 es] find_ioapic_stuck [of m p left off] by (auto simp: not_Some_eq [symmetric] simp del: not_Some_eq)

section \<open>The timer\<close>

lemmas apic_consts = APIC_TASKPRIOR_def APIC_LDR_def APIC_DFR_def APIC_SPURIOUS_def APIC_LVT_TMR_def APIC_LVT_PERF_def APIC_LVT_LINT0_def APIC_LVT_LINT1_def
  APIC_TMRINITCNT_def APIC_TMRDIV_def APIC_DISABLE_def APIC_SW_ENABLE_def APIC_NMI_def TMR_PERIODIC_def IRQ_TIMER_def IRQ_SPURIOUS_def

lemma lapic_base:
  "(m AND 0xfffffffff000) + KERNEL_START < IDENTITY_MAP_END \<longleftrightarrow> m AND 0xfffffffff000 < 0x100000000 \<or> 0x800000000000 \<le> m AND 0xfffffffff000" for m :: u64
proof -
  let ?b = "m AND 0xfffffffff000"
  have le: "?b \<le> 0xfffffffff000" by (rule word_and_le1)
  have c: "unat KERNEL_START = 2 ^ 64 - 2 ^ 47" "unat IDENTITY_MAP_END = 2 ^ 64 - 2 ^ 47 + 2 ^ 32"
    by (simp_all add: IDENTITY_MAP_END_def IDENTITY_MAP_START_def IDENTITY_MAP_SIZE_def KERNEL_START_def)
  show ?thesis
  proof (cases "0x800000000000 \<le> ?b")
    case True
    then have "unat (?b + KERNEL_START) = unat ?b - 2 ^ 47"
      using le c(1) by (simp add: unat_word_ariths word_le_nat_alt mod_if)
    then show ?thesis using True le c by (simp add: word_less_nat_alt word_le_nat_alt)
  next
    case False
    then have "unat (?b + KERNEL_START) = unat ?b + (2 ^ 64 - 2 ^ 47)"
      using c(1) by (simp add: unat_word_ariths word_le_nat_alt)
    then show ?thesis using False c by (simp add: word_less_nat_alt word_le_nat_alt)
  qed
qed

lemma lapic_init_returns:
  assumes "vec_size (ints 32) < slots_N (ints 32)" "base_msr a AND 0xfffffffff000 < 0x100000000 \<or> 0x800000000000 \<le> base_msr a AND 0xfffffffff000"
  shows "\<exists>v. lapic_init count_left ack ints a = Inr (setup_timer count_left (a\<lparr>apic_base := (base_msr a AND 0xfffffffff000) + KERNEL_START\<rparr>), ints(32 := v)) \<and>
    sv_list v = sv_list (ints 32) @ [timer_handler ack]"
proof -
  obtain v where "Register ints 32 (timer_handler ack) = Inr (ints(32 := v))" "sv_list v = sv_list (ints 32) @ [timer_handler ack]"
    using Register_ok [of 32 ints "timer_handler ack"] assms(1) by auto
  then show ?thesis using assms(2) lapic_base [of "base_msr a"] by (auto simp: lapic_init_def apic_new_def IRQ_TIMER_def Let_def)
qed

text \<open>Start-up of the processor's controller stops the kernel exactly if its registers lie between 4 GiB and \<open>2 ^ 47\<close>; above that the sum with the start of kernel space
  wraps and passes.  Otherwise it enables the controller, with both external lines masked and no interrupt held back, and leaves the timer running periodically on its
  vector, with the number of ticks that passed during the delay as the period; the timer's handler is registered after those that were there.\<close>

theorem lapic_timer:
  assumes ints: "vec_size (ints 32) < slots_N (ints 32)"
  shows "if base_msr a AND 0xfffffffff000 < 0x100000000 \<or> 0x800000000000 \<le> base_msr a AND 0xfffffffff000
    then \<exists>a' ints'. lapic_init count_left ack ints a = Inr (a', ints') \<and> apic_base a' = (base_msr a AND 0xfffffffff000) + KERNEL_START \<and>
      base_msr a' = base_msr a OR 0x800 \<and> apic_regs a' APIC_SPURIOUS = 0x125 \<and> apic_regs a' APIC_LVT_TMR = 0x20020 \<and> apic_regs a' APIC_TMRDIV = 3 \<and>
      apic_regs a' APIC_TMRINITCNT = 0xffffffff - count_left \<and> apic_regs a' APIC_TASKPRIOR = 0 \<and>
      apic_regs a' APIC_LVT_LINT0 = 0x10000 \<and> apic_regs a' APIC_LVT_LINT1 = 0x10000 \<and>
      sv_list (ints' 32) = sv_list (ints 32) @ [timer_handler ack] \<and> (\<forall>n. n \<noteq> 32 \<longrightarrow> ints' n = ints n)
    else lapic_init count_left ack ints a = Inl (Panic ''APIC base must be below IDENTITY_MAP_END'')"
proof (cases "base_msr a AND 0xfffffffff000 < 0x100000000 \<or> 0x800000000000 \<le> base_msr a AND 0xfffffffff000")
  case True
  have t: "setup_timer count_left x = y \<Longrightarrow> apic_base y = apic_base x \<and> base_msr y = base_msr x OR 0x800 \<and> apic_regs y APIC_SPURIOUS = 0x125 \<and>
      apic_regs y APIC_LVT_TMR = 0x20020 \<and> apic_regs y APIC_TMRDIV = 3 \<and> apic_regs y APIC_TMRINITCNT = 0xffffffff - count_left \<and>
      apic_regs y APIC_TASKPRIOR = 0 \<and> apic_regs y APIC_LVT_LINT0 = 0x10000 \<and> apic_regs y APIC_LVT_LINT1 = 0x10000" for x y
    by (auto simp: setup_timer_def apic_write_def Let_def apic_consts)
  show ?thesis
    using t [OF refl, of "a\<lparr>apic_base := (base_msr a AND 0xfffffffff000) + KERNEL_START\<rparr>"]
      lapic_init_returns [where ints = ints and count_left = count_left and ack = ack, OF ints True] True by auto
next
  case False
  then show ?thesis using lapic_base [of "base_msr a"] by (simp add: lapic_init_def apic_new_def Let_def)
qed

section \<open>Witnesses\<close>

definition sample_madt :: mem where
  "sample_madt a = (if a = 0x1004 then 56 else if a = 0x102c then 1 else if a = 0x102d then 12 else if a = 0x1032 then 0xc0 else if a = 0x1033 then 0xfe else 0)"

definition sample_entries :: "u8 list list" where
  "sample_entries = [[1, 12, 0, 0, 0, 0, 0xc0, 0xfe, 0, 0, 0, 0]]"

lemma sample_madt_at: "madt_at sample_madt 0x102c sample_entries"
proof -
  have "list_all (\<lambda>k. sample_madt (0x102c + of_nat k) = concat sample_entries ! k) [0..<12]"
    by (simp add: sample_madt_def sample_entries_def upt_rec)
  then have "\<forall>k < 12. sample_madt (0x102c + of_nat k) = concat sample_entries ! k" by (simp add: list_all_iff del: upt_rec_numeral)
  then show ?thesis by (simp add: madt_at_def) (simp add: sample_entries_def madt_entry_ok_def)
qed

lemma sample_first: "first_ioapic sample_entries = (0xfec00000, 0)"
  by (simp add: sample_entries_def load_le_def bytes_mem_def upt_rec)

theorem ioapic_routes_witness:
  "\<exists>pic s. ioapic_init sample_madt 0x1000 (\<lambda>_. \<lparr>ioregsel = 0, ioregs = (\<lambda>_. 0x170011)\<rparr>) = Some (Inr (pic, 0xfec00000, s)) \<and>
     route s 4 = (0x2044, 0) \<and> route s 17 = (0x2051, 0) \<and> fst (route s 1) = 0x10000"
proof -
  have l: "length (concat sample_entries) = 12" by (simp add: sample_entries_def)
  have "load_le sample_madt (0x1000 + 4) 4 = (of_nat (44 + length (concat sample_entries)) :: u32)"
    unfolding l by (simp add: load_le_def sample_madt_def upt_rec)
  from ioapic_routes [OF _ _ this sample_first, of "\<lambda>_. \<lparr>ioregsel = 0, ioregs = (\<lambda>_. 0x170011)\<rparr>"] sample_madt_at
  obtain pic s where s: "ioapic_init sample_madt 0x1000 (\<lambda>_. \<lparr>ioregsel = 0, ioregs = (\<lambda>_. 0x170011)\<rparr>) = Some (Inr (pic, 0xfec00000, s))"
    "\<And>line. line < 24 \<Longrightarrow> if line = 4 \<or> 16 \<le> line then route s line = (of_nat (64 + line) OR 0x2000, 0) else fst (route s line) = 0x10000"
    by (auto simp: l)
  show ?thesis using s(1) s(2) [of 4] s(2) [of 17] s(2) [of 1] by auto
qed

theorem ioapic_search_terminates_witness:
  "find_ioapic sample_madt 0x102c 12 0 = Some (0xfec00000, 0) \<and> find_ioapic (\<lambda>_. 0) 0 8 0 = None"
proof -
  have "length (concat sample_entries) = 12" by (simp add: sample_entries_def)
  then show ?thesis
    using ioapic_search_terminates [of sample_madt "0x102c" sample_entries 0 0] ioapic_search_terminates [of "\<lambda>_. 0" 0 "[]" 0 8] sample_madt_at sample_first by simp
qed

theorem lapic_timer_witness:
  "\<exists>a' ints'. lapic_init 0xfffff000 (\<lambda>s :: nat. s + 1) no_interrupts \<lparr>apic_base = 0, apic_regs = (\<lambda>_. 0), base_msr = 0xfee00900\<rparr> = Inr (a', ints') \<and>
     apic_regs a' APIC_TMRINITCNT = 0xfff \<and> sv_list (ints' 32) = [timer_handler (\<lambda>s. s + 1)]"
proof -
  have "vec_size (no_interrupts 32 :: (nat handler) SmallVec) < slots_N (no_interrupts 32 :: (nat handler) SmallVec)"
    by (simp add: no_interrupts_def sv_new_def MaxHandlersPerInterrupt_def)
  from lapic_timer [where ints = no_interrupts, OF this, of "\<lparr>apic_base = 0, apic_regs = (\<lambda>_. 0), base_msr = 0xfee00900\<rparr>" "0xfffff000" "\<lambda>s. s + 1"]
  show ?thesis by (auto simp: no_interrupts_def sv_list_new)
qed

end
