(* ===== verification/Acpi.thy ===== *)
theory Acpi
  imports Apic
begin

text \<open>
  The tables of the firmware, \<^verbatim>\<open>device/efi.cpp\<close>: the search for the table of interrupt controllers and that of the bus, and what is started with them.
\<close>

section \<open>The search\<close>

definition ACPI_TABLE_SIGNATURE_PCIE_CONFIG :: "u8 list" where "ACPI_TABLE_SIGNATURE_PCIE_CONFIG = [0x4d, 0x43, 0x46, 0x47]"
definition ACPI_TABLE_SIGNATURE_APIC :: "u8 list" where "ACPI_TABLE_SIGNATURE_APIC = [0x41, 0x50, 0x49, 0x43]"
definition xsdt_signature :: "u8 list" where "xsdt_signature = [0x58, 0x53, 0x44, 0x54]"

definition signature :: "mem \<Rightarrow> u64 \<Rightarrow> u8 list" where
  "signature m sdt = bytes_at m sdt 0 4"

definition sdt_length :: "mem \<Rightarrow> u64 \<Rightarrow> u64" where
  "sdt_length m sdt = ucast (load_le m (sdt + 4) 4 :: u32)"

text \<open>One round of the loop over the entries; the last table with a signature is the one that is kept.\<close>

definition look_at :: "mem \<Rightarrow> u64 option \<times> u64 option \<Rightarrow> u64 \<Rightarrow> u64 option \<times> u64 option" where
  "look_at m found phy =
     (case found of (pcie_sdt, apic_sdt) \<Rightarrow>
        if phy < IDENTITY_MAP_PHY_END
        then let sdt = phy + KERNEL_START in
             if signature m sdt = ACPI_TABLE_SIGNATURE_PCIE_CONFIG then (Some sdt, apic_sdt)
             else if signature m sdt = ACPI_TABLE_SIGNATURE_APIC then (pcie_sdt, Some sdt)
             else (pcie_sdt, apic_sdt)
        else (pcie_sdt, apic_sdt))"

definition tables_phy :: "mem \<Rightarrow> u64 \<Rightarrow> u64 list" where
  "tables_phy m xsdt =
     map (\<lambda>i. load_le m (xsdt + sizeof_SystemDescriptionTable + of_nat (8 * i)) 8)
       [0..<unat ((sdt_length m xsdt - sizeof_SystemDescriptionTable) div 8)]"

text \<open>The groups of buses; they start eight bytes into the table's data.\<close>

definition read_group :: "mem \<Rightarrow> u64 \<Rightarrow> ECMGroup" where
  "read_group m p = \<lparr>group_base = load_le m p 8, segment_group = load_le m (p + 8) 2, bus_start = m (p + 10), bus_end = m (p + 11)\<rparr>"

definition segment_groups :: "mem \<Rightarrow> u64 \<Rightarrow> ECMGroup list" where
  "segment_groups m pcie_sdt =
     map (\<lambda>i. read_group m (pcie_sdt + sizeof_SystemDescriptionTable + 8 + of_nat (16 * i)))
       [0..<unat ((sdt_length m pcie_sdt - sizeof_SystemDescriptionTable) div 16)]"

section \<open>Starting the controllers and the bus\<close>

definition efi_table_init :: "mem \<Rightarrow> u64 \<Rightarrow> (u32 \<Rightarrow> ioapic) \<Rightarrow> ('s, 'd) bus_env \<Rightarrow> ('d \<Rightarrow> nat \<Rightarrow> 's \<Rightarrow> (bool \<times> 's) res) \<Rightarrow> ('s \<Rightarrow> 's) \<Rightarrow>
    'd PCIBusDriver \<Rightarrow> 's interrupts \<Rightarrow> 's \<Rightarrow> (ioapic \<times> 'd PCIBusDriver \<times> 's interrupts \<times> 's) res option" where
  "efi_table_init m xsdt_phy hw env irq ack b ints s =
     (if xsdt_phy = 0 then Some (Inl (Panic []))
      else if \<not> xsdt_phy < IDENTITY_MAP_PHY_END then Some (Inl (Panic ''XSDT out of range''))
      else let xsdt = xsdt_phy + KERNEL_START in
      if signature m xsdt \<noteq> xsdt_signature then Some (Inl (Panic ''Invalid root xsdt, signature not match''))
      else let (pcie_sdt, apic_sdt) = foldl (look_at m) (None, None) (tables_phy m xsdt) in
      case apic_sdt of
        None \<Rightarrow> Some (Inl (Panic ''Cannot find APIC SDT''))
      | Some apic \<Rightarrow>
          (case ioapic_init m apic hw of
             None \<Rightarrow> None
           | Some (Inl e) \<Rightarrow> Some (Inl e)
           | Some (Inr (_, _, io)) \<Rightarrow>
               (case pcie_sdt of
                  None \<Rightarrow> Some (Inl (Panic ''Cannot find PCIE Config SDT''))
                | Some pcie \<Rightarrow>
                    map_option (\<lambda>r. bindR r (\<lambda>(b', ints', s'). Inr (io, b', ints', s'))) (PCI_Enumerate env irq ack (segment_groups m pcie) b ints s))))"

section \<open>What is found\<close>

text \<open>The tables of a kind that the kernel can reach, in the order of the root table.\<close>

definition reachable_tables :: "mem \<Rightarrow> u8 list \<Rightarrow> u64 list \<Rightarrow> u64 list" where
  "reachable_tables m sig phys = map (\<lambda>p. p + KERNEL_START) (filter (\<lambda>p. p < IDENTITY_MAP_PHY_END \<and> signature m (p + KERNEL_START) = sig) phys)"

definition last_of :: "'a list \<Rightarrow> 'a option" where
  "last_of xs = (if xs = [] then None else Some (last xs))"

lemma look_at_last:
  "foldl (look_at m) (p, a) phys =
     (if reachable_tables m ACPI_TABLE_SIGNATURE_PCIE_CONFIG phys = [] then p else last_of (reachable_tables m ACPI_TABLE_SIGNATURE_PCIE_CONFIG phys),
      if reachable_tables m ACPI_TABLE_SIGNATURE_APIC phys = [] then a else last_of (reachable_tables m ACPI_TABLE_SIGNATURE_APIC phys))"
  by (induction phys arbitrary: p a)
    (auto simp: look_at_def reachable_tables_def last_of_def Let_def ACPI_TABLE_SIGNATURE_PCIE_CONFIG_def ACPI_TABLE_SIGNATURE_APIC_def)


end
