(* ===== verification/Drivers.thy ===== *)
theory Drivers
  imports Rtl8139 Gpt Acpi
begin

text \<open>
  The drivers on the bus: the start of the network card (\<^verbatim>\<open>RTL8139Driver::Enumerate\<close>), and the state of the machine that the drivers and the interrupt handlers share.  The locale
  \<open>device_drivers\<close> is what the bus relies on (\<^verbatim>\<open>PCIDeviceDriver\<close> in \<^verbatim>\<open>include/device/pci.h\<close>); it is interpreted on the kernel's two drivers.
\<close>

section \<open>The machine\<close>

record machine =
  m_disk :: disk_state
  m_out :: "char list"
  m_nic :: "Rtl8139Device option"
  m_sata :: "u64 list"
  m_acks :: nat

abbreviation m_kern :: "machine \<Rightarrow> kstate" where
  "m_kern s \<equiv> kern (m_disk s)"

definition set_kern :: "machine \<Rightarrow> kstate \<Rightarrow> machine" where
  "set_kern s k = s\<lparr>m_disk := (m_disk s)\<lparr>kern := k\<rparr>\<rparr>"

text \<open>
  What the hardware and the linker provide: the disk controller; of the network card the contents of new buffers and packets, the address before and after its reset, its
  status and command registers and what its interrupt register returns; the contents of a new process object, the address of the kernel's page table and of the functions that start
  threads.  \<open>objects\<close> is the number of blocks that the objects of the card's drivers take; each of them is smaller than the least block.
\<close>

record hardware =
  hba :: HBA
  nic_ring :: "nat \<Rightarrow> u8"
  nic_buffers :: "nat \<Rightarrow> nat \<Rightarrow> u8"
  nic_packets :: "nat \<Rightarrow> KEthernetPacket"
  nic_arp_packet :: ArpPacket
  nic_mac0 :: EthernetAddress
  nic_mac :: EthernetAddress
  nic_status :: "nat \<Rightarrow> u32"
  nic_cmd :: "nat \<Rightarrow> u8"
  nic_isr :: "machine \<Rightarrow> nat \<Rightarrow> u16"
  objects :: nat
  raw_process :: Process
  kernel_pdpt :: u64
  thread_entry :: u64
  arp_start :: u64
  nic_start :: u64
  disk_thread :: u64
  driver_this :: u64

definition new_kthread :: "hardware \<Rightarrow> string \<Rightarrow> u64 \<Rightarrow> kstate \<Rightarrow> kstate res" where
  "new_kthread hw name start k =
     bindR (create_kthread (raw_process hw) (kernel_pdpt hw) (thread_entry hw) k name start (driver_this hw)) (\<lambda>(_, k'). Inr k')"

fun new_objects :: "nat \<Rightarrow> BuddyAllocator \<Rightarrow> BuddyAllocator res" where
  "new_objects 0 a = Inr a"
| "new_objects (Suc n) a = bindR (kernel_page_alloc a Log2MinSize) (\<lambda>(_, a'). new_objects n a')"

section \<open>The start of the network card\<close>

definition first_memory_bar :: "PCIBar list \<Rightarrow> PCIBar option" where
  "first_memory_bar = find (\<lambda>b. \<not> is_io b)"

text \<open>The objects and buffers, and the thread of the address resolution.\<close>

definition rtl_allocate :: "hardware \<Rightarrow> kstate \<Rightarrow> (u64 \<times> u64 \<times> kstate) res" where
  "rtl_allocate hw k =
     bindR (new_objects (objects hw) (allocator k)) (\<lambda>a.
     bindR (kernel_page_alloc a 16) (\<lambda>(rx, a).
     bindR (kernel_page_alloc a 16) (\<lambda>(tx, a).
     bindR (new_kthread hw ''arp'' (arp_start hw) (k\<lparr>allocator := a\<rparr>)) (\<lambda>k. Inr (rx, tx, k)))))"

text \<open>The address resolution is given the address of the card before the reset reads it from the card; later it asks for the address anew.\<close>

definition rtl_device :: "hardware \<Rightarrow> u64 \<Rightarrow> u64 \<Rightarrow> (Rtl8139Device \<times> (nat \<times> u32) list) option" where
  "rtl_device hw rx tx =
     (let dev = rtl_new (nic_ring hw) (nic_buffers hw) (nic_packets hw) (nic_mac0 hw) (nic_status hw);
          a = SetIPDriver \<lparr>eth_address = mac dev, ip_driver = False, eth2ip = [], ip2eth = [], tmp_pkt = nic_arp_packet hw,
                arp_queue = ssq_new (replicate 4 (nic_arp_packet hw))\<rparr>
      in map_option (\<lambda>(dev', ws). (dev'\<lparr>arp := Some (a\<lparr>eth_address := mac dev'\<rparr>)\<rparr>, ws))
           (reset (nic_cmd hw) (nic_mac hw) (ucast (rx - KERNEL_START)) (\<lambda>i. ucast (tx - KERNEL_START) + 4096 * of_nat i)
              (dev\<lparr>arp := Some a, ipv4 := True\<rparr>)))"

definition rtl_Enumerate :: "hardware \<Rightarrow> PCIDeviceInfo \<Rightarrow> machine \<Rightarrow> (bool \<times> machine) res option" where
  "rtl_Enumerate hw info s =
     (case first_memory_bar (info_bars info) of
        None \<Rightarrow> Some (Inl (Panic ''found''))
      | Some b \<Rightarrow>
          (case bindR (phy2virt (bar_start b)) (\<lambda>_. rtl_allocate hw (m_kern s)) of
             Inl e \<Rightarrow> Some (Inl e)
           | Inr (rx, tx, k) \<Rightarrow>
               map_option (\<lambda>(dev, _). bindR (new_kthread hw ''rtl8139'' (nic_start hw) k) (\<lambda>k'.
                 Inr (True, (set_kern s k')\<lparr>m_nic := Some dev\<rparr>))) (rtl_device hw rx tx)))"

section \<open>The drivers of the bus\<close>

definition driver_probe :: "hardware \<Rightarrow> pci_driver \<Rightarrow> PCIDeviceInfo \<Rightarrow> machine \<Rightarrow> (bool \<times> machine) res option" where
  "driver_probe hw d info s =
     (case d of
        RTL8139Driver \<Rightarrow> rtl_Enumerate hw info s
      | _ \<Rightarrow> map_option (\<lambda>r. bindR r (\<lambda>(ok, _, ds, t). Inr (ok, s\<lparr>m_disk := t, m_sata := ds\<rparr>)))
               (ahci_Enumerate (raw_process hw) (kernel_pdpt hw) (thread_entry hw) (hba hw) (disk_thread hw) (driver_this hw) (m_disk s)))"

text \<open>The disk driver claims no interrupt.  That of the network card acknowledges its own, and the bus does so once more.\<close>

definition driver_irq :: "hardware \<Rightarrow> pci_driver \<Rightarrow> nat \<Rightarrow> machine \<Rightarrow> (bool \<times> machine) res" where
  "driver_irq hw d n s =
     (case d of
        RTL8139Driver \<Rightarrow>
          (case m_nic s of
             None \<Rightarrow> Inl (Undefined ''dev'')
           | Some dev \<Rightarrow> bindR (rtl_HandleInterrupt (nic_isr hw s) dev) (\<lambda>(handled, dev', acked).
               Inr (handled, s\<lparr>m_nic := Some dev', m_acks := m_acks s + (if acked then 1 else 0)\<rparr>)))
      | _ \<Rightarrow> Inr (False, s))"

definition lapic_eoi :: "machine \<Rightarrow> machine" where
  "lapic_eoi s = s\<lparr>m_acks := m_acks s + 1\<rparr>"

section \<open>The contract of the drivers\<close>

text \<open>\<open>inv n s\<close>: the machine is sound in state \<open>s\<close> and has room for \<open>n\<close> more devices.  \<open>offers d i\<close>: the device is one that driver \<open>d\<close> can start.\<close>

locale device_drivers =
  fixes prb :: "'d \<Rightarrow> PCIDeviceInfo \<Rightarrow> 's \<Rightarrow> (bool \<times> 's) res option"
    and intr :: "'d \<Rightarrow> nat \<Rightarrow> 's \<Rightarrow> (bool \<times> 's) res"
    and inv :: "nat \<Rightarrow> 's \<Rightarrow> bool"
    and offers :: "'d \<Rightarrow> PCIDeviceInfo \<Rightarrow> bool"
  assumes probe_ok: "inv (Suc n) s \<Longrightarrow> offers d i \<Longrightarrow> \<exists>ok s'. prb d i s = Some (Inr (ok, s')) \<and> inv n s'"
    and intr_keeps: "inv n s \<Longrightarrow> intr d k s = Inr (h, s') \<Longrightarrow> inv n s'"
begin

lemma for_each_probe:
  assumes "probe env = prb" "\<And>a d. a \<in> set addrs \<Longrightarrow> drivers b (vendor (cs env a), device_id (cs env a)) = Some d \<Longrightarrow> offers d (info_at env a)"
  shows "inv (length (matches env (drivers b) addrs) + k) s \<Longrightarrow> \<forall>a \<in> set addrs. present env a \<Longrightarrow>
    \<exists>ds s'. for_each (enumerate_function env) addrs (b, s) = Some (Inr (b\<lparr>active_drivers := active_drivers b @ ds\<rparr>, s')) \<and> inv k s' \<and>
      set ds \<subseteq> fst ` set (matches env (drivers b) addrs)"
  using assms(2)
proof (induction addrs arbitrary: b s)
  case (Cons a addrs)
  let ?id = "(vendor (cs env a), device_id (cs env a))"
  have p: "vendor (cs env a) \<noteq> PCI_INVALID_VENDOR" using Cons.prems(2) by (simp add: present_def)
  show ?case
  proof (cases "drivers b ?id")
    case None
    then have m: "matches env (drivers b) (a # addrs) = matches env (drivers b) addrs" by (simp add: matches_def)
    have "enumerate_function env a (b, s) = Some (Inr (b, s))" using None p by (simp add: enumerate_function_def)
    then show ?thesis using Cons.IH [of b s] Cons.prems unfolding m by simp
  next
    case (Some d)
    then have m: "matches env (drivers b) (a # addrs) = (d, info_at env a) # matches env (drivers b) addrs" by (simp add: matches_def)
    obtain ok s' where s': "prb d (info_at env a) s = Some (Inr (ok, s'))" "inv (length (matches env (drivers b) addrs) + k) s'"
      using probe_ok [of "length (matches env (drivers b) addrs) + k" s d "info_at env a"] Cons.prems(1,3) Some unfolding m by auto
    let ?b = "if ok then b\<lparr>active_drivers := active_drivers b @ [d]\<rparr> else b"
    have e: "enumerate_function env a (b, s) = Some (Inr (?b, s'))"
      using Some p s'(1) assms(1) by (simp add: enumerate_function_def info_at_def)
    have b: "drivers ?b = drivers b" by simp
    obtain ds s'' where r: "for_each (enumerate_function env) addrs (?b, s') = Some (Inr (?b\<lparr>active_drivers := active_drivers ?b @ ds\<rparr>, s''))" "inv k s''"
      "set ds \<subseteq> fst ` set (matches env (drivers b) addrs)" using Cons.IH [of ?b s'] s'(2) Cons.prems(2,3) unfolding b by auto
    show ?thesis using e r m by (intro exI [of _ "(if ok then [d] else []) @ ds"] exI [of _ s'']) auto
  qed
qed (auto simp: matches_def intro!: exI [of _ "[]"])

lemma ask_keeps: "inv n s \<Longrightarrow> ask_drivers intr ds k s = Inr s' \<Longrightarrow> inv n s'"
  by (induction ds arbitrary: s) (auto simp: outcome dest: intr_keeps split: if_splits)

lemma handler_keeps:
  assumes "\<And>n s. inv n s \<Longrightarrow> inv n (ack s)" "inv n s" "pci_handler intr ack ds info s = Inr (Some s')"
  shows "inv n s'"
  using assms ask_keeps by (auto simp: pci_handler_def outcome)

end

section \<open>The kernel's drivers keep the contract\<close>

definition machine_ok :: "nat \<Rightarrow> machine \<Rightarrow> bool" where
  "machine_ok n s \<longleftrightarrow> kernel_ok (m_kern s) \<and> next_pid (m_kern s) + 2 * n \<le> MAX_PROCESS \<and> (\<forall>d. m_nic s = Some d \<longrightarrow> rtl_ok d)"

text \<open>Hardware that works: the ports of the disk controller complete their commands, its interrupts are off, and the network card finishes its reset.\<close>

definition hardware_ok :: "hardware \<Rightarrow> bool" where
  "hardware_ok hw \<longleftrightarrow> controller_ok (hba hw) \<and> (\<exists>ws. ghc_enable (ghc (hba hw)) = Inr ws) \<and> (\<exists>t. nic_cmd hw t AND 0x10 = 0)"

definition offered :: "hardware \<Rightarrow> pci_driver \<Rightarrow> PCIDeviceInfo \<Rightarrow> bool" where
  "offered hw d i \<longleftrightarrow> hardware_ok hw \<and> (d = RTL8139Driver \<longrightarrow> (\<exists>b. first_memory_bar (info_bars i) = Some b \<and> bar_start b < 0x100000000))"

lemma kernel_ok_allocator: "kernel_ok k \<Longrightarrow> frames_ok a \<Longrightarrow> kernel_ok (k\<lparr>allocator := a\<rparr>)"
  by (simp add: kernel_ok_def table_ok_def current_ok_def)

lemma new_objects_ok: "frames_ok a \<Longrightarrow> \<exists>a'. new_objects n a = Inr a' \<and> frames_ok a'"
proof (induction n arbitrary: a)
  case (Suc n)
  obtain x a1 where "kernel_page_alloc a Log2MinSize = Inr (KERNEL_START + x, a1)" "frames_ok a1"
    using kernel_page_alloc_frame [OF Suc.prems, of Log2MinSize] by (auto simp: Log2MinSize_def)
  then show ?case using Suc.IH by simp
qed simp

lemma new_kthread_ok:
  assumes "kernel_ok k" "next_pid k < MAX_PROCESS"
  shows "\<exists>k'. new_kthread hw name start k = Inr k' \<and> kernel_ok k' \<and> next_pid k' = next_pid k + 1 \<and> current_pid k' = current_pid k"
  using create_kthread_ok [OF assms, of "raw_process hw" "kernel_pdpt hw" "thread_entry hw" name start "driver_this hw"] by (auto simp: new_kthread_def)

lemma rtl_allocate_ok:
  assumes "kernel_ok k" "next_pid k < MAX_PROCESS"
  shows "\<exists>rx tx k'. rtl_allocate hw k = Inr (rx, tx, k') \<and> kernel_ok k' \<and> next_pid k' = next_pid k + 1 \<and> current_pid k' = current_pid k"
proof -
  have "frames_ok (allocator k)" using assms(1) by (simp add: kernel_ok_def)
  then obtain a where a: "new_objects (objects hw) (allocator k) = Inr a" "frames_ok a" using new_objects_ok by blast
  obtain x1 a1 where 1: "kernel_page_alloc a 16 = Inr (KERNEL_START + x1, a1)" "frames_ok a1" using kernel_page_alloc_frame [OF a(2), of 16] by auto
  obtain x2 a2 where 2: "kernel_page_alloc a1 16 = Inr (KERNEL_START + x2, a2)" "frames_ok a2" using kernel_page_alloc_frame [OF 1(2), of 16] by auto
  show ?thesis using new_kthread_ok [OF kernel_ok_allocator [OF assms(1) 2(2)], of hw "''arp''" "arp_start hw"] assms(2) a 1 2
    by (auto simp: rtl_allocate_def)
qed

lemma rtl_device_ok:
  assumes "nic_cmd hw t AND 0x10 = 0"
  shows "\<exists>dev ws a. rtl_device hw rx tx = Some (dev, ws) \<and> rtl_ok dev \<and> mac dev = nic_mac hw \<and> arp dev = Some a \<and> eth_address a = nic_mac hw \<and>
    ip_driver a \<and> eth2ip a = [(nic_mac0 hw, ip_address)] \<and> ip2eth a = [(ip_address, nic_mac0 hw)]"
proof -
  obtain t' where "wait_until (\<lambda>t. nic_cmd hw t AND 0x10 = 0) 0 = Some t'" using wait_until_returns [of "\<lambda>t. nic_cmd hw t AND 0x10 = 0" 0 t] assms by auto
  then show ?thesis
    by (simp add: rtl_device_def reset_def Let_def SetIPDriver_def arp_put_def rtl_new_def rtl_ok_def ring_ok_def ssq_ok_def ssq_new_def init_tx_queue_def TxQueueSize_def)
qed

lemma rtl_Enumerate_ok:
  assumes "machine_ok (Suc n) s" "hardware_ok hw" "first_memory_bar (info_bars i) = Some b" "bar_start b < 0x100000000"
  shows "\<exists>s' d a. rtl_Enumerate hw i s = Some (Inr (True, s')) \<and> machine_ok n s' \<and> m_nic s' = Some d \<and> mac d = nic_mac hw \<and> arp d = Some a \<and>
    eth_address a = nic_mac hw \<and> eth2ip a = [(nic_mac0 hw, ip_address)] \<and> ip2eth a = [(ip_address, nic_mac0 hw)] \<and>
    next_pid (m_kern s') = next_pid (m_kern s) + 2 \<and> current_pid (m_kern s') = current_pid (m_kern s)"
proof -
  have k: "kernel_ok (m_kern s)" "next_pid (m_kern s) < MAX_PROCESS" "next_pid (m_kern s) + 1 < MAX_PROCESS"
    "next_pid (m_kern s) + 2 + 2 * n \<le> MAX_PROCESS" using assms(1) by (simp_all add: machine_ok_def)
  obtain rx tx k1 where 1: "rtl_allocate hw (m_kern s) = Inr (rx, tx, k1)" "kernel_ok k1" "next_pid k1 = next_pid (m_kern s) + 1" "current_pid k1 = current_pid (m_kern s)"
    using rtl_allocate_ok [OF k(1,2)] by blast
  obtain k2 where 2: "new_kthread hw ''rtl8139'' (nic_start hw) k1 = Inr k2" "kernel_ok k2" "next_pid k2 = next_pid k1 + 1" "current_pid k2 = current_pid k1"
    using new_kthread_ok [OF 1(2), of hw "''rtl8139''" "nic_start hw"] 1(3) k(3) by auto
  obtain t where "nic_cmd hw t AND 0x10 = 0" using assms(2) by (auto simp: hardware_ok_def)
  then obtain dev ws a where d: "rtl_device hw rx tx = Some (dev, ws)" "rtl_ok dev" "mac dev = nic_mac hw" "arp dev = Some a" "eth_address a = nic_mac hw"
    "eth2ip a = [(nic_mac0 hw, ip_address)]" "ip2eth a = [(ip_address, nic_mac0 hw)]" using rtl_device_ok by blast
  have pv: "phy2virt (bar_start b) = Inr (bar_start b + KERNEL_START)" using assms(4) by (simp add: phy2virt_def)
  let ?s = "(set_kern s k2)\<lparr>m_nic := Some dev\<rparr>"
  have "rtl_Enumerate hw i s = Some (Inr (True, ?s))" unfolding rtl_Enumerate_def assms(3) using pv 1(1) 2(1) d(1) by simp
  then show ?thesis using 1 2 d k(4) by (intro exI [of _ ?s] exI [of _ dev] exI [of _ a]) (simp add: machine_ok_def set_kern_def)
qed

lemma ahci_probe_ok:
  assumes "machine_ok (Suc n) s" "hardware_ok hw" "d \<noteq> RTL8139Driver"
  shows "\<exists>s'. driver_probe hw d i s = Some (Inr (True, s')) \<and> machine_ok n s' \<and> m_nic s' = m_nic s \<and> next_pid (m_kern s') = next_pid (m_kern s) + 1 \<and>
    current_pid (m_kern s') = current_pid (m_kern s)"
proof -
  obtain ws where g: "ghc_enable (ghc (hba hw)) = Inr ws" and c: "controller_ok (hba hw)" using assms(2) by (auto simp: hardware_ok_def)
  have k: "kernel_ok (m_kern s)" "next_pid (m_kern s) < MAX_PROCESS" "next_pid (m_kern s) + 2 + 2 * n \<le> MAX_PROCESS" using assms(1) by (simp_all add: machine_ok_def)
  have "frames_ok (allocator (m_kern s))" using k(1) by (simp add: kernel_ok_def)
  then obtain t a where t: "init_ports (hba hw) (ucast ahci_phy + KERNEL_START) [0..<32] (m_disk s) = Some (Inr (map (\<lambda>i. port_register (ucast ahci_phy + KERNEL_START) (of_nat i))
      (filter (disk_attached (hba hw) (ucast ahci_phy + KERNEL_START)) [0..<32]), t))" "kern t = (m_kern s)\<lparr>allocator := a\<rparr>" "frames_ok (allocator (kern t))"
    using init_ports_ok [OF c, of "m_disk s" "ucast ahci_phy + KERNEL_START" "[0..<32]"] by blast
  then have kt: "kernel_ok (kern t)" "next_pid (kern t) < MAX_PROCESS" using kernel_ok_allocator [OF k(1), of a] k(2) by simp_all
  define ds where "ds = map (\<lambda>i. port_register (ucast ahci_phy + KERNEL_START) (of_nat i)) (filter (disk_attached (hba hw) (ucast ahci_phy + KERNEL_START)) [0..<32])"
  have i: "Init (hba hw) (m_disk s) = Some (Inr (ahci_phy, ds, t))" unfolding Init_def g t(1) ds_def by simp
  obtain pid k' where k': "create_kthread (raw_process hw) (kernel_pdpt hw) (thread_entry hw) (kern t) ''ahci'' (disk_thread hw) (driver_this hw) = Inr (pid, k')"
    "kernel_ok k'" "next_pid k' = next_pid (kern t) + 1" "current_pid k' = current_pid (kern t)" using create_kthread_ok [OF kt] by blast
  let ?s = "s\<lparr>m_disk := t\<lparr>kern := k'\<rparr>, m_sata := ds\<rparr>"
  have "driver_probe hw d i s = Some (Inr (True, ?s))"
    using assms(3) k'(1) by (cases d) (simp_all add: driver_probe_def ahci_Enumerate_def i)
  then show ?thesis using assms(1) k' k(3) t(2) by (intro exI [of _ ?s]) (simp add: machine_ok_def)
qed

text \<open>The process that runs stays the same.\<close>

interpretation bus_drivers: device_drivers "driver_probe hw" "driver_irq hw" "\<lambda>n s. machine_ok n s \<and> current_pid (m_kern s) = pid" "offered hw" for hw pid
proof
  fix n s d i
  assume s: "machine_ok (Suc n) s \<and> current_pid (m_kern s) = pid" and o: "offered hw d i"
  show "\<exists>ok s'. driver_probe hw d i s = Some (Inr (ok, s')) \<and> machine_ok n s' \<and> current_pid (m_kern s') = pid"
  proof (cases "d = RTL8139Driver")
    case True
    then obtain b where "first_memory_bar (info_bars i) = Some b" "bar_start b < 0x100000000" "hardware_ok hw" using o by (auto simp: offered_def)
    from rtl_Enumerate_ok [OF conjunct1 [OF s] this(3,1,2)] show ?thesis using True s by (auto simp: driver_probe_def)
  next
    case False
    then show ?thesis using ahci_probe_ok [OF conjunct1 [OF s] _ False, of hw i] o s by (auto simp: offered_def)
  qed
next
  fix n s d k h s'
  assume "machine_ok n s \<and> current_pid (m_kern s) = pid" "driver_irq hw d k s = Inr (h, s')"
  then show "machine_ok n s' \<and> current_pid (m_kern s') = pid"
    by (auto simp: driver_irq_def machine_ok_def rtl_HandleInterrupt_def outcome dest: irq_keeps split: pci_driver.splits option.splits)
qed

lemma lapic_eoi_ok [simp]: "machine_ok n (lapic_eoi s) = machine_ok n s" "m_disk (lapic_eoi s) = m_disk s"
  by (simp_all add: machine_ok_def lapic_eoi_def)

lemma pci_handler_ok:
  assumes "machine_ok n s" "pci_handler (driver_irq hw) lapic_eoi ds info s = Inr (Some s')"
  shows "machine_ok n s' \<and> current_pid (m_kern s') = current_pid (m_kern s)"
  using bus_drivers.handler_keeps [of "current_pid (m_kern s)" lapic_eoi n s hw ds info s'] assms by simp

section \<open>The bus with its drivers\<close>

definition kernel_bus :: "hardware \<Rightarrow> (u64 \<Rightarrow> ExtendedConfigSpace) \<Rightarrow> (u64 \<Rightarrow> nat \<Rightarrow> u32 \<Rightarrow> u32) \<Rightarrow> (machine, pci_driver) bus_env" where
  "kernel_bus hw spaces bars = \<lparr>cs = spaces, cs_bars = bars, probe = driver_probe hw\<rparr>"

definition bus_matches :: "hardware \<Rightarrow> (u64 \<Rightarrow> ExtendedConfigSpace) \<Rightarrow> (u64 \<Rightarrow> nat \<Rightarrow> u32 \<Rightarrow> u32) \<Rightarrow> (u16 \<times> u16 \<Rightarrow> pci_driver option) \<Rightarrow> ECMGroup list \<Rightarrow>
    (pci_driver \<times> PCIDeviceInfo) list" where
  "bus_matches hw spaces bars table groups = matches (kernel_bus hw spaces bars) table (scan (kernel_bus hw spaces bars) groups)"

text \<open>The enumeration returns if the process table has room for the threads of all devices with a driver.\<close>

lemma PCI_Enumerate_ok:
  assumes s: "machine_ok (length (bus_matches hw spaces bars (drivers b) groups) + n) s" and o: "\<And>d i. (d, i) \<in> set (bus_matches hw spaces bars (drivers b) groups) \<Longrightarrow> offered hw d i"
    and v: "\<And>v. 80 \<le> v \<Longrightarrow> v < 88 \<Longrightarrow> vec_size (ints v) < slots_N (ints v)"
  shows "\<exists>b' ints' s'. PCI_Enumerate (kernel_bus hw spaces bars) (driver_irq hw) lapic_eoi groups b ints s = Some (Inr (b', ints', s')) \<and>
    machine_ok n s' \<and> current_pid (m_kern s') = current_pid (m_kern s) \<and> set (active_drivers b') \<subseteq> set (active_drivers b) \<union> fst ` set (bus_matches hw spaces bars (drivers b) groups) \<and>
    (\<forall>v. if 80 \<le> v \<and> v < 88 then sv_list (ints' v) = sv_list (ints v) @ [pci_handler (driver_irq hw) lapic_eoi (active_drivers b')] else ints' v = ints v)"
proof -
  let ?env = "kernel_bus hw spaces bars" and ?pid = "current_pid (m_kern s)"
  have pr: "probe ?env = driver_probe hw" by (simp add: kernel_bus_def)
  have pres: "\<forall>a \<in> set (scan ?env groups). present ?env a" by (simp add: scan_def)
  have off: "offered hw d (info_at ?env a)" if "a \<in> set (scan ?env groups)" "drivers b (vendor (cs ?env a), device_id (cs ?env a)) = Some d" for a d
    using that o by (force simp: bus_matches_def matches_def)
  obtain ds s' where e: "enumerate_groups ?env groups (b, s) = Some (Inr (b\<lparr>active_drivers := active_drivers b @ ds\<rparr>, s'))"
    "machine_ok n s'" "current_pid (m_kern s') = ?pid" "set ds \<subseteq> fst ` set (bus_matches hw spaces bars (drivers b) groups)"
    using bus_drivers.for_each_probe [of ?env hw "scan ?env groups" b n s ?pid, OF pr off _ pres] s unfolding enumerate_scan bus_matches_def by blast
  let ?b = "b\<lparr>active_drivers := active_drivers b @ ds\<rparr>"
  have set: "v \<in> set (map (\<lambda>i. IOAPIC_PCI_IRQ_START + i) [0..<IOAPIC_PCI_IRQ_COUNT]) \<longleftrightarrow> 80 \<le> v \<and> v < 88" for v
    by (auto simp: IOAPIC_PCI_IRQ_START_def IOAPIC_PCI_IRQ_COUNT_def image_iff Bex_def intro: exI [of _ "v - 80"] simp del: upt_rec_numeral)
  obtain ints' where "Register_range ints IOAPIC_PCI_IRQ_START IOAPIC_PCI_IRQ_COUNT (pci_handler (driver_irq hw) lapic_eoi (active_drivers ?b)) = Inr ints'"
    "\<And>v. if 80 \<le> v \<and> v < 88 then sv_list (ints' v) = sv_list (ints v) @ [pci_handler (driver_irq hw) lapic_eoi (active_drivers ?b)] else ints' v = ints v"
    using Register_from_ok [of "map (\<lambda>i. IOAPIC_PCI_IRQ_START + i) [0..<IOAPIC_PCI_IRQ_COUNT]" ints "pci_handler (driver_irq hw) lapic_eoi (active_drivers ?b)"] v
    unfolding set Register_range_def by (auto simp: distinct_map)
  then show ?thesis using e by (intro exI [of _ ?b] exI [of _ ints'] exI [of _ s']) (auto simp: PCI_Enumerate_def)
qed

section \<open>Properties\<close>

lemma ask_acks: "ask_drivers (driver_irq hw) ds k s = Inr s' \<Longrightarrow> m_acks s \<le> m_acks s' \<and> m_acks s' \<le> m_acks s + 1"
proof (induction ds arbitrary: s)
  case (Cons d ds)
  obtain h t where t: "driver_irq hw d k s = Inr (h, t)" "if h then s' = t else ask_drivers (driver_irq hw) ds k t = Inr s'"
    using Cons.prems by (auto simp: outcome split: if_splits)
  have "m_acks t = m_acks s + (if h then 1 else 0)"
    using t(1) by (auto simp: driver_irq_def rtl_HandleInterrupt_def outcome split: pci_driver.splits option.splits)
  then show ?case using t(2) Cons.IH [of t] by (auto split: if_splits)
qed simp


text \<open>C33: the network card is started with two threads, and its drivers know the address that the card reports.  But the address table still has, for the kernel's own address and so, since
  all addresses count as equal, for every address, the one from before the reset; the address of the card itself is not in the table.\<close>

theorem nic_started:
  assumes "machine_ok (Suc n) s" "hardware_ok hw" "first_memory_bar (info_bars i) = Some b" "bar_start b < 0x100000000" "nic_mac hw \<noteq> nic_mac0 hw"
  shows "\<exists>s' d a. rtl_Enumerate hw i s = Some (Inr (True, s')) \<and> machine_ok n s' \<and> next_pid (m_kern s') = next_pid (m_kern s) + 2 \<and>
    m_nic s' = Some d \<and> mac d = nic_mac hw \<and> arp d = Some a \<and> eth_address a = nic_mac hw \<and>
    (\<forall>ip. arp_find_ip a ip = Some (nic_mac0 hw)) \<and> arp_find_eth a (nic_mac hw) = None"
proof -
  obtain s' d a where r: "rtl_Enumerate hw i s = Some (Inr (True, s'))" "machine_ok n s'" "m_nic s' = Some d" "mac d = nic_mac hw" "arp d = Some a"
    "eth_address a = nic_mac hw" "eth2ip a = [(nic_mac0 hw, ip_address)]" "ip2eth a = [(ip_address, nic_mac0 hw)]" "next_pid (m_kern s') = next_pid (m_kern s) + 2"
    using rtl_Enumerate_ok [OF assms(1-4)] by blast
  have "arp_find_ip a ip = Some (nic_mac0 hw)" for ip using r(8) by (simp add: arp_find_ip_def ip_less_def)
  moreover have "arp_find_eth a (nic_mac hw) = None" using r(7) assms(5) eth_order.connex [of "nic_mac hw" "nic_mac0 hw"] by (auto simp: arp_find_eth_def)
  ultimately show ?thesis using r by blast
qed

section \<open>Witnesses\<close>

text \<open>A machine with the sample disk controller and a network card that resets at once and reports received frames.\<close>

definition sample_hardware :: "Process \<Rightarrow> ArpPacket \<Rightarrow> hardware" where
  "sample_hardware raw p = \<lparr>hba = sample_hba (\<lambda>_. 0), nic_ring = (\<lambda>_. 0), nic_buffers = (\<lambda>_ _. 0x55), nic_packets = (\<lambda>_. sample_packet), nic_arp_packet = p,
     nic_mac0 = EthernetAddress 0 0 0 0 0 0, nic_mac = EthernetAddress 2 0 0 0 0 1, nic_status = (\<lambda>_. 0x2000), nic_cmd = (\<lambda>_. 0), nic_isr = (\<lambda>_ _. 0),
     objects = 3, raw_process = raw, kernel_pdpt = 0x3000, thread_entry = KERNEL_START, arp_start = KERNEL_START, nic_start = KERNEL_START,
     disk_thread = KERNEL_START, driver_this = 0\<rparr>"

definition sample_machine :: "kstate \<Rightarrow> machine" where
  "sample_machine k = \<lparr>m_disk = \<lparr>kern = k, memory = (\<lambda>_. 0), commands = 0\<rparr>, m_out = [], m_nic = None, m_sata = [], m_acks = 0\<rparr>"

definition sample_info :: PCIDeviceInfo where
  "sample_info = \<lparr>config_space = KERNEL_START, info_bars = [\<lparr>bar_start = 0xc000, bar_size = 256, is_io = True\<rparr>, \<lparr>bar_start = 0xfebc1000, bar_size = 256, is_io = False\<rparr>]\<rparr>"

lemma sample_hardware_ok: "hardware_ok (sample_hardware raw p)"
  using sample_hba_ok(3) [where disk = "\<lambda>_. 0"] by (simp add: hardware_ok_def sample_hardware_def sample_hba_def ghc_enable_def Let_def drop_bit_eq_div)

lemma sample_machine_ok: "\<exists>a k. buddy_allocator_init 0x4000000 30 = Inr a \<and> process_init raw 0x3000 0 0 (boot_state a) = Inr k \<and> machine_ok 2 (sample_machine k)"
  using boot_state_ok [of raw] by (fastforce simp: machine_ok_def sample_machine_def MAX_PROCESS_def)


theorem nic_started_witness:
  "\<forall>raw p. \<exists>a k s' d. buddy_allocator_init 0x4000000 30 = Inr a \<and> process_init raw 0x3000 0 0 (boot_state a) = Inr k \<and>
     rtl_Enumerate (sample_hardware raw p) sample_info (sample_machine k) = Some (Inr (True, s')) \<and> m_nic s' = Some d \<and> mac d = EthernetAddress 2 0 0 0 0 1"
proof (intro allI)
  fix raw p
  obtain a k where k: "buddy_allocator_init 0x4000000 30 = Inr a" "process_init raw 0x3000 0 0 (boot_state a) = Inr k" "machine_ok 2 (sample_machine k)"
    using sample_machine_ok by blast
  have b: "first_memory_bar (info_bars sample_info) = Some \<lparr>bar_start = 0xfebc1000, bar_size = 256, is_io = False\<rparr>" by (simp add: first_memory_bar_def sample_info_def)
  have m: "nic_mac (sample_hardware raw p) = EthernetAddress 2 0 0 0 0 1" "nic_mac0 (sample_hardware raw p) = EthernetAddress 0 0 0 0 0 0" by (simp_all add: sample_hardware_def)
  have "\<exists>s' d. rtl_Enumerate (sample_hardware raw p) sample_info (sample_machine k) = Some (Inr (True, s')) \<and> m_nic s' = Some d \<and> mac d = EthernetAddress 2 0 0 0 0 1"
    using nic_started [OF k(3) [unfolded numeral_2_eq_2] sample_hardware_ok [of raw p] b] unfolding m by auto
  with k(1,2) show "\<exists>a k s' d. buddy_allocator_init 0x4000000 30 = Inr a \<and> process_init raw 0x3000 0 0 (boot_state a) = Inr k \<and>
     rtl_Enumerate (sample_hardware raw p) sample_info (sample_machine k) = Some (Inr (True, s')) \<and> m_nic s' = Some d \<and> mac d = EthernetAddress 2 0 0 0 0 1" by blast
qed

end
