(* ===== verification/Kernel.thy ===== *)
theory Kernel
  imports Drivers Mem_Fs Unwind
begin

text \<open>
  \<^verbatim>\<open>kernel.cpp\<close>: the start of the kernel, which puts the components together in their order, up to the context of process 1.  After the start the kernel
  only runs in its interrupt handlers and in its threads; the last section shows that its state stays sound.
\<close>

section \<open>The parts of the kernel\<close>

text \<open>What the compiler and linker, the boot loader and the hardware provide, beyond what the drivers need; \<open>bus_objects\<close> are the sizes of the objects that the registration of
  the drivers allocates, and \<open>ram\<close> is memory with the firmware's tables.\<close>

record platform =
  hw :: hardware
  boot_load :: "u64 \<Rightarrow> u64"
  boot_cr3 :: u64
  boot_gdt :: "nat \<Rightarrow> u64"
  boot_gdt_limit :: nat
  boot_segments :: seg_state
  tss_vaddr :: u64
  tables_vaddr :: u64
  init_stack_word :: u64
  init_stack_bottom :: u64
  interrupt_stack :: u64
  interrupt_stack_bottom :: u64
  irq_entries :: "irq_entry \<Rightarrow> u64"
  irq_default :: u64
  main_start :: u64
  sp_radix :: IntRadix
  sizeof_InterruptProcessor :: u64
  sizeof_MemFsDirNode :: u64
  sizeof_PCIBusDriver :: u64
  bus_objects :: "u64 list"
  sizeof_Serial8250 :: u64
  ram :: mem
  local_apic :: APIC
  timer_left :: u32
  ioapics :: "u32 \<Rightarrow> ioapic"
  spaces :: "u64 \<Rightarrow> ExtendedConfigSpace"
  space_bars :: "u64 \<Rightarrow> nat \<Rightarrow> u32 \<Rightarrow> u32"
  com1_in :: "machine \<Rightarrow> u16 \<Rightarrow> u8"

record kernel =
  k_mm :: mm_state
  k_stacks :: "(u64 \<times> u64) SmallVec"
  k_idt :: "nat \<Rightarrow> InterruptDescriptor"
  k_ints :: "machine interrupts"
  k_fs_root :: MemFsNode
  k_apic :: APIC
  k_ioapic :: ioapic
  k_bus :: "pci_driver PCIBusDriver"
  k_machine :: machine

definition MaxValidStacks :: nat where "MaxValidStacks = 8"

text \<open>\<^verbatim>\<open>kernel_init_stack\<close> is an array, but here it is declared as a pointer: what is stored is the word at the low end of the stack, not its address.\<close>

definition stacks_init :: "platform \<Rightarrow> (u64 \<times> u64) SmallVec \<Rightarrow> (u64 \<times> u64) SmallVec res" where
  "stacks_init p stacks =
     bindR (sv_push_back stacks (init_stack_word p, init_stack_bottom p)) (\<lambda>stacks.
     sv_push_back stacks (interrupt_stack p, interrupt_stack_bottom p))"

definition knew :: "u64 \<Rightarrow> kstate \<Rightarrow> kstate res" where
  "knew sz k = bindR (kmalloc (allocator k) sz) (\<lambda>(_, a). Inr (k\<lparr>allocator := a\<rparr>))"

fun knew_all :: "u64 list \<Rightarrow> kstate \<Rightarrow> kstate res" where
  "knew_all [] k = Inr k"
| "knew_all (sz # szs) k = bindR (knew sz k) (knew_all szs)"

definition create_root_dir :: "platform \<Rightarrow> kstate \<Rightarrow> (MemFsNode \<times> kstate) res" where
  "create_root_dir p k = bindR (knew (sizeof_MemFsDirNode p) k) (\<lambda>k. Inr (MemFsDirNode Map.empty, k))"

definition irq_init :: "platform \<Rightarrow> u16 \<Rightarrow> kstate \<Rightarrow> ((nat \<Rightarrow> InterruptDescriptor) \<times> machine interrupts \<times> kstate) res" where
  "irq_init p sel k = bindR (knew (sizeof_InterruptProcessor p) k) (\<lambda>k. Inr (setup_idt (irq_entries p) sel (irq_default p), no_interrupts, k))"

text \<open>The handler of system calls on the state of the machine.\<close>

definition on_machine :: "(kstate \<times> mem \<times> char list) handler \<Rightarrow> machine handler" where
  "on_machine h info s =
     bindR (h info (m_kern s, memory (m_disk s), m_out s)) (\<lambda>r.
     Inr (map_option (\<lambda>(k, m, out). s\<lparr>m_disk := (m_disk s)\<lparr>kern := k, memory := m\<rparr>, m_out := out\<rparr>) r))"

definition system_calls :: "platform \<Rightarrow> machine handler" where
  "system_calls p = on_machine (syscall_handler (sp_radix p))"

definition echo :: "u8 \<Rightarrow> machine \<Rightarrow> machine" where
  "echo c s = s\<lparr>m_out := m_out s @ ''Serial Port input: '' @ [char_of (unat c), CHR 0x0a]\<rparr>"

section \<open>Start\<close>

text \<open>The basic functions, up to the registration of the system calls.\<close>

definition start_core :: "platform \<Rightarrow> EFIServicesInfo \<Rightarrow>
    (mm_state \<times> (u64 \<times> u64) SmallVec \<times> (nat \<Rightarrow> InterruptDescriptor) \<times> machine interrupts \<times> MemFsNode \<times> kstate) res" where
  "start_core p efi_info =
     (if unat (kernel_physical_start efi_info) mod PAGE_SIZE \<noteq> 0 then Inl (Panic ''Kernel start address not page aligned'')
      else bindR (mm_init (boot_load p) (boot_cr3 p) (boot_gdt p) (boot_gdt_limit p) (tss_vaddr p) (interrupt_stack_bottom p) (tables_vaddr p) efi_info
             (boot_segments p)) (\<lambda>mm.
           bindR (stacks_init p (sv_new MaxValidStacks (\<lambda>_. (0, 0)))) (\<lambda>stacks.
           bindR (irq_init p (ucast (reg_cs (mm_segments mm))) \<lparr>allocator = mm_allocator mm, processes = (\<lambda>_. None), next_pid = 1, current_pid = 0\<rparr>) (\<lambda>(idt, ints, k).
           bindR (create_root_dir p k) (\<lambda>(root, k).
           bindR (process_init (raw_process (hw p)) (kernel_pdpt (hw p)) (thread_entry (hw p)) (main_start p) k) (\<lambda>k.
           bindR (Register ints IRQ_SYSCALL (system_calls p)) (\<lambda>ints.
           Inr (mm, stacks, idt, ints, root, k))))))))"

text \<open>The devices.\<close>

definition start_devices :: "platform \<Rightarrow> u64 \<Rightarrow> machine interrupts \<Rightarrow> kstate \<Rightarrow>
    (APIC \<times> ioapic \<times> pci_driver PCIBusDriver \<times> machine interrupts \<times> machine) res option" where
  "start_devices p xsdt_phy ints k =
     (case bindR (lapic_init (timer_left p) lapic_eoi ints (local_apic p)) (\<lambda>(apic, ints).
           bindR (knew_all (sizeof_PCIBusDriver p # bus_objects p) k) (\<lambda>k.
           bindR (register_pci_devices empty_bus) (\<lambda>bus. Inr (apic, ints, k, bus)))) of
        Inl e \<Rightarrow> Some (Inl e)
      | Inr (apic, ints, k, bus) \<Rightarrow>
          map_option (\<lambda>r. bindR r (\<lambda>(io, bus, ints, s).
            bindR (knew (sizeof_Serial8250 p) (m_kern s)) (\<lambda>k.
            bindR (Serial8250_new (com1_in p) 0x3f8 lapic_eoi echo ints) (\<lambda>ints.
            Inr (apic, io, bus, ints, set_kern s k)))))
          (efi_table_init (ram p) xsdt_phy (ioapics p) (kernel_bus (hw p) (spaces p) (space_bars p)) (driver_irq (hw p)) lapic_eoi bus ints
            \<lparr>m_disk = \<lparr>kern = k, memory = ram p, commands = 0\<rparr>, m_out = [], m_nic = None, m_sata = [], m_acks = 0\<rparr>))"

text \<open>The start ends by entering the context of the current process; what it prints on the way is left out.\<close>

definition Kernel_start :: "platform \<Rightarrow> EFIServicesInfo \<Rightarrow> (kernel \<times> Context) res option" where
  "Kernel_start p efi_info =
     (case start_core p efi_info of
        Inl e \<Rightarrow> Some (Inl e)
      | Inr (mm, stacks, idt, ints, root, k) \<Rightarrow>
          map_option (\<lambda>r. bindR r (\<lambda>(apic, io, bus, ints, s).
            bindR (current_context (m_kern s)) (\<lambda>c.
            Inr (\<lparr>k_mm = mm, k_stacks = stacks, k_idt = idt, k_ints = ints, k_fs_root = root, k_apic = apic, k_ioapic = io, k_bus = bus, k_machine = s\<rparr>, c))))
          (start_devices p (xsdt_phy_addr efi_info) ints k))"

section \<open>Stack dumps\<close>

text \<open>The frames that are printed, in order: return address and saved frame pointer.\<close>

definition kernel_stack_range :: "Process \<Rightarrow> u64 \<times> u64" where
  "kernel_stack_range proc =
     (let this = start_phy proc + KERNEL_START in
      (this + of_nat (kernel_stack_bottom - THREAD_KERNEL_STACK_SIZE), this + of_nat kernel_stack_bottom))"

definition stack_dump :: "(u64 \<Rightarrow> u64) \<Rightarrow> (u64 \<times> u64) SmallVec \<Rightarrow> kstate \<Rightarrow> u64 \<Rightarrow> (u64 \<times> u64) list option res" where
  "stack_dump rd stacks k rbp =
     bindR (current k) (\<lambda>proc.
     Inr (map_option snd (Iterate rd (\<lambda>out prev ret. (True, out @ [(ret, prev)]))
       \<lparr>uw_rbp = rbp, uw_valid_stacks = stacks, uw_kthread_stack_range = kernel_stack_range proc\<rparr> [])))"

section \<open>The start returns\<close>

definition kernel_table :: "u16 \<times> u16 \<Rightarrow> pci_driver option" where
  "kernel_table = (\<lambda>_. None)((0x10ec, 0x8139) := Some RTL8139Driver, (0x8086, 0x2922) := Some AHCIDriver_qemu, (0x8086, 0x2829) := Some AHCIDriver_VirtualBox)"

text \<open>The tables of the firmware can be reached: the routing controller in the last table of its kind starts, and the last table of the bus lists \<open>groups\<close>.\<close>

definition tables_ok :: "platform \<Rightarrow> u64 \<Rightarrow> ECMGroup list \<Rightarrow> bool" where
  "tables_ok p xsdt_phy groups \<longleftrightarrow>
     (let m = ram p; xsdt = xsdt_phy + KERNEL_START; phys = tables_phy m xsdt in
      xsdt_phy \<noteq> 0 \<and> xsdt_phy < 0x100000000 \<and> signature m xsdt = xsdt_signature \<and>
      (\<exists>apic pcie pic phy io. last_of (reachable_tables m ACPI_TABLE_SIGNATURE_APIC phys) = Some apic \<and> ioapic_init m apic (ioapics p) = Some (Inr (pic, phy, io)) \<and>
         last_of (reachable_tables m ACPI_TABLE_SIGNATURE_PCIE_CONFIG phys) = Some pcie \<and> segment_groups m pcie = groups))"

definition devices :: "platform \<Rightarrow> ECMGroup list \<Rightarrow> (pci_driver \<times> PCIDeviceInfo) list" where
  "devices p groups = bus_matches (hw p) (spaces p) (space_bars p) kernel_table groups"

definition boot_ok :: "platform \<Rightarrow> EFIServicesInfo \<Rightarrow> ECMGroup list \<Rightarrow> bool" where
  "boot_ok p efi_info groups \<longleftrightarrow> map_ok efi_info \<and>
     (\<forall>md \<in> set (descriptors efi_info [0..<unat (descriptor_count efi_info)]). md_Type md = EfiConventionalMemory \<longrightarrow> \<not> overlaps_kernel efi_info md) \<and>
     4096 dvd unat (kernel_physical_start efi_info) \<and> boot_gdt_limit p + 1 \<le> 1024 \<and> base_msr (local_apic p) AND 0xfffffffff000 < 0x100000000 \<and>
     tables_ok p (xsdt_phy_addr efi_info) groups \<and> 2 + 2 * length (devices p groups) < MAX_PROCESS \<and> (\<forall>(d, i) \<in> set (devices p groups). offered (hw p) d i)"

lemma knew_ok: "frames_ok (allocator k) \<Longrightarrow> \<exists>a. knew sz k = Inr (k\<lparr>allocator := a\<rparr>) \<and> frames_ok a"
  using kmalloc_frame [of "allocator k" sz] by (auto simp: knew_def)

lemma knew_all_ok: "frames_ok (allocator k) \<Longrightarrow> \<exists>a. knew_all szs k = Inr (k\<lparr>allocator := a\<rparr>) \<and> frames_ok a"
proof (induction szs arbitrary: k)
  case Nil
  then show ?case by (auto intro!: exI [of _ "allocator k"])
next
  case (Cons sz szs)
  obtain a where a: "knew sz k = Inr (k\<lparr>allocator := a\<rparr>)" "frames_ok a" using knew_ok [OF Cons.prems, of sz] by blast
  then show ?case using Cons.IH [of "k\<lparr>allocator := a\<rparr>"] by auto
qed

lemma stacks_init_ok:
  "\<exists>v. stacks_init p (sv_new MaxValidStacks z) = Inr v \<and> sv_list v = [(init_stack_word p, init_stack_bottom p), (interrupt_stack p, interrupt_stack_bottom p)]"
proof -
  let ?x = "(init_stack_word p, init_stack_bottom p)" and ?y = "(interrupt_stack p, interrupt_stack_bottom p)"
  have n: "vec_size (sv_new MaxValidStacks z) = 0" "slots_N (sv_new MaxValidStacks z) = 8" "sv_list (sv_new MaxValidStacks z) = []"
    by (simp_all add: sv_new_def MaxValidStacks_def sv_list_def)
  obtain v where v: "sv_push_back (sv_new MaxValidStacks z) ?x = Inr v" "sv_list v = [?x]" "slots_N v = 8"
    using sv_emplace_back_ok [of "sv_new MaxValidStacks z" ?x] n by (auto simp: sv_push_eq_emplace)
  then have "vec_size v = 1" using length_sv_list [of v] by simp
  then obtain w where "sv_push_back v ?y = Inr w" "sv_list w = [?x, ?y]" using sv_emplace_back_ok [of v ?y] v(2,3) by (auto simp: sv_push_eq_emplace)
  then show ?thesis using v(1) by (simp add: stacks_init_def)
qed

lemma no_interrupts_room [simp]: "sv_list (no_interrupts n) = []" "vec_size (no_interrupts n) < slots_N (no_interrupts n)"
  by (simp_all add: no_interrupts_def sv_new_def sv_list_def MaxHandlersPerInterrupt_def)

lemma start_core_ok:
  assumes "boot_ok p efi_info groups"
  shows "\<exists>mm stacks idt v k. start_core p efi_info = Inr (mm, stacks, idt, no_interrupts(42 := v), MemFsDirNode Map.empty, k) \<and> sv_list v = [system_calls p] \<and>
    kernel_ok k \<and> next_pid k = 2 \<and> current_pid k = 1 \<and> sv_list stacks = [(init_stack_word p, init_stack_bottom p), (interrupt_stack p, interrupt_stack_bottom p)]"
proof -
  have b: "map_ok efi_info" "\<forall>md \<in> set (descriptors efi_info [0..<unat (descriptor_count efi_info)]). md_Type md = EfiConventionalMemory \<longrightarrow> \<not> overlaps_kernel efi_info md"
    "boot_gdt_limit p + 1 \<le> 1024" and al: "unat (kernel_physical_start efi_info) mod PAGE_SIZE = 0" using assms by (auto simp: boot_ok_def PAGE_SIZE_def)
  obtain mm where mm: "mm_init (boot_load p) (boot_cr3 p) (boot_gdt p) (boot_gdt_limit p) (tss_vaddr p) (interrupt_stack_bottom p) (tables_vaddr p) efi_info
      (boot_segments p) = Inr mm" "frames_ok (mm_allocator mm)" using mm_init_returns [OF b] initial_frames_ok by fastforce
  obtain stacks where st: "stacks_init p (sv_new MaxValidStacks (\<lambda>_. (0, 0))) = Inr stacks"
    "sv_list stacks = [(init_stack_word p, init_stack_bottom p), (interrupt_stack p, interrupt_stack_bottom p)]" using stacks_init_ok by blast
  let ?k = "\<lparr>allocator = mm_allocator mm, processes = (\<lambda>_. None), next_pid = 1, current_pid = 0\<rparr>"
  obtain a where a: "knew (sizeof_InterruptProcessor p) ?k = Inr (?k\<lparr>allocator := a\<rparr>)" "frames_ok a" using knew_ok [of ?k] mm(2) by auto
  obtain a' where a': "knew (sizeof_MemFsDirNode p) (?k\<lparr>allocator := a\<rparr>) = Inr (?k\<lparr>allocator := a'\<rparr>)" "frames_ok a'" using knew_ok [of "?k\<lparr>allocator := a\<rparr>"] a(2) by auto
  obtain k where k: "process_init (raw_process (hw p)) (kernel_pdpt (hw p)) (thread_entry (hw p)) (main_start p) (?k\<lparr>allocator := a'\<rparr>) = Inr k"
    "kernel_ok k" "next_pid k = 2" "current_pid k = 1" using process_init_ok [of "?k\<lparr>allocator := a'\<rparr>"] a'(2) by fastforce
  obtain v where v: "Register no_interrupts IRQ_SYSCALL (system_calls p) = Inr (no_interrupts(42 := v))" "sv_list v = [system_calls p]"
    using Register_ok [of 42 no_interrupts "system_calls p"] by (auto simp: IRQ_SYSCALL_def)
  show ?thesis using al mm(1) st a(1) a'(1) k v by (auto simp add: start_core_def irq_init_def create_root_dir_def)
qed

lemma efi_table_found:
  assumes "tables_ok p xsdt_phy groups"
  shows "\<exists>io. efi_table_init (ram p) xsdt_phy (ioapics p) env intr ack b ints s =
    map_option (\<lambda>r. bindR r (\<lambda>(b', ints', s'). Inr (io, b', ints', s'))) (PCI_Enumerate env intr ack groups b ints s)"
proof -
  let ?m = "ram p" and ?xsdt = "xsdt_phy + KERNEL_START"
  let ?pcie = "reachable_tables ?m ACPI_TABLE_SIGNATURE_PCIE_CONFIG (tables_phy ?m ?xsdt)" and ?apic = "reachable_tables ?m ACPI_TABLE_SIGNATURE_APIC (tables_phy ?m ?xsdt)"
  obtain apic pcie pic phy io where t: "last_of ?apic = Some apic" "ioapic_init ?m apic (ioapics p) = Some (Inr (pic, phy, io))" "last_of ?pcie = Some pcie"
    "segment_groups ?m pcie = groups" "xsdt_phy \<noteq> 0" "xsdt_phy < 0x100000000" "signature ?m ?xsdt = xsdt_signature"
    using assms unfolding tables_ok_def Let_def by blast
  have "?pcie \<noteq> []" "?apic \<noteq> []" using t(1,3) by (auto simp: last_of_def)
  then have "foldl (look_at ?m) (None, None) (tables_phy ?m ?xsdt) = (Some pcie, Some apic)" using t(1,3) by (simp add: look_at_last)
  then show ?thesis using t(2,4-) by (intro exI [of _ io]) (simp add: efi_table_init_def Let_def)
qed

lemma start_devices_ok:
  assumes b: "boot_ok p efi_info groups" and k: "kernel_ok k" "next_pid k = 2" and v: "\<And>n. n \<noteq> 42 \<Longrightarrow> ints n = no_interrupts n"
  shows "\<exists>apic io bus ints' s. start_devices p (xsdt_phy_addr efi_info) ints k = Some (Inr (apic, io, bus, ints', s)) \<and> machine_ok 0 s \<and> next_pid (m_kern s) < MAX_PROCESS \<and>
    current_pid (m_kern s) = current_pid k \<and> set (active_drivers bus) \<subseteq> fst ` set (devices p groups) \<and>
    (\<forall>n. if n = 32 then sv_list (ints' n) = [timer_handler lapic_eoi]
         else if n = 68 then sv_list (ints' n) = [com1_handler (com1_in p) 0x3f8 lapic_eoi echo]
         else if 80 \<le> n \<and> n < 88 then sv_list (ints' n) = [pci_handler (driver_irq (hw p)) lapic_eoi (active_drivers bus)] else ints' n = ints n)"
proof -
  have fr: "frames_ok (allocator k)" using k(1) by (simp add: kernel_ok_def)
  have ap: "base_msr (local_apic p) AND 0xfffffffff000 < 0x100000000 \<or> 0x800000000000 \<le> base_msr (local_apic p) AND 0xfffffffff000"
    and len: "2 + 2 * length (devices p groups) < MAX_PROCESS" and off: "\<And>d i. (d, i) \<in> set (devices p groups) \<Longrightarrow> offered (hw p) d i"
    and tab: "tables_ok p (xsdt_phy_addr efi_info) groups" using b by (auto simp: boot_ok_def)
  obtain apic v1 where l: "lapic_init (timer_left p) lapic_eoi ints (local_apic p) = Inr (apic, ints(32 := v1))" "sv_list v1 = [timer_handler lapic_eoi]"
    using lapic_init_returns [where ints = ints and a = "local_apic p" and ack = lapic_eoi and count_left = "timer_left p", OF _ ap] v [of 32] by auto
  obtain a where a: "knew_all (sizeof_PCIBusDriver p # bus_objects p) k = Inr (k\<lparr>allocator := a\<rparr>)" "frames_ok a" using knew_all_ok [OF fr] by blast
  let ?bus = "\<lparr>drivers = kernel_table, active_drivers = []\<rparr> :: pci_driver PCIBusDriver"
  let ?s = "\<lparr>m_disk = \<lparr>kern = k\<lparr>allocator := a\<rparr>, memory = ram p, commands = 0\<rparr>, m_out = [], m_nic = None, m_sata = [], m_acks = 0\<rparr>"
  let ?env = "kernel_bus (hw p) (spaces p) (space_bars p)"
  have r: "register_pci_devices empty_bus = Inr ?bus" by (simp add: register_pci_devices_ok kernel_table_def)
  define N where "N = MAX_PROCESS div 2 - 1 - length (devices p groups)"
  have N: "1 \<le> N" "2 * N + 2 * length (devices p groups) + 2 \<le> MAX_PROCESS" using len by (simp_all add: N_def MAX_PROCESS_def)
  have "machine_ok (length (bus_matches (hw p) (spaces p) (space_bars p) (drivers ?bus) groups) + N) ?s"
    using kernel_ok_allocator [OF k(1) a(2)] k(2) N(2) by (simp add: machine_ok_def devices_def)
  from PCI_Enumerate_ok [where ints = "ints(32 := v1)", OF this] off v
  obtain bus ints1 s1 where e: "PCI_Enumerate ?env (driver_irq (hw p)) lapic_eoi groups ?bus (ints(32 := v1)) ?s = Some (Inr (bus, ints1, s1))" "machine_ok N s1"
    "current_pid (m_kern s1) = current_pid k" "set (active_drivers bus) \<subseteq> fst ` set (devices p groups)"
    "\<And>n. if 80 \<le> n \<and> n < 88 then sv_list (ints1 n) = sv_list ((ints(32 := v1)) n) @ [pci_handler (driver_irq (hw p)) lapic_eoi (active_drivers bus)]
       else ints1 n = (ints(32 := v1)) n" by (fastforce simp: devices_def)
  have k1: "kernel_ok (m_kern s1)" "next_pid (m_kern s1) < MAX_PROCESS" using e(2) N(1) by (simp_all add: machine_ok_def)
  obtain a1 where a1: "knew (sizeof_Serial8250 p) (m_kern s1) = Inr ((m_kern s1)\<lparr>allocator := a1\<rparr>)" "frames_ok a1"
    using knew_ok [of "m_kern s1"] k1(1) by (auto simp: kernel_ok_def)
  obtain v2 where c: "Serial8250_new (com1_in p) 0x3f8 lapic_eoi echo ints1 = Inr (ints1(68 := v2))" "sv_list v2 = [com1_handler (com1_in p) 0x3f8 lapic_eoi echo]"
    using Register_ok [of 68 ints1 "com1_handler (com1_in p) 0x3f8 lapic_eoi echo"] e(5) [of 68] v [of 68] by (auto simp: Serial8250_new_def IOAPIC_ISA_IRQ_COM1_def)
  let ?s2 = "set_kern s1 ((m_kern s1)\<lparr>allocator := a1\<rparr>)"
  obtain io where "start_devices p (xsdt_phy_addr efi_info) ints k = Some (Inr (apic, io, bus, ints1(68 := v2), ?s2))"
    using efi_table_found [OF tab, of ?env "driver_irq (hw p)" lapic_eoi ?bus "ints(32 := v1)" ?s] l a r e(1) a1(1) c(1) by (auto simp: start_devices_def)
  moreover have "machine_ok 0 ?s2" "next_pid (m_kern ?s2) < MAX_PROCESS" "current_pid (m_kern ?s2) = current_pid k"
    using kernel_ok_allocator [OF k1(1) a1(2)] k1(2) e(2,3) by (simp_all add: machine_ok_def set_kern_def)
  moreover have "if n = 32 then sv_list ((ints1(68 := v2)) n) = [timer_handler lapic_eoi]
         else if n = 68 then sv_list ((ints1(68 := v2)) n) = [com1_handler (com1_in p) 0x3f8 lapic_eoi echo]
         else if 80 \<le> n \<and> n < 88 then sv_list ((ints1(68 := v2)) n) = [pci_handler (driver_irq (hw p)) lapic_eoi (active_drivers bus)] else (ints1(68 := v2)) n = ints n" for n
    using e(5) [of n] c(2) l(2) v [of n] by auto
  ultimately show ?thesis using e(4) by blast
qed

text \<open>The handlers of each interrupt after the start, with \<open>ds\<close> the active drivers.\<close>

definition boot_handlers :: "platform \<Rightarrow> pci_driver list \<Rightarrow> nat \<Rightarrow> machine handler list" where
  "boot_handlers p ds n =
     (if n = 32 then [timer_handler lapic_eoi]
      else if n = 42 then [system_calls p]
      else if n = 68 then [com1_handler (com1_in p) 0x3f8 lapic_eoi echo]
      else if 80 \<le> n \<and> n < 88 then [pci_handler (driver_irq (hw p)) lapic_eoi ds]
      else [])"

lemma current_context_ok: "kernel_ok k \<Longrightarrow> \<exists>c. current_context k = Inr c"
  using the_process_ok [of k "current_pid k"] by (auto simp: kernel_ok_def current_ok_def current_context_def current_def)

lemma Kernel_start_ok:
  assumes b: "boot_ok p efi_info groups"
  shows "\<exists>K c. Kernel_start p efi_info = Some (Inr (K, c)) \<and> machine_ok 0 (k_machine K) \<and> next_pid (m_kern (k_machine K)) < MAX_PROCESS \<and>
    current_pid (m_kern (k_machine K)) = 1 \<and> current_context (m_kern (k_machine K)) = Inr c \<and> set (active_drivers (k_bus K)) \<subseteq> fst ` set (devices p groups) \<and>
    (\<forall>n. sv_list (k_ints K n) = boot_handlers p (active_drivers (k_bus K)) n)"
proof -
  obtain mm stacks idt v k where c: "start_core p efi_info = Inr (mm, stacks, idt, no_interrupts(42 := v), MemFsDirNode Map.empty, k)" "sv_list v = [system_calls p]"
    "kernel_ok k" "next_pid k = 2" "current_pid k = 1" using start_core_ok [OF b] by blast
  have "(no_interrupts(42 := v)) n = no_interrupts n" if "n \<noteq> 42" for n using that by simp
  note d = start_devices_ok [where ints = "no_interrupts(42 := v)", OF b c(3,4) this]
  obtain apic io bus ints s where d: "start_devices p (xsdt_phy_addr efi_info) (no_interrupts(42 := v)) k = Some (Inr (apic, io, bus, ints, s))" "machine_ok 0 s"
    "next_pid (m_kern s) < MAX_PROCESS" "current_pid (m_kern s) = 1" "set (active_drivers bus) \<subseteq> fst ` set (devices p groups)" and
    i: "\<And>n. if n = 32 then sv_list (ints n) = [timer_handler lapic_eoi]
         else if n = 68 then sv_list (ints n) = [com1_handler (com1_in p) 0x3f8 lapic_eoi echo]
         else if 80 \<le> n \<and> n < 88 then sv_list (ints n) = [pci_handler (driver_irq (hw p)) lapic_eoi (active_drivers bus)] else ints n = (no_interrupts(42 := v)) n"
    using d unfolding c(5) by blast
  obtain cx where x: "current_context (m_kern s) = Inr cx" using current_context_ok [of "m_kern s"] d(2) by (auto simp: machine_ok_def)
  have "sv_list (ints n) = boot_handlers p (active_drivers bus) n" for n using i [of n] c(2) by (auto simp: boot_handlers_def)
  then show ?thesis using c(1) d x by (auto simp: Kernel_start_def)
qed

section \<open>The kernel at work\<close>

text \<open>After the start: an interrupt is handled, a thread is created, a context stored or the scheduler called, or the thread of the disk driver reads.\<close>

inductive machine_step :: "HBA \<Rightarrow> machine interrupts \<Rightarrow> machine \<Rightarrow> machine \<Rightarrow> bool" for c ints where
  step_interrupt: "HandleInterrupt (\<lambda>s. current_pid (m_kern s)) ints n err s = Inr (Some s') \<Longrightarrow> machine_step c ints s s'"
| step_kernel: "kernel_step (m_kern s) k \<Longrightarrow> machine_step c ints s (set_kern s k)"
| step_read: "Read c reg (m_disk s) out start sz = Some (Inr (e, t)) \<Longrightarrow> machine_step c ints s (s\<lparr>m_disk := t\<rparr>)"

definition running_ok :: "machine \<Rightarrow> bool" where
  "running_ok s \<longleftrightarrow> machine_ok 0 s \<and> next_pid (m_kern s) < MAX_PROCESS"

lemma run_handlers_keep:
  "(\<And>h info s s'. h \<in> set hs \<Longrightarrow> I s \<Longrightarrow> h info s = Inr (Some s') \<Longrightarrow> I s') \<Longrightarrow> I s \<Longrightarrow> run_handlers cur n err ctx hs s = Inr (Some s') \<Longrightarrow> I s'"
  by (induction hs arbitrary: s) (auto simp: outcome split: option.splits, blast)

lemma system_calls_ok:
  assumes "running_ok s" "system_calls p info s = Inr (Some s')"
  shows "running_ok s'"
proof -
  obtain k m out where h: "handle_syscall (sp_radix p) (m_kern s) (info_pid info) (memory (m_disk s)) = Inr (Some (k, m), out)" "m_kern s' = k" "m_nic s' = m_nic s"
    using assms(2) by (auto simp: system_calls_def on_machine_def syscall_handler_def outcome split: option.splits)
  obtain proc where "processes (m_kern s) (info_pid info) = Some proc"
    using h(1) by (auto simp: handle_syscall_def the_process_def get_process_def outcome split: option.splits)
  with handle_syscall_kernel_ok [OF _ this h(1)] assms(1) h show ?thesis by (auto simp: running_ok_def machine_ok_def)
qed

lemma pci_handler_pids:
  "pci_handler (driver_irq H) lapic_eoi ds info s = Inr (Some s') \<Longrightarrow> m_disk s' = m_disk s"
proof -
  have "ask_drivers (driver_irq H) ds k s = Inr t \<Longrightarrow> m_disk t = m_disk s" for k s t
    by (induction ds arbitrary: s) (auto simp: outcome driver_irq_def rtl_HandleInterrupt_def split: if_splits pci_driver.splits option.splits)
  then show "pci_handler (driver_irq H) lapic_eoi ds info s = Inr (Some s') \<Longrightarrow> m_disk s' = m_disk s" by (auto simp: pci_handler_def outcome)
qed

lemma boot_handlers_ok:
  assumes "h \<in> set (boot_handlers p ds n)" "running_ok s" "h info s = Inr (Some s')"
  shows "running_ok s'"
proof -
  have "running_ok s'" if "timer_handler lapic_eoi info s = Inr (Some s')" using that assms(2) by (auto simp: timer_handler_def running_ok_def)
  moreover have "running_ok s'" if "com1_handler (com1_in p) 0x3f8 lapic_eoi echo info s = Inr (Some s')"
    using that assms(2) by (auto simp: com1_handler_def running_ok_def machine_ok_def echo_def lapic_eoi_def Let_def split: prod.splits option.splits if_splits)
  moreover have "running_ok s'" if h: "pci_handler (driver_irq (hw p)) lapic_eoi ds info s = Inr (Some s')"
    using h pci_handler_pids [OF h] pci_handler_ok [OF _ h, of 0] assms(2) by (auto simp: running_ok_def)
  ultimately show ?thesis using assms(1,3) system_calls_ok [OF assms(2), of p info s'] by (auto simp: boot_handlers_def split: if_splits)
qed

lemma machine_step_ok:
  assumes i: "\<And>n. sv_list (ints n) = boot_handlers p ds n"
  shows "machine_step c ints s s' \<Longrightarrow> running_ok s \<Longrightarrow> running_ok s'"
proof (induction rule: machine_step.induct)
  case (step_interrupt n err s s')
  then have "run_handlers (\<lambda>s. current_pid (m_kern s)) n err (current_pid (m_kern s)) (sv_list (ints n)) s = Inr (Some s')"
    by (auto simp: HandleInterrupt_def outcome split: if_splits)
  with step_interrupt.prems show ?case unfolding i by (rule run_handlers_keep [rotated]) (rule boot_handlers_ok)
next
  case (step_kernel s k)
  then show ?case using kernel_step_ok [OF step_kernel(1)] by (auto simp: running_ok_def machine_ok_def set_kern_def)
next
  case (step_read reg s out start sz e t)
  then have fr: "frames_ok (allocator (m_kern s))" by (simp add: running_ok_def machine_ok_def kernel_ok_def)
  obtain buf a where "kmalloc (allocator (m_kern s)) sz = Inr (buf, a)" "frames_ok a" using kmalloc_frame [OF fr] by blast
  then have "kern t = (m_kern s)\<lparr>allocator := a\<rparr>" using step_read(1) by (auto simp: Read_def Let_def split: option.splits sum.splits)
  then show ?case using step_read(2) kernel_ok_allocator [of "m_kern s" a] \<open>frames_ok a\<close> by (simp add: running_ok_def machine_ok_def)
qed


section \<open>Properties\<close>

text \<open>C2: on a machine whose memory map, tables and devices are sound, the start of the kernel returns with process 1 current, and enters its context.  All parts fit
  together: the allocator, the process table and the drivers are sound, and the only interrupts that have handlers are the timer, the system call, the serial line and
  the eight lines of the bus, one handler each; the handler of the bus asks drivers that were offered a device.\<close>

theorem kernel_starts:
  assumes "boot_ok p efi_info groups"
  shows "\<exists>K c. Kernel_start p efi_info = Some (Inr (K, c)) \<and> machine_ok 0 (k_machine K) \<and> current_pid (m_kern (k_machine K)) = 1 \<and>
    current_context (m_kern (k_machine K)) = Inr c \<and> set (active_drivers (k_bus K)) \<subseteq> fst ` set (devices p groups) \<and>
    (\<forall>n. sv_list (k_ints K n) = boot_handlers p (active_drivers (k_bus K)) n)"
  using Kernel_start_ok [OF assms] by blast


text \<open>C37: a stack dump takes every frame pointer below the kernel's first stack for valid if the lowest word of that stack is zero, as it is until the stack is
  full: the bound that is stored is this word instead of the address of the stack.  With the address stored there, the dump would be confined to the stacks.\<close>

theorem init_stack_bound:
  assumes "stacks_init p (sv_new MaxValidStacks z) = Inr stacks" "unat rbp + 16 < 2 ^ 64"
  shows "ValidRbp \<lparr>uw_rbp = rbp, uw_valid_stacks = stacks, uw_kthread_stack_range = r\<rparr> rbp \<longleftrightarrow>
    init_stack_word p \<le> rbp \<and> unat rbp + 16 \<le> unat (init_stack_bottom p) \<or>
    interrupt_stack p \<le> rbp \<and> unat rbp + 16 \<le> unat (interrupt_stack_bottom p) \<or> fst r \<le> rbp \<and> unat rbp + 16 \<le> unat (snd r)"
  using stacks_init_ok [of p z] assms by (auto simp: ValidRbp_def in_stack_exact word_le_nat_alt)

text \<open>The dump itself returns if frame pointers go up in the stacks that it takes for valid.\<close>

lemma stack_dump_returns:
  assumes "kernel_ok k" "\<And>r. frames_go_up rd \<lparr>uw_rbp = rbp, uw_valid_stacks = stacks, uw_kthread_stack_range = r\<rparr>"
  shows "\<exists>out. stack_dump rd stacks k rbp = Inr (Some out)"
proof -
  obtain proc where "current k = Inr proc" using the_process_ok [of k "current_pid k"] assms(1) by (auto simp: kernel_ok_def current_ok_def current_def)
  moreover let ?u = "\<lparr>uw_rbp = rbp, uw_valid_stacks = stacks, uw_kthread_stack_range = kernel_stack_range proc\<rparr>"
  obtain res where "Iterate rd (\<lambda>out prev ret. (True, out @ [(ret, prev)])) ?u [] = Some res"
    using Iterate_up [of rd ?u "\<lambda>out prev ret. (True, out @ [(ret, prev)])" "[]"] assms(2) by blast
  ultimately show ?thesis by (simp add: stack_dump_def)
qed

section \<open>Witnesses\<close>

text \<open>A machine with one network card: the root table at 0x1000, the table of controllers at 0x2000 and that of the bus at 0x3000.\<close>

definition sample_tables :: "(u64 \<times> u8) list" where
  "sample_tables = [(0x1000, 0x58), (0x1001, 0x53), (0x1002, 0x44), (0x1003, 0x54), (0x1004, 52), (0x1025, 0x20), (0x102d, 0x30),
     (0x2000, 0x41), (0x2001, 0x50), (0x2002, 0x49), (0x2003, 0x43), (0x2004, 56), (0x202c, 1), (0x202d, 12), (0x2032, 0xc0), (0x2033, 0xfe),
     (0x3000, 0x4d), (0x3001, 0x43), (0x3002, 0x46), (0x3003, 0x47), (0x3004, 60), (0x302f, 0xb0), (0x3037, 1)]"

definition sample_ram :: mem where
  "sample_ram a = (case map_of sample_tables (a - KERNEL_START) of None \<Rightarrow> 0 | Some b \<Rightarrow> b)"

definition sample_platform :: "Process \<Rightarrow> ArpPacket \<Rightarrow> seg_state \<Rightarrow> platform" where
  "sample_platform raw q segs = \<lparr>hw = sample_hardware raw q, boot_load = (\<lambda>_. 0), boot_cr3 = 0x1000, boot_gdt = (\<lambda>_. 0), boot_gdt_limit = 1023, boot_segments = segs,
     tss_vaddr = 0xffff800000300000, tables_vaddr = 0xffff800000400000, init_stack_word = 0, init_stack_bottom = 0xffff800000208000,
     interrupt_stack = 0xffff800000210000, interrupt_stack_bottom = 0xffff800000218000, irq_entries = (\<lambda>_. KERNEL_START), irq_default = KERNEL_START,
     main_start = KERNEL_START, sp_radix = Hex, sizeof_InterruptProcessor = 0x21000, sizeof_MemFsDirNode = 64, sizeof_PCIBusDriver = 72, bus_objects = [64, 64, 64],
     sizeof_Serial8250 = 2, ram = sample_ram, local_apic = \<lparr>apic_base = 0, apic_regs = (\<lambda>_. 0), base_msr = 0xfee00900\<rparr>, timer_left = 0xfffff000,
     ioapics = (\<lambda>_. \<lparr>ioregsel = 0, ioregs = (\<lambda>_. 0x170011)\<rparr>), spaces = cs sample_bus, space_bars = (\<lambda>_ _ w. w), com1_in = (\<lambda>_ _. 0)\<rparr>"

definition sample_info_efi :: EFIServicesInfo where
  "sample_info_efi = sample_efi_info\<lparr>xsdt_phy_addr := 0x1000\<rparr>"

lemma sample_bytes: "sample_ram (x + KERNEL_START) = (case map_of sample_tables x of None \<Rightarrow> 0 | Some b \<Rightarrow> b)"
  by (simp add: sample_ram_def)

lemma sample_at: "KERNEL_START + numeral x = numeral x + KERNEL_START" "numeral x + KERNEL_START + numeral y = numeral x + numeral y + KERNEL_START" for x :: num
  by (simp_all add: algebra_simps)

lemmas sample_eval = signature_def bytes_at_def load_le_def upt_rec sample_bytes sample_at sample_tables_def sizeof_SystemDescriptionTable_def

lemma sample_xsdt: "signature sample_ram (0x1000 + KERNEL_START) = xsdt_signature" "tables_phy sample_ram (0x1000 + KERNEL_START) = [0x2000, 0x3000]"
  by (simp_all add: tables_phy_def sdt_length_def xsdt_signature_def sample_eval)


lemma sample_kinds:
  "signature sample_ram (0x2000 + KERNEL_START) = ACPI_TABLE_SIGNATURE_APIC" "signature sample_ram (0x3000 + KERNEL_START) = ACPI_TABLE_SIGNATURE_PCIE_CONFIG"
  by (simp_all add: ACPI_TABLE_SIGNATURE_APIC_def ACPI_TABLE_SIGNATURE_PCIE_CONFIG_def sample_eval)

lemma sample_reachable:
  "last_of (reachable_tables sample_ram ACPI_TABLE_SIGNATURE_APIC [0x2000, 0x3000]) = Some (0x2000 + KERNEL_START)"
  "last_of (reachable_tables sample_ram ACPI_TABLE_SIGNATURE_PCIE_CONFIG [0x2000, 0x3000]) = Some (0x3000 + KERNEL_START)"
  by (simp_all add: reachable_tables_def sample_kinds last_of_def ACPI_TABLE_SIGNATURE_APIC_def ACPI_TABLE_SIGNATURE_PCIE_CONFIG_def)

lemma sample_segments: "segment_groups sample_ram (0x3000 + KERNEL_START) = sample_groups"
  by (simp add: segment_groups_def sdt_length_def read_group_def sample_groups_def sample_eval)

lemma sample_ioapic: "\<exists>pic phy io. ioapic_init sample_ram (0x2000 + KERNEL_START) (\<lambda>_. \<lparr>ioregsel = 0, ioregs = (\<lambda>_. 0x170011)\<rparr>) = Some (Inr (pic, phy, io))"
proof -
  have "find_ioapic sample_ram (0x2000 + KERNEL_START + 44) (ucast (load_le sample_ram (0x2000 + KERNEL_START + 4) 4 :: u32) - 44) 0 = Some (0xfec00000, 0)"
    by (subst find_ioapic.simps) (simp add: sample_eval)
  from ioapic_init_eq [OF this, of "\<lambda>_. \<lparr>ioregsel = 0, ioregs = (\<lambda>_. 0x170011)\<rparr>"] show ?thesis by auto
qed

lemma sample_devices:
  "\<exists>i. devices (sample_platform raw q segs) sample_groups = [(RTL8139Driver, i)] \<and> first_memory_bar (info_bars i) = Some no_bar"
proof -
  let ?env = "kernel_bus (sample_hardware raw q) (cs sample_bus) (\<lambda>_ _ w. w)"
  have c: "cs ?env = cs sample_bus" by (simp add: kernel_bus_def)
  have "scan ?env sample_groups = [KERNEL_START + 0xb0018000]"
    using sample_scan unfolding scan_def scan_bus_def present_def c .
  moreover have "vendor (cs sample_bus (KERNEL_START + 0xb0018000)) = 0x10ec" "device_id (cs sample_bus (KERNEL_START + 0xb0018000)) = 0x8139"
    "pci_bars (cs sample_bus (KERNEL_START + 0xb0018000)) = (\<lambda>_. 0)" by (simp_all add: sample_bus_def)
  moreover have "first_memory_bar (parse_bars rb (\<lambda>_. 0)) = Some no_bar" for rb by (simp add: first_memory_bar_def parse_bars_def no_bar_def upt_rec)
  ultimately show ?thesis by (simp add: devices_def bus_matches_def sample_platform_def matches_def kernel_table_def info_at_def c)
qed

lemma sample_boot_ok: "boot_ok (sample_platform raw q segs) sample_info_efi sample_groups"
proof -
  have efi: "map_ok sample_info_efi" "descriptors sample_info_efi = descriptors sample_efi_info" "descriptor_count sample_info_efi = descriptor_count sample_efi_info"
    "overlaps_kernel sample_info_efi = overlaps_kernel sample_efi_info" "unat (kernel_physical_start sample_info_efi) = 0x100000" "xsdt_phy_addr sample_info_efi = 0x1000"
    using sample_map_ok(1) by (auto simp: sample_info_efi_def map_ok_def descriptors_def overlaps_kernel_def fun_eq_iff) (simp add: sample_efi_info_def)
  have "tables_ok (sample_platform raw q segs) 0x1000 sample_groups"
    using sample_ioapic sample_xsdt sample_reachable sample_segments by (simp add: tables_ok_def sample_platform_def Let_def)
  moreover have "2 + 2 * length (devices (sample_platform raw q segs) sample_groups) < MAX_PROCESS \<and>
      (\<forall>(d, i) \<in> set (devices (sample_platform raw q segs) sample_groups). offered (hw (sample_platform raw q segs)) d i)"
    using sample_devices [of raw q segs] sample_hardware_ok [of raw q] by (auto simp: offered_def no_bar_def sample_platform_def MAX_PROCESS_def)
  moreover have "boot_gdt_limit (sample_platform raw q segs) = 1023" "base_msr (local_apic (sample_platform raw q segs)) = 0xfee00900" by (simp_all add: sample_platform_def)
  ultimately show ?thesis using sample_map_ok efi by (simp add: boot_ok_def)
qed

theorem kernel_starts_witness:
  "\<forall>raw q segs. \<exists>K c. Kernel_start (sample_platform raw q segs) sample_info_efi = Some (Inr (K, c)) \<and> current_pid (m_kern (k_machine K)) = 1"
  using kernel_starts [OF sample_boot_ok] by blast


theorem init_stack_bound_witness:
  "\<forall>raw q segs z. \<exists>stacks. stacks_init (sample_platform raw q segs) (sv_new MaxValidStacks z) = Inr stacks \<and>
     ValidRbp \<lparr>uw_rbp = 8, uw_valid_stacks = stacks, uw_kthread_stack_range = (0, 0)\<rparr> 8"
proof (intro allI)
  fix raw q segs z
  obtain stacks where st: "stacks_init (sample_platform raw q segs) (sv_new MaxValidStacks z) = Inr stacks" using stacks_init_ok by blast
  have "init_stack_word (sample_platform raw q segs) = 0" "init_stack_bottom (sample_platform raw q segs) = 0xffff800000208000" by (simp_all add: sample_platform_def)
  then show "\<exists>stacks. stacks_init (sample_platform raw q segs) (sv_new MaxValidStacks z) = Inr stacks \<and>
     ValidRbp \<lparr>uw_rbp = 8, uw_valid_stacks = stacks, uw_kthread_stack_range = (0, 0)\<rparr> 8"
    using init_stack_bound [OF st, of 8 "(0, 0)"] st by auto
qed

end
