(* ===== verification/Spec2Isabelle.thy ===== *)
theory Spec2Isabelle
  imports Lib Small_Vec Ss_Queue Page_Alloc Page_Table Gdt Serial Fixed_Block Mem_Fs Irq Boot Rtl8139 Kernel
begin

text \<open>
  This library models the kernel \<^verbatim>\<open>modern_05\<close>, a kernel for 64-bit PCs that is started by UEFI firmware, and proves what makes its parts correct.

  \<^bold>\<open>The program.\<close>  The boot loader (\<^verbatim>\<open>boot_loader.c\<close>) loads the kernel image, maps it with a first set of page tables and jumps to it with the firmware's memory
  map and the address of the firmware's tables.  The kernel (\<^verbatim>\<open>kernel.cpp\<close>) sets up segments, page tables and the page allocator (\<^verbatim>\<open>mm/\<close>), the interrupt table
  (\<^verbatim>\<open>irq.cpp\<close>), the first process (\<^verbatim>\<open>process.cpp\<close>), system calls (\<^verbatim>\<open>syscall.cpp\<close>) and the interrupt controllers, finds the devices on the
  bus and starts their drivers (\<^verbatim>\<open>device/\<close>), which create kernel threads; the network card's driver carries the protocols of \<^verbatim>\<open>net/\<close>.  Then process 1
  loads a user program.  From there on everything happens in interrupt handlers and threads.

  \<^bold>\<open>Conventions\<close> (\<open>Prelude\<close>, \<open>Cpu_Defs\<close>).  A w-bit integer is a word, so that all arithmetic wraps as in the code; memory is a map from 64-bit
  addresses to bytes.  The outcome of an operation is \<open>Inr\<close> a result, \<open>Inl (Panic msg)\<close> where the code stops the kernel, or \<open>Inl (Undefined what)\<close> where C++
  gives no meaning: an access outside an array, a null pointer.  Code that may wait or loop for ever has an \<open>option\<close> around this, with \<^const>\<open>None\<close> for not returning.  Structures are
  records with the members of the source, and state is passed explicitly.  Hardware is a parameter: what a register returns is a function of the number of the read.  Text that is
  only printed is left out except in \<open>Serial\<close>, where printing is the subject.

  \<^bold>\<open>Support.\<close>  \<open>Lib\<close>: \<^verbatim>\<open>include/lib/utils.h\<close>, \<^verbatim>\<open>lib/string.cpp\<close>, \<^verbatim>\<open>common/endian.cpp\<close>; the
  logarithms, the memory and string functions against list specifications.  \<open>Small_Vec\<close>: \<^verbatim>\<open>include/common/small_vec.hpp\<close>, a list within its capacity (locale
  \<open>growable\<close>).  \<open>Ss_Queue\<close>: \<^verbatim>\<open>include/common/kssq.hpp\<close>, the lock-free queue as a bounded queue (locale \<open>bounded_fifo\<close>) and, with a step
  relation on single memory accesses, in every interleaving of producer and consumer.  \<open>Ordered_Map\<close>: the ordered map over a comparison (locales \<open>dictionary\<close> and \<open>comparator\<close>,
  the second giving the first).  \<open>Unwind\<close>: \<^verbatim>\<open>common/unwind.cpp\<close>.  \<open>Serial\<close>: \<^verbatim>\<open>include/lib/serial_port.h\<close>,
  \<^verbatim>\<open>lib/serial_port.cpp\<close>, \<^verbatim>\<open>include/common/hexdump.hpp\<close>, \<^verbatim>\<open>include/lib/file_size.h\<close>; printed numbers read back.
  \<open>Fixed_Block\<close>: \<^verbatim>\<open>include/mm/fixed_block_allocator.h\<close>.  \<open>Mem_Fs\<close>: \<^verbatim>\<open>include/fs/mem_fs_node.hpp\<close>.

  \<^bold>\<open>Memory.\<close>  \<open>Buddy\<close> is the allocator of \<^verbatim>\<open>mm/page_alloc.cpp\<close>, operation by operation; \<open>Ring\<close> and \<open>Buddy_Lists\<close> show that
  its linked lists are lists, \<open>Buddy_Tree\<close> that its blocks partition the region, \<open>Buddy_Correct\<close> that allocation and release keep the invariant, and \<open>Buddy_Extent\<close> which part of the
  region a block stands for.  \<open>Page_Alloc\<close> is the interface to the rest of the kernel; its contract is the locale \<open>block_store\<close>, interpreted on the allocator: any
  sequence of requests is safe, releasing everything gives back one block, refusals are exact, \<^verbatim>\<open>kmalloc\<close> and \<^verbatim>\<open>kfree\<close> are inverse.  \<open>Page_Table\<close>: the
  tables of \<^verbatim>\<open>boot_page_table.c\<close> and \<^verbatim>\<open>mm/mm.cpp\<close> and the processor's walk through them.  \<open>Gdt\<close>: segment descriptors and task state.
  \<open>Mm\<close>: the memory map and \<^verbatim>\<open>mm_init\<close>.

  \<^bold>\<open>Processes.\<close>  \<open>Address_Space\<close>: the page tables of a process, over any source of pages with the contract \<open>frame_source\<close>.  \<open>Elf\<close>: the loader
  of user programs; the locale \<open>image_loader\<close> holds what it shares with the boot loader's.  \<open>Process\<close> and \<open>Scheduler\<close>: the process table, creation and scheduling; the
  invariant \<open>kernel_ok\<close> of all states reached by the relation \<open>kernel_step\<close>, fairness, and that a stored context is the one restored.  \<open>Syscalls\<close>: dispatch
  and calls.  \<open>Irq\<close>: interrupt gates, registration and dispatch of handlers, and the system call interrupt.

  \<^bold>\<open>Start.\<close>  \<open>Boot\<close>: \<^verbatim>\<open>boot_loader.c\<close> from \<^verbatim>\<open>efi_main\<close> to the jump, over a record of firmware services; its result when the
  firmware serves every request, and its outcomes when it does not.

  \<^bold>\<open>Devices.\<close>  \<open>Net\<close> and \<open>Rtl8139\<close>: address resolution, and the network card with its receive ring, transmit buffers, interrupt and thread; a frame that is sent
  is the one received, damaged ones are dropped, the driver's state stays sound.  \<open>Ahci\<close>: the disk controller; a read gives the bytes of the disk, through the command, the region
  table and the transfer the controller makes for them; the contract \<open>block_device\<close> is interpreted on it, and \<open>Gpt\<close> lists partitions over any such device.  \<open>Pci\<close>: base
  address registers, the scan of the bus and the choice of drivers.  \<open>Apic\<close>: the routing of interrupt lines, the timer and the serial line's handler.  \<open>Acpi\<close>: the search of the
  firmware's tables.  \<open>Drivers\<close>: the two drivers behind the interface of the bus, as an interpretation of the locale \<open>device_drivers\<close>.

  \<^bold>\<open>The whole.\<close>  \<open>Kernel\<close> composes these parts in the order of \<^verbatim>\<open>Kernel::start\<close>.  With a sound memory map, tables and devices (\<open>boot_ok\<close>) the start returns, with process 1 current,
  and the relation \<open>machine_step\<close> (interrupts with the handlers that the start registered, threads created, contexts stored, the scheduler, reads from the disk) keeps the
  invariant \<open>machine_ok\<close> of allocator, process table and network card.

  \<^bold>\<open>Bounds.\<close>  No fuel is used.  Loops with a bound are recursive functions with a measure or run over a list of indices; loops that depend on hardware, on memory or on a
  list that might be circular (\<open>wait_until\<close>, \<open>wait_completion\<close>, \<open>put\<close>, \<open>count_free\<close>, \<open>schedule_loop\<close>, \<open>Iterate\<close>, \<open>find_ioapic\<close>, \<open>list_entries\<close>) are partial functions, and that they return is
  proved, from the hypothesis that the hardware answers at some time where that is what they wait for.  The process table has 1024 slots; statements on creation assume that it is not full, which \<open>boot_ok\<close> requires for two
  threads for each device.  A disk read is proved for up to sixteen sectors, since the command is wrong beyond that (\<open>read_regions\<close>).

  \<^bold>\<open>Not modelled.\<close>  Assembly and single instructions (\<^verbatim>\<open>irq.S\<close>, \<^verbatim>\<open>init/\<close>, \<^verbatim>\<open>lib/port_io.cpp\<close>,
  \<^verbatim>\<open>lib/cpu_utils.cpp\<close>): their effects are parameters or arguments.  The register dump of \<^verbatim>\<open>debug.cpp\<close>, which only prints.  The spin lock
  (\<^verbatim>\<open>include/common/kspinlock.hpp\<close>): operations that hold it are one step.  The standard containers on the kernel's heap: lists and maps stand for them, and their allocations are
  counted only where objects are created at the start.  The bodies of the first two threads in \<^verbatim>\<open>process.cpp\<close>, which print and yield for ever.  \<^verbatim>\<open>fs/\<close> besides the file system in
  memory, \<^verbatim>\<open>elf.cpp\<close>, \<^verbatim>\<open>dummy.cpp\<close> and \<^verbatim>\<open>cxx/\<close>, which are empty, declarations, or stubs for the linker.  The headers of two firmware protocols
  (\<^verbatim>\<open>efiUgaDraw.h\<close>, \<^verbatim>\<open>efiConsoleControl.h\<close>), which hold no code.  User programs.
\<close>

end
